(* ===== verification/Prelude.thy ===== *)
theory Prelude
  imports Main "HOL-Library.Word" "HOL-Library.Sublist"
begin

text \<open>
  Shared vocabulary of the development. A Go string and a Go byte segment are both a list of
  bytes, so both are \<^typ>\<open>string\<close>: a HOL \<^typ>\<open>char\<close> is an 8-bit value. An \<open>int64\<close> is an
  \<^typ>\<open>int\<close> with the wrap-around of its arithmetic written out (\<open>wrap64\<close>). The pieces of the
  standard \<open>strings\<close> package the program calls are defined here, with the generic list and
  option lemmas the component theories use.
\<close>

section \<open>Types and rule collections\<close>

type_synonym bytes = string

named_theorems frame_simps \<open>what an operation leaves unchanged\<close>
named_theorems read_simps \<open>what a bounded read of a stream delivers\<close>
named_theorems bound_intros \<open>bounds of scores, counters and sizes\<close>

section \<open>Machine integers\<close>

text \<open>Two's complement 64-bit wrap-around, the result of every \<open>int64\<close> operation.\<close>

definition wrap64 :: "int \<Rightarrow> int" where
  "wrap64 x = (x + 2 ^ 63) mod 2 ^ 64 - 2 ^ 63"

definition in_int64 :: "int \<Rightarrow> bool" where
  "in_int64 x \<longleftrightarrow> - (2 ^ 63) \<le> x \<and> x < 2 ^ 63"

definition max_int64 :: int where
  "max_int64 = 2 ^ 63 - 1"

definition min_int64 :: int where
  "min_int64 = - (2 ^ 63)"

lemma wrap64_id [simp]: "in_int64 x \<Longrightarrow> wrap64 x = x"
  by (simp add: wrap64_def in_int64_def)

lemma wrap64_range: "in_int64 (wrap64 x)"
proof -
  have "0 \<le> (x + 2 ^ 63) mod 2 ^ 64" and "(x + 2 ^ 63) mod 2 ^ 64 < (2::int) ^ 64"
    by simp_all
  then show ?thesis by (simp add: wrap64_def in_int64_def)
qed

text \<open>Go's integer division truncates towards zero.\<close>

definition quot :: "int \<Rightarrow> int \<Rightarrow> int" where
  "quot a b = sgn a * sgn b * (\<bar>a\<bar> div \<bar>b\<bar>)"

lemma quot_pos [simp]: "0 \<le> a \<Longrightarrow> 0 < b \<Longrightarrow> quot a b = a div b"
  by (cases "a = 0") (auto simp: quot_def)

section \<open>Strings\<close>

definition nl :: char where "nl = CHR 0x0A"
definition cr :: char where "cr = CHR 0x0D"
definition tab :: char where "tab = CHR 0x09"

definition is_digit :: "char \<Rightarrow> bool" where
  "is_digit c \<longleftrightarrow> 48 \<le> (of_char c :: nat) \<and> (of_char c :: nat) \<le> 57"

definition digit_val :: "char \<Rightarrow> int" where
  "digit_val c = of_char c - 48"

text \<open>The value of a digit string, most significant digit first.\<close>

fun num_acc :: "int \<Rightarrow> string \<Rightarrow> int" where
  "num_acc acc [] = acc"
| "num_acc acc (c # cs) = num_acc (acc * 10 + digit_val c) cs"

abbreviation num_of :: "string \<Rightarrow> int" where
  "num_of \<equiv> num_acc 0"

lemma digit_val_bounds [bound_intros]: "is_digit c \<Longrightarrow> 0 \<le> digit_val c \<and> digit_val c \<le> 9"
proof -
  assume "is_digit c"
  then have "48 \<le> (of_char c :: nat)" "(of_char c :: nat) \<le> 57"
    by (simp_all add: is_digit_def)
  moreover have "(of_char c :: int) = int (of_char c)" by (simp add: of_char_def)
  ultimately show ?thesis unfolding digit_val_def by linarith
qed

lemma num_acc_nonneg: "0 \<le> acc \<Longrightarrow> list_all is_digit cs \<Longrightarrow> 0 \<le> num_acc acc cs"
proof (induction cs arbitrary: acc)
  case (Cons c cs)
  then have "0 \<le> acc * 10 + digit_val c" using digit_val_bounds [of c] by simp
  with Cons show ?case by simp
qed simp

text \<open>\<open>strings.HasPrefix\<close>, \<open>HasSuffix\<close>, \<open>TrimPrefix\<close> and \<open>TrimSuffix\<close>.\<close>

definition has_prefix :: "string \<Rightarrow> string \<Rightarrow> bool" where
  "has_prefix s p \<longleftrightarrow> take (length p) s = p"

definition has_suffix :: "string \<Rightarrow> string \<Rightarrow> bool" where
  "has_suffix s p \<longleftrightarrow> length p \<le> length s \<and> drop (length s - length p) s = p"

definition trim_prefix :: "string \<Rightarrow> string \<Rightarrow> string" where
  "trim_prefix s p = (if has_prefix s p then drop (length p) s else s)"

definition trim_suffix :: "string \<Rightarrow> string \<Rightarrow> string" where
  "trim_suffix s p = (if has_suffix s p then take (length s - length p) s else s)"

lemma has_prefix_append [simp]: "has_prefix (p @ s) p"
  by (simp add: has_prefix_def)

lemma has_suffix_append [simp]: "has_suffix (s @ p) p"
  by (simp add: has_suffix_def)

lemma trim_prefix_append [simp]: "trim_prefix (p @ s) p = s"
  by (simp add: trim_prefix_def)

lemma trim_suffix_append [simp]: "trim_suffix (s @ p) p = s"
  by (simp add: trim_suffix_def)

lemma has_prefix_iff: "has_prefix s p \<longleftrightarrow> (\<exists>r. s = p @ r)"
  by (metis append_take_drop_id has_prefix_append has_prefix_def)

lemma has_suffix_iff: "has_suffix s p \<longleftrightarrow> (\<exists>r. s = r @ p)"
  by (metis append_take_drop_id has_suffix_append has_suffix_def)

text \<open>
  \<open>strings.TrimSpace\<close> removes Unicode white space at both ends. \<open>spaces\<close> lists the UTF-8
  encodings of the white-space code points: the six ASCII ones, U+0085, U+00A0, U+1680,
  U+2000 to U+200A, U+2028, U+2029, U+202F, U+205F and U+3000.
\<close>

definition spaces :: "string list" where
  "spaces =
     [[CHR 0x09], [CHR 0x0A], [CHR 0x0B], [CHR 0x0C], [CHR 0x0D], [CHR 0x20],
      [CHR 0xC2, CHR 0x85], [CHR 0xC2, CHR 0xA0], [CHR 0xE1, CHR 0x9A, CHR 0x80],
      [CHR 0xE2, CHR 0x80, CHR 0x80], [CHR 0xE2, CHR 0x80, CHR 0x81],
      [CHR 0xE2, CHR 0x80, CHR 0x82], [CHR 0xE2, CHR 0x80, CHR 0x83],
      [CHR 0xE2, CHR 0x80, CHR 0x84], [CHR 0xE2, CHR 0x80, CHR 0x85],
      [CHR 0xE2, CHR 0x80, CHR 0x86], [CHR 0xE2, CHR 0x80, CHR 0x87],
      [CHR 0xE2, CHR 0x80, CHR 0x88], [CHR 0xE2, CHR 0x80, CHR 0x89],
      [CHR 0xE2, CHR 0x80, CHR 0x8A], [CHR 0xE2, CHR 0x80, CHR 0xA8],
      [CHR 0xE2, CHR 0x80, CHR 0xA9], [CHR 0xE2, CHR 0x80, CHR 0xAF],
      [CHR 0xE2, CHR 0x81, CHR 0x9F], [CHR 0xE3, CHR 0x80, CHR 0x80]]"

definition leading_space :: "string \<Rightarrow> string option" where
  "leading_space s = find (has_prefix s) spaces"

definition trailing_space :: "string \<Rightarrow> string option" where
  "trailing_space s = find (has_suffix s) spaces"

lemma spaces_nonempty: "w \<in> set spaces \<Longrightarrow> w \<noteq> []"
  by (auto simp: spaces_def)

lemma leading_space_Some: "leading_space s = Some w \<Longrightarrow> w \<noteq> [] \<and> has_prefix s w"
  unfolding leading_space_def
  by (metis (mono_tags, lifting) find_Some_iff nth_mem spaces_nonempty)

lemma trailing_space_Some: "trailing_space s = Some w \<Longrightarrow> w \<noteq> [] \<and> has_suffix s w"
  unfolding trailing_space_def
  by (metis (mono_tags, lifting) find_Some_iff nth_mem spaces_nonempty)

function trim_left :: "string \<Rightarrow> string" where
  "trim_left s = (case leading_space s of None \<Rightarrow> s | Some w \<Rightarrow> trim_left (drop (length w) s))"
  by pat_completeness auto
termination
proof (relation "measure length", goal_cases)
  case (2 s w)
  then have "w \<noteq> []" "has_prefix s w" using leading_space_Some by auto
  then show ?case by (auto simp: has_prefix_iff)
qed simp

function trim_right :: "string \<Rightarrow> string" where
  "trim_right s =
     (case trailing_space s of None \<Rightarrow> s | Some w \<Rightarrow> trim_right (take (length s - length w) s))"
  by pat_completeness auto
termination
proof (relation "measure length", goal_cases)
  case (2 s w)
  then have "w \<noteq> []" "has_suffix s w" using trailing_space_Some by auto
  then show ?case by (auto simp: has_suffix_iff)
qed simp

declare trim_left.simps [simp del] trim_right.simps [simp del]

definition trim_space :: "string \<Rightarrow> string" where
  "trim_space s = trim_right (trim_left s)"

lemma trim_left_id: "leading_space s = None \<Longrightarrow> trim_left s = s"
  by (simp add: trim_left.simps [of s])

lemma trim_right_id: "trailing_space s = None \<Longrightarrow> trim_right s = s"
  by (simp add: trim_right.simps [of s])

text \<open>A string that neither starts nor ends with a space byte is unchanged.\<close>

lemma trim_space_id: "leading_space s = None \<Longrightarrow> trailing_space s = None \<Longrightarrow> trim_space s = s"
  by (simp add: trim_space_def trim_left_id trim_right_id)

lemma leading_space_trim_left [simp]: "leading_space (trim_left s) = None"
  by (induction s rule: trim_left.induct)
     (subst trim_left.simps, simp split: option.split)

lemma trailing_space_trim_right [simp]: "trailing_space (trim_right s) = None"
  by (induction s rule: trim_right.induct)
     (subst trim_right.simps, simp split: option.split)

text \<open>
  Case folding of names and hashes: ASCII letters fold to lower case, and the two other code
  points that fold onto an ASCII letter, U+017F onto s and U+212A onto k, are folded as well.
\<close>

definition lower :: "char \<Rightarrow> char" where
  "lower c = (if 65 \<le> (of_char c :: nat) \<and> (of_char c :: nat) \<le> 90
              then char_of ((of_char c :: nat) + 32) else c)"

fun fold_case :: "string \<Rightarrow> string" where
  "fold_case [] = []"
| "fold_case (a # s) =
     (case s of
        b # t \<Rightarrow>
          if a = CHR 0xC5 \<and> b = CHR 0xBF then CHR ''s'' # fold_case t
          else (case t of
                  c # u \<Rightarrow> if a = CHR 0xE2 \<and> b = CHR 0x84 \<and> c = CHR 0xAA
                           then CHR ''k'' # fold_case u else lower a # fold_case s
                | [] \<Rightarrow> lower a # fold_case s)
      | [] \<Rightarrow> [lower a])"

text \<open>\<open>strings.EqualFold\<close> on the alphabet \<open>fold_case\<close> covers.\<close>

definition equal_fold :: "string \<Rightarrow> string \<Rightarrow> bool" where
  "equal_fold s t \<longleftrightarrow> fold_case s = fold_case t"

section \<open>Lists\<close>

definition take_last :: "nat \<Rightarrow> 'a list \<Rightarrow> 'a list" where
  "take_last n xs = drop (length xs - n) xs"

lemma length_take_last [simp]: "length (take_last n xs) = min n (length xs)"
  by (simp add: take_last_def)

lemma take_last_all [simp]: "length xs \<le> n \<Longrightarrow> take_last n xs = xs"
  by (simp add: take_last_def)

lemma take_last_append_long [simp]: "n \<le> length ys \<Longrightarrow> take_last n (xs @ ys) = take_last n ys"
  by (simp add: take_last_def)

lemma take_last_append_short:
  "length ys \<le> n \<Longrightarrow> take_last n (xs @ ys) = take_last (n - length ys) xs @ ys"
  by (simp add: take_last_def)

lemma append_take_last: "take (length xs - n) xs @ take_last n xs = xs"
  by (simp add: take_last_def)

lemma all_le_Suc_shift:
  "(\<forall>j\<le>Suc n. P (i + j)) \<longleftrightarrow> P i \<and> (\<forall>j\<le>n. P (Suc i + j))" (is "?L \<longleftrightarrow> ?R")
proof
  assume l: ?L
  show ?R
  proof (intro conjI allI impI)
    show "P i" using l [rule_format, of 0] by simp
    fix j assume "j \<le> n"
    then show "P (Suc i + j)" using l [rule_format, of "Suc j"] by simp
  qed
next
  assume r: ?R
  show ?L
  proof (intro allI impI)
    fix j assume "j \<le> Suc n"
    then show "P (i + j)" using r by (cases j) auto
  qed
qed

text \<open>A contiguous part of a list.\<close>

definition segment :: "nat \<Rightarrow> nat \<Rightarrow> 'a list \<Rightarrow> 'a list" where
  "segment i n xs = take n (drop i xs)"

lemma segment_append_left: "i + n \<le> length xs \<Longrightarrow> segment i n (xs @ ys) = segment i n xs"
  by (simp add: segment_def)

lemma segment_append_right: "length xs \<le> i \<Longrightarrow> segment i n (xs @ ys) = segment (i - length xs) n ys"
  by (simp add: segment_def)

lemma segment_sublist: "sublist (segment i n xs) xs"
  unfolding segment_def by (metis append_take_drop_id sublist_appendI append.assoc)

section \<open>Big-endian numbers\<close>

text \<open>\<open>binary.BigEndian\<close>: a number in \<open>k\<close> bytes, most significant first.\<close>

fun put_be :: "nat \<Rightarrow> nat \<Rightarrow> bytes" where
  "put_be 0 n = []"
| "put_be (Suc k) n = put_be k (n div 256) @ [char_of n]"

definition get_be :: "bytes \<Rightarrow> nat" where
  "get_be p = fold (\<lambda>c n. n * 256 + of_char c) p 0"

lemma length_put_be [simp]: "length (put_be k n) = k"
  by (induction k arbitrary: n) auto

lemma get_put_be: "get_be (put_be k n) = n mod 256 ^ k"
proof (induction k arbitrary: n)
  case (Suc k)
  have "get_be (put_be (Suc k) n) = get_be (put_be k (n div 256)) * 256 + n mod 256"
    by (simp add: get_be_def of_char_of take_bit_eq_mod)
  also have "\<dots> = n mod 256 ^ Suc k"
    by (simp add: Suc.IH mod_mult2_eq)
  finally show ?case .
qed (simp add: get_be_def)

end
