(* ===== verification/Go_Time.thy ===== *)
theory Go_Time
  imports Prelude "HOL-Library.Monad_Syntax"
begin

text \<open>
  The part of Go's \<open>time\<close> package the program relies on: instants and their comparison,
  \<open>Sub\<close> with its saturation at the ends of \<open>time.Duration\<close>, the calendar, and \<open>time.Parse\<close>
  for the layouts the sources name. A \<open>time.Time\<close> is its instant, in nanoseconds since the
  zero time (1 January of year 1, UTC), and the offset of its zone in seconds.
\<close>

section \<open>Instants and durations\<close>

datatype gotime = Time (instant: int) (zone: int)

definition second :: int where "second = 1000000000"
definition minute :: int where "minute = 60 * second"
definition hour :: int where "hour = 60 * minute"

definition zero_time :: gotime where "zero_time = Time 0 0"

definition is_zero :: "gotime \<Rightarrow> bool" where
  "is_zero t \<longleftrightarrow> instant t = 0"

definition before :: "gotime \<Rightarrow> gotime \<Rightarrow> bool" where
  "before t u \<longleftrightarrow> instant t < instant u"

definition after :: "gotime \<Rightarrow> gotime \<Rightarrow> bool" where
  "after t u \<longleftrightarrow> instant u < instant t"

definition time_add :: "gotime \<Rightarrow> int \<Rightarrow> gotime" where
  "time_add t d = Time (instant t + d) (zone t)"

text \<open>\<open>Sub\<close> returns the nearest \<open>time.Duration\<close> when the difference does not fit one.\<close>

definition time_sub :: "gotime \<Rightarrow> gotime \<Rightarrow> int" where
  "time_sub t u =
     (let d = instant t - instant u in
      if in_int64 d then d else if before t u then min_int64 else max_int64)"

definition unix_to_internal :: int where "unix_to_internal = 62135596800"

definition unix_time :: "gotime \<Rightarrow> int" where
  "unix_time t = instant t div second - unix_to_internal"

definition time_unix :: "int \<Rightarrow> int \<Rightarrow> gotime" where
  "time_unix sec nsec = Time (wrap64 (sec + unix_to_internal) * second + nsec) 0"

lemma instant_time_add [simp]: "instant (time_add t d) = instant t + d"
  by (simp add: time_add_def)

lemma time_sub_range [bound_intros]: "in_int64 (time_sub t u)"
  by (auto simp: time_sub_def Let_def in_int64_def min_int64_def max_int64_def)

lemma time_sub_pos_iff: "0 < time_sub t u \<longleftrightarrow> after t u"
  by (auto simp: time_sub_def Let_def in_int64_def min_int64_def max_int64_def after_def before_def)

lemma time_sub_neg_iff: "time_sub t u < 0 \<longleftrightarrow> before t u"
  by (auto simp: time_sub_def Let_def in_int64_def min_int64_def max_int64_def before_def)

lemma time_sub_mono: "instant t \<le> instant t' \<Longrightarrow> time_sub t u \<le> time_sub t' u"
  by (auto simp: time_sub_def Let_def in_int64_def min_int64_def max_int64_def before_def)

lemma time_sub_exact: "in_int64 (instant t - instant u) \<Longrightarrow> time_sub t u = instant t - instant u"
  by (simp add: time_sub_def)

section \<open>The calendar\<close>

definition leap :: "int \<Rightarrow> bool" where
  "leap y \<longleftrightarrow> y mod 4 = 0 \<and> (y mod 100 \<noteq> 0 \<or> y mod 400 = 0)"

definition days_in :: "int \<Rightarrow> int \<Rightarrow> int" where
  "days_in m y =
     (if m = 2 then (if leap y then 29 else 28)
      else if m = 4 \<or> m = 6 \<or> m = 9 \<or> m = 11 then 30 else 31)"

text \<open>Days from 1 January of year 1 to 1 January of year \<open>y\<close>.\<close>

definition days_before_year :: "int \<Rightarrow> int" where
  "days_before_year y = 365 * (y - 1) + (y - 1) div 4 - (y - 1) div 100 + (y - 1) div 400"

definition days_before_month :: "int \<Rightarrow> int \<Rightarrow> int" where
  "days_before_month m y = sum_list (map (\<lambda>i. days_in i y) [1 .. m - 1])"

definition date_instant ::
  "int \<Rightarrow> int \<Rightarrow> int \<Rightarrow> int \<Rightarrow> int \<Rightarrow> int \<Rightarrow> int \<Rightarrow> int" where
  "date_instant y mo d h mi s ns =
     (((days_before_year y + days_before_month mo y + (d - 1)) * 24 + h) * 60 + mi) * minute
     + s * second + ns"

definition valid_date :: "int \<Rightarrow> int \<Rightarrow> int \<Rightarrow> bool" where
  "valid_date y mo d \<longleftrightarrow> 1 \<le> mo \<and> mo \<le> 12 \<and> 1 \<le> d \<and> d \<le> days_in mo y"

definition valid_clock :: "int \<Rightarrow> int \<Rightarrow> int \<Rightarrow> bool" where
  "valid_clock h mi s \<longleftrightarrow> 0 \<le> h \<and> h < 24 \<and> 0 \<le> mi \<and> mi < 60 \<and> 0 \<le> s \<and> s < 60"

text \<open>
  \<open>time.Time.MarshalJSON\<close> refuses a time whose year, in its own zone, is not in [0, 9999] and
  a zone of 24 hours or more.
\<close>

definition marshalable :: "gotime \<Rightarrow> bool" where
  "marshalable t \<longleftrightarrow>
     (let local = instant t + zone t * second in
      date_instant 0 1 1 0 0 0 0 \<le> local \<and> local < date_instant 10000 1 1 0 0 0 0
      \<and> \<bar>zone t\<bar> < 24 * 3600)"

section \<open>Parsing\<close>

text \<open>
  \<open>time.Parse\<close> works through the chunks of a layout. \<open>getnum\<close> reads two digits, or one when
  the layout does not fix the width (the hour \<open>15\<close> does not).
\<close>

definition getnum :: "bool \<Rightarrow> string \<Rightarrow> (int \<times> string) option" where
  "getnum fixed s =
     (case s of
        [] \<Rightarrow> None
      | a # t \<Rightarrow>
          if \<not> is_digit a then None
          else (case t of
                  b # u \<Rightarrow> if is_digit b then Some (num_of [a, b], u)
                           else if fixed then None else Some (digit_val a, t)
                | [] \<Rightarrow> if fixed then None else Some (digit_val a, t)))"

definition get_year :: "string \<Rightarrow> (int \<times> string) option" where
  "get_year s =
     (if 4 \<le> length s \<and> list_all is_digit (take 4 s)
      then Some (num_of (take 4 s), drop 4 s) else None)"

definition skip :: "char \<Rightarrow> string \<Rightarrow> string option" where
  "skip c s = (case s of [] \<Rightarrow> None | a # t \<Rightarrow> if a = c then Some t else None)"

text \<open>
  A fraction after the seconds is read whether or not the layout has one, at any number of
  digits, of which nine count.
\<close>

definition nanos :: "string \<Rightarrow> int" where
  "nanos ds = num_of (take 9 ds) * 10 ^ (9 - length (take 9 ds))"

definition get_frac :: "string \<Rightarrow> int \<times> string" where
  "get_frac s =
     (case s of
        a # b # t \<Rightarrow>
          if (a = CHR ''.'' \<or> a = CHR '','') \<and> is_digit b
          then (nanos (takeWhile is_digit (b # t)), dropWhile is_digit (b # t)) else (0, s)
      | _ \<Rightarrow> (0, s))"

datatype zone_style = ISO8601ColonTZ | NumTZ

text \<open>The offset in seconds; 24 hours and 60 minutes are accepted, as the package does.\<close>

definition zone_offset :: "char \<Rightarrow> string \<Rightarrow> string \<Rightarrow> int option" where
  "zone_offset sg hh mm =
     (if list_all is_digit hh \<and> list_all is_digit mm \<and> num_of hh \<le> 24 \<and> num_of mm \<le> 60
      then let off = (num_of hh * 60 + num_of mm) * 60 in
           if sg = CHR ''+'' then Some off else if sg = CHR ''-'' then Some (- off) else None
      else None)"

definition get_zone :: "zone_style \<Rightarrow> string \<Rightarrow> (int \<times> string) option" where
  "get_zone st s =
     (if st = ISO8601ColonTZ \<and> s \<noteq> [] \<and> hd s = CHR ''Z'' then Some (0, tl s)
      else case st of
        ISO8601ColonTZ \<Rightarrow>
          (if 6 \<le> length s \<and> s ! 3 = CHR '':''
           then map_option (\<lambda>off. (off, drop 6 s))
                  (zone_offset (hd s) (take 2 (drop 1 s)) (take 2 (drop 4 s)))
           else None)
      | NumTZ \<Rightarrow>
          (if 5 \<le> length s
           then map_option (\<lambda>off. (off, drop 5 s))
                  (zone_offset (hd s) (take 2 (drop 1 s)) (take 2 (drop 3 s)))
           else None))"

definition mk_time ::
  "int \<Rightarrow> int \<Rightarrow> int \<Rightarrow> int \<Rightarrow> int \<Rightarrow> int \<Rightarrow> int \<Rightarrow> int \<Rightarrow> gotime option" where
  "mk_time y mo d h mi s ns off =
     (if valid_date y mo d \<and> valid_clock h mi s
      then Some (Time (date_instant y mo d h mi s ns - off * second) off) else None)"

text \<open>\<open>2006-01-02T15:04:05\<close>, an optional fraction, and a zone in one of the two styles.\<close>

definition parse_datetime :: "zone_style \<Rightarrow> string \<Rightarrow> gotime option" where
  "parse_datetime st s0 = do {
     (y, s1) \<leftarrow> get_year s0;
     s2 \<leftarrow> skip (CHR ''-'') s1;
     (mo, s3) \<leftarrow> getnum True s2;
     s4 \<leftarrow> skip (CHR ''-'') s3;
     (d, s5) \<leftarrow> getnum True s4;
     s6 \<leftarrow> skip (CHR ''T'') s5;
     (h, s7) \<leftarrow> getnum False s6;
     s8 \<leftarrow> skip (CHR '':'') s7;
     (mi, s9) \<leftarrow> getnum True s8;
     s10 \<leftarrow> skip (CHR '':'') s9;
     (sec, s11) \<leftarrow> getnum True s10;
     (off, s13) \<leftarrow> get_zone st (snd (get_frac s11));
     (if s13 = [] then mk_time y mo d h mi sec (fst (get_frac s11)) off else None)
   }"

lemma digits_bound2: "is_digit a \<Longrightarrow> is_digit b \<Longrightarrow> 0 \<le> num_of [a, b] \<and> num_of [a, b] \<le> 99"
  using digit_val_bounds [of a] digit_val_bounds [of b] by simp

lemma skip_Cons [simp]: "skip c (a # s) = (if a = c then Some s else None)"
  by (simp add: skip_def)

lemma getnum_two [simp]: "is_digit a \<Longrightarrow> is_digit b \<Longrightarrow> getnum f (a # b # s) = Some (num_of [a, b], s)"
  by (simp add: getnum_def)

text \<open>A parsed time lies in the years 0 to 9999 up to the width of its zone.\<close>

lemma mk_time_zone: "mk_time y mo d h mi s ns off = Some t \<Longrightarrow> zone t = off"
  by (auto simp: mk_time_def split: if_splits)

lemma zone_offset_bound:
  assumes "zone_offset sg hh mm = Some off" shows "\<bar>off\<bar> \<le> 25 * 3600"
proof -
  have "0 \<le> num_of hh" "0 \<le> num_of mm" "num_of hh \<le> 24" "num_of mm \<le> 60"
    using assms num_acc_nonneg [of 0] by (auto simp: zone_offset_def split: if_splits)
  then show ?thesis
    using assms by (auto simp: zone_offset_def Let_def split: if_splits)
qed

end
