(* ===== verification/Json.thy ===== *)
theory Json
  imports Prelude
begin

text \<open>
  \<open>encoding/json\<close> as the program uses it: a document is a tree, and decoding a tree into a
  struct goes member by member. A member's key selects the field of the same name, or of the
  same name up to case; a key of no field is skipped, or is an error under
  \<open>DisallowUnknownFields\<close>; \<open>null\<close> leaves a field that is not a pointer as it is; a value of the
  wrong type is an error; a later member overwrites an earlier one.

  The text of a document is read by a parameter of the model, \<open>read_json\<close>: the tree of the first
  value in the bytes, or \<open>None\<close> for a syntax error. A number is kept as its literal.
\<close>

datatype json =
    JNull
  | JBool bool
  | JNum string
  | JStr string
  | JArr "json list"
  | JObj "(string \<times> json) list"

datatype json_error = UnknownField string | WrongType string

text \<open>A field of a struct: its name and how a value is stored in it (\<open>None\<close>: wrong type).\<close>

type_synonym 'r field = "string \<times> (json \<Rightarrow> 'r \<Rightarrow> 'r option)"

definition find_field :: "'r field list \<Rightarrow> string \<Rightarrow> 'r field option" where
  "find_field fs k =
     (case find (\<lambda>f. fst f = k) fs of
        Some f \<Rightarrow> Some f
      | None \<Rightarrow> find (\<lambda>f. fold_case (fst f) = fold_case k) fs)"

fun decode_members ::
  "bool \<Rightarrow> 'r field list \<Rightarrow> (string \<times> json) list \<Rightarrow> 'r \<Rightarrow> json_error + 'r" where
  "decode_members strict fs [] r = Inr r"
| "decode_members strict fs ((k, v) # ms) r =
     (case find_field fs k of
        None \<Rightarrow> if strict then Inl (UnknownField k) else decode_members strict fs ms r
      | Some f \<Rightarrow>
          (case snd f v r of
             None \<Rightarrow> Inl (WrongType k)
           | Some r' \<Rightarrow> decode_members strict fs ms r'))"

definition decode_struct ::
  "bool \<Rightarrow> 'r field list \<Rightarrow> json \<Rightarrow> 'r \<Rightarrow> json_error + 'r" where
  "decode_struct strict fs j r =
     (case j of
        JNull \<Rightarrow> Inr r
      | JObj ms \<Rightarrow> decode_members strict fs ms r
      | _ \<Rightarrow> Inl (WrongType []))"

definition set_string :: "(string \<Rightarrow> 'r \<Rightarrow> 'r) \<Rightarrow> json \<Rightarrow> 'r \<Rightarrow> 'r option" where
  "set_string upd v r =
     (case v of JStr s \<Rightarrow> Some (upd s r) | JNull \<Rightarrow> Some r | _ \<Rightarrow> None)"

definition set_bool :: "(bool \<Rightarrow> 'r \<Rightarrow> 'r) \<Rightarrow> json \<Rightarrow> 'r \<Rightarrow> 'r option" where
  "set_bool upd v r =
     (case v of JBool b \<Rightarrow> Some (upd b r) | JNull \<Rightarrow> Some r | _ \<Rightarrow> None)"

text \<open>An \<open>int\<close> literal: an optional minus sign and digits, within 64 bits.\<close>

definition int_literal :: "string \<Rightarrow> int option" where
  "int_literal s =
     (let neg = (take 1 s = ''-''); ds = (if neg then drop 1 s else s);
          n = (if neg then - num_of ds else num_of ds) in
      if ds \<noteq> [] \<and> list_all is_digit ds \<and> in_int64 n then Some n else None)"

text \<open>A pointer to an int: \<open>null\<close> stores the nil pointer.\<close>

definition set_int_ptr :: "(int option \<Rightarrow> 'r \<Rightarrow> 'r) \<Rightarrow> json \<Rightarrow> 'r \<Rightarrow> 'r option" where
  "set_int_ptr upd v r =
     (case v of
        JNull \<Rightarrow> Some (upd None r)
      | JNum s \<Rightarrow> (case int_literal s of None \<Rightarrow> None | Some n \<Rightarrow> Some (upd (Some n) r))
      | _ \<Rightarrow> None)"

section \<open>Lemmas\<close>

lemma find_field_exact:
  "find (\<lambda>f. fst f = k) fs = Some f \<Longrightarrow> find_field fs k = Some f"
  by (simp add: find_field_def)

lemma find_field_mem: "find_field fs k = Some f \<Longrightarrow> f \<in> set fs"
  by (auto simp: find_field_def find_Some_iff split: option.splits)

lemma find_field_None: "find_field fs k = None \<longleftrightarrow> (\<forall>f\<in>set fs. fold_case (fst f) \<noteq> fold_case k)"
proof (cases "find (\<lambda>f. fst f = k) fs")
  case None
  then have "find_field fs k = find (\<lambda>f. fold_case (fst f) = fold_case k) fs"
    by (simp add: find_field_def)
  then show ?thesis by (auto simp: find_None_iff)
next
  case (Some f)
  then have "f \<in> set fs" "fst f = k" by (auto simp: find_Some_iff)
  with Some show ?thesis by (auto simp: find_field_def)
qed

lemma decode_members_append:
  "decode_members strict fs (ms @ ns) r =
     (case decode_members strict fs ms r of Inl e \<Rightarrow> Inl e | Inr r' \<Rightarrow> decode_members strict fs ns r')"
  by (induction strict fs ms r rule: decode_members.induct) (auto split: option.splits)

text \<open>A strict decoder accepts known keys only.\<close>

lemma decode_members_strict:
  "decode_members True fs ms r = Inr r' \<Longrightarrow> (k, v) \<in> set ms \<Longrightarrow> find_field fs k \<noteq> None"
proof (induction ms arbitrary: r)
  case (Cons m ms)
  then show ?case by (cases m) (auto split: option.splits)
qed simp

end
