(* ===== verification/Atomicfile.thy ===== *)
theory Atomicfile
  imports Prelude
begin

text \<open>
  \<^verbatim>\<open>src/internal/atomicfile/write.go\<close>: replacing a file through a temporary file and a rename.

  A directory maps names to contents. \<open>Write\<close> runs its system calls in order; which of them fails
  is a parameter \<open>disk\<close>, and the result carries, besides whether an error is returned, the
  sequence of states the directory goes through, so that a crash at any point is one of them.
\<close>

section \<open>Operations\<close>

type_synonym 'c dir = "string \<rightharpoonup> 'c"

datatype stage = CreateTemp | WriteData | Chmod | SyncData | CloseTemp | Rename | OpenDir | SyncDir

definition write_stages :: "stage list" where
  "write_stages = [CreateTemp, WriteData, Chmod, SyncData, CloseTemp, Rename, OpenDir, SyncDir]"

text \<open>
  What a stage does to the directory when it succeeds. \<open>blank\<close> is the content of a file just
  created.
\<close>

fun stage_done :: "string \<Rightarrow> string \<Rightarrow> 'c \<Rightarrow> 'c \<Rightarrow> stage \<Rightarrow> 'c dir \<Rightarrow> 'c dir" where
  "stage_done path tmp blank data CreateTemp d = d(tmp \<mapsto> blank)"
| "stage_done path tmp blank data WriteData d = d(tmp \<mapsto> data)"
| "stage_done path tmp blank data Rename d = (d(path := d tmp))(tmp := None)"
| "stage_done path tmp blank data _ d = d"

text \<open>A failed write may have written something, \<open>torn\<close>, into the temporary file.\<close>

fun stage_failed :: "string \<Rightarrow> 'c \<Rightarrow> stage \<Rightarrow> 'c dir \<Rightarrow> 'c dir" where
  "stage_failed tmp torn WriteData d = d(tmp \<mapsto> torn)"
| "stage_failed tmp torn _ d = d"

text \<open>Every failure after the temporary file exists runs the deferred \<open>os.Remove\<close>.\<close>

fun run_stages ::
  "(stage \<Rightarrow> bool) \<Rightarrow> string \<Rightarrow> string \<Rightarrow> 'c \<Rightarrow> 'c \<Rightarrow> 'c \<Rightarrow> stage list \<Rightarrow> 'c dir
   \<Rightarrow> bool \<times> 'c dir list" where
  "run_stages disk path tmp blank torn data [] d = (False, [d, d(tmp := None)])"
| "run_stages disk path tmp blank torn data (st # sts) d =
     (if disk st then
        (let d' = stage_failed tmp torn st d in
         (True, if st = CreateTemp then [d, d'] else [d, d', d'(tmp := None)]))
      else
        (case run_stages disk path tmp blank torn data sts (stage_done path tmp blank data st d) of
           (err, ds) \<Rightarrow> (err, d # ds)))"

definition Write ::
  "(stage \<Rightarrow> bool) \<Rightarrow> 'c \<Rightarrow> 'c \<Rightarrow> string \<Rightarrow> string \<Rightarrow> 'c \<Rightarrow> 'c dir \<Rightarrow> bool \<times> 'c dir list" where
  "Write disk blank torn path tmp data d =
     run_stages disk path tmp blank torn data write_stages d"

section \<open>Atomicity\<close>

text \<open>Whether the failing stage comes before the target is replaced.\<close>

definition fails_early :: "(stage \<Rightarrow> bool) \<Rightarrow> bool" where
  "fails_early disk \<longleftrightarrow>
     disk CreateTemp \<or> disk WriteData \<or> disk Chmod \<or> disk SyncData \<or> disk CloseTemp \<or> disk Rename"

definition fails :: "(stage \<Rightarrow> bool) \<Rightarrow> bool" where
  "fails disk \<longleftrightarrow> fails_early disk \<or> disk OpenDir \<or> disk SyncDir"

lemma Write_error: "fst (Write disk blank torn path tmp data d) = fails disk"
  by (simp add: Write_def write_stages_def fails_def fails_early_def Let_def split: prod.splits)

lemma Write_states_nonempty: "snd (Write disk blank torn path tmp data d) \<noteq> []"
  by (simp add: Write_def write_stages_def Let_def split: prod.splits)

text \<open>C23: at every point of a write, a crash included, the target holds its old content or the new
  one in full, and no other file of the directory but the temporary one has changed.\<close>

theorem Write_atomic:
  assumes "tmp \<noteq> path" and "s \<in> set (snd (Write disk blank torn path tmp data d))"
  shows "(s path = d path \<or> s path = Some data) \<and> (p \<notin> {path, tmp} \<longrightarrow> s p = d p)"
  using assms
  by (auto simp: Write_def write_stages_def Let_def split: if_splits)

lemma Write_final:
  assumes "tmp \<noteq> path" and "d tmp = None"
  shows "last (snd (Write disk blank torn path tmp data d)) =
           (if fails_early disk then d else d(path \<mapsto> data))
         \<and> fst (Write disk blank torn path tmp data d) = fails disk"
proof -
  have "last (snd (Write disk blank torn path tmp data d)) =
           (if fails_early disk then d else d(path \<mapsto> data))"
    using assms
    by (auto simp: Write_def write_stages_def Let_def fails_early_def fun_eq_iff)
  then show ?thesis by (simp add: Write_error)
qed

text \<open>When the write ends, the temporary file is gone, and the target holds the new content unless a stage up
  to the rename failed, in which case it is untouched. So an error of the last two stages, the
  directory sync, is reported although the new content is in place.\<close>

theorem Write_result:
  assumes "tmp \<noteq> path" and "d tmp = None"
  shows "last (snd (Write disk blank torn path tmp data d)) =
           (if fails_early disk then d else d(path \<mapsto> data))
         \<and> fst (Write disk blank torn path tmp data d) = fails disk"
  using assms by (rule Write_final)

section \<open>A file as a document\<close>

text \<open>
  What the stores see of a file: it is absent, or holds no bytes, or bytes that do not decode,
  or the encoding of a value.
\<close>

datatype 'a doc = Blank | Junk | Doc 'a

definition target :: string where "target = ''target''"
definition scratch :: string where "scratch = ''target.tmp''"

text \<open>\<open>atomicfile.Write\<close> seen from its target alone.\<close>

definition replace_content :: "'c \<Rightarrow> 'c \<Rightarrow> (stage \<Rightarrow> bool) \<Rightarrow> 'c \<Rightarrow> 'c option \<Rightarrow> bool \<times> 'c option" where
  "replace_content blank torn disk data old =
     (case Write disk blank torn target scratch data ((\<lambda>_. None)(target := old)) of
        (err, ds) \<Rightarrow> (err, last ds target))"

definition replace_file :: "(stage \<Rightarrow> bool) \<Rightarrow> 'a \<Rightarrow> 'a doc option \<Rightarrow> bool \<times> 'a doc option" where
  "replace_file disk v old = replace_content Blank Junk disk (Doc v) old"

lemma replace_content_eq:
  "replace_content blank torn disk data old = (fails disk, if fails_early disk then old else Some data)"
proof -
  let ?d = "(\<lambda>_. None)(target := old)"
  have "scratch \<noteq> target" "?d scratch = None" by (auto simp: scratch_def target_def)
  with Write_final [of scratch target ?d disk blank torn data] show ?thesis
    by (auto simp: replace_content_def split: prod.splits)
qed

lemma replace_file_eq:
  "replace_file disk v old = (fails disk, if fails_early disk then old else Some (Doc v))"
  by (simp add: replace_file_def replace_content_eq)

text \<open>
  A store that keeps one value in a file, rewritten whole on every save: \<open>encoding/json\<close> can
  refuse a value (\<open>encodable\<close>), and a file that is absent or empty reads as \<open>zero\<close>.
\<close>

datatype store_error = ReadError | ParseError | MarshalError | WriteError

definition load_file :: "'a \<Rightarrow> bool \<Rightarrow> 'a doc option \<Rightarrow> store_error + 'a" where
  "load_file zero unreadable file =
     (if unreadable then Inl ReadError
      else case file of
        None \<Rightarrow> Inr zero
      | Some Blank \<Rightarrow> Inr zero
      | Some Junk \<Rightarrow> Inl ParseError
      | Some (Doc v) \<Rightarrow> Inr v)"

definition save_file ::
  "('a \<Rightarrow> bool) \<Rightarrow> (stage \<Rightarrow> bool) \<Rightarrow> 'a \<Rightarrow> 'a doc option \<Rightarrow> store_error option \<times> 'a doc option" where
  "save_file encodable disk v file =
     (if \<not> encodable v then (Some MarshalError, file)
      else case replace_file disk v file of
             (err, file') \<Rightarrow> (if err then Some WriteError else None, file'))"

lemma save_file_cases:
  "save_file encodable disk v file =
     (if \<not> encodable v then (Some MarshalError, file)
      else (if fails disk then Some WriteError else None,
            if fails_early disk then file else Some (Doc v)))"
  by (simp add: save_file_def replace_file_eq)

text \<open>A history of saves, each under its own fate of the disk.\<close>

fun save_all :: "('d \<Rightarrow> 'a \<Rightarrow> 'f \<Rightarrow> 'x \<times> 'f) \<Rightarrow> ('d \<times> 'a) list \<Rightarrow> 'f \<Rightarrow> 'f" where
  "save_all save [] f = f"
| "save_all save ((d, v) # h) f = save_all save h (snd (save d v f))"

lemma save_all_append: "save_all save (h @ h') f = save_all save h' (save_all save h f)"
  by (induction save h f rule: save_all.induct) auto

text \<open>
  The contract a client of such a store relies on: a save that reports success is what the next
  load returns, and one that reports an error leaves the old value or the new one, never a third.
\<close>

locale document_store =
  fixes load :: "'f \<Rightarrow> 'e + 'a"
    and save :: "'d \<Rightarrow> 'a \<Rightarrow> 'f \<Rightarrow> 'x option \<times> 'f"
  assumes save_ok: "save d v f = (None, f') \<Longrightarrow> load f' = Inr v"
    and save_error: "save d v f = (Some x, f') \<Longrightarrow> load f' = load f \<or> load f' = Inr v"
begin

lemma load_after_save: "load (snd (save d v f)) = load f \<or> load (snd (save d v f)) = Inr v"
  by (cases "save d v f"; cases "fst (save d v f)") (auto dest: save_ok save_error)

lemma saves_no_invention: "load (save_all save h f) = load f \<or> (\<exists>v \<in> snd ` set h. load (save_all save h f) = Inr v)"
proof (induction h arbitrary: f)
  case (Cons dv h)
  obtain d v where "dv = (d, v)" by (cases dv)
  with Cons.IH [of "snd (save d v f)"] load_after_save [of d v f] show ?case by auto
qed simp

lemma last_save_wins:
  "fst (save d v (save_all save h f)) = None \<Longrightarrow> load (save_all save (h @ [(d, v)]) f) = Inr v"
  by (cases "save d v (save_all save h f)") (auto simp: save_all_append dest: save_ok)

end

lemma save_file_laws:
  "save_file encodable d v f = (None, f') \<Longrightarrow> load_file zero False f' = Inr v"
  "save_file encodable d v f = (Some x, f') \<Longrightarrow>
     load_file zero False f' = load_file zero False f \<or> load_file zero False f' = Inr v"
  by (auto simp: save_file_cases load_file_def fails_def split: if_splits)

section \<open>Concrete instances\<close>

theorem Write_atomic_witness:
  "\<exists>s. s \<in> set (snd (Write (\<lambda>st. st = SyncDir) [] ''ne'' ''scores.json'' ''.tmp'' ''new'' [''scores.json'' \<mapsto> ''old'', ''x'' \<mapsto> ''y'']))
     \<and> (s ''scores.json'' = Some ''old'' \<or> s ''scores.json'' = Some ''new'') \<and> s ''x'' = Some ''y''"
proof -
  let ?d = "[''scores.json'' \<mapsto> ''old'', ''x'' \<mapsto> ''y'']"
  have "last (snd (Write (\<lambda>st. st = SyncDir) [] ''ne'' ''scores.json'' ''.tmp'' ''new'' ?d))
      \<in> set (snd (Write (\<lambda>st. st = SyncDir) [] ''ne'' ''scores.json'' ''.tmp'' ''new'' ?d))" (is "?s \<in> _")
    by (rule last_in_set [OF Write_states_nonempty])
  with Write_atomic [OF _ this, of "''x''"] show ?thesis by (intro exI [of _ ?s]) simp
qed

end
