(* ===== verification/Exercise.thy ===== *)
theory Exercise
  imports Go_Time Json Atomicfile
begin

text \<open>
  \<^verbatim>\<open>src/exercise\<close>: the configuration of an exercise (\<^verbatim>\<open>config.go\<close>), the file it is kept in
  (\<^verbatim>\<open>store.go\<close>) and the handler that reads and replaces it (\<^verbatim>\<open>http.go\<close>).
\<close>

section \<open>Configuration\<close>

record config =
  AnnouncedAt :: gotime
  DeadlineAt :: gotime
  InvestigationWindowStart :: gotime
  InvestigationWindowEnd :: gotime
  ExpectedGenesisSHA256 :: string
  SupportedGnolandVersions :: "string list"
  Observations :: string

definition zero_config :: config where
  "zero_config =
     \<lparr>AnnouncedAt = zero_time, DeadlineAt = zero_time, InvestigationWindowStart = zero_time,
      InvestigationWindowEnd = zero_time, ExpectedGenesisSHA256 = [],
      SupportedGnolandVersions = [], Observations = []\<rparr>"

definition Configured :: "config \<Rightarrow> bool" where
  "Configured c \<longleftrightarrow> \<not> is_zero (AnnouncedAt c) \<or> \<not> is_zero (DeadlineAt c)"

datatype config_error =
  DeadlineNotAfterAnnounce | WindowEndNotAfterStart | GenesisRequired | VersionsRequired

definition Validate :: "config \<Rightarrow> config_error option" where
  "Validate c =
     (if \<not> after (DeadlineAt c) (AnnouncedAt c) then Some DeadlineNotAfterAnnounce
      else if \<not> after (InvestigationWindowEnd c) (InvestigationWindowStart c)
      then Some WindowEndNotAfterStart
      else if trim_space (ExpectedGenesisSHA256 c) = [] then Some GenesisRequired
      else if length (SupportedGnolandVersions c) = 0 then Some VersionsRequired
      else None)"

section \<open>Store\<close>

type_synonym config_file = "config doc option"

definition config_encodable :: "config \<Rightarrow> bool" where
  "config_encodable c \<longleftrightarrow>
     marshalable (AnnouncedAt c) \<and> marshalable (DeadlineAt c)
     \<and> marshalable (InvestigationWindowStart c) \<and> marshalable (InvestigationWindowEnd c)"

definition FileStore_Get :: "bool \<Rightarrow> config_file \<Rightarrow> store_error + config" where
  "FileStore_Get unreadable file = load_file zero_config unreadable file"

datatype set_error = InvalidConfig config_error | StoreFailed store_error

definition FileStore_Set ::
  "(stage \<Rightarrow> bool) \<Rightarrow> config \<Rightarrow> config_file \<Rightarrow> set_error option \<times> config_file" where
  "FileStore_Set disk cfg file =
     (case Validate cfg of
        Some e \<Rightarrow> (Some (InvalidConfig e), file)
      | None \<Rightarrow>
          (case save_file config_encodable disk cfg file of
             (err, file') \<Rightarrow> (map_option StoreFailed err, file')))"

section \<open>Handler\<close>

definition set_time :: "(gotime \<Rightarrow> 'r \<Rightarrow> 'r) \<Rightarrow> json \<Rightarrow> 'r \<Rightarrow> 'r option" where
  "set_time upd v r =
     (case v of
        JStr s \<Rightarrow> map_option (\<lambda>t. upd t r) (parse_datetime ISO8601ColonTZ s)
      | JNull \<Rightarrow> Some r
      | _ \<Rightarrow> None)"

text \<open>A slice of strings; an element \<open>null\<close> keeps what the slice held at that place.\<close>

fun decode_strings :: "string list \<Rightarrow> json list \<Rightarrow> string list option" where
  "decode_strings old [] = Some []"
| "decode_strings old (j # js) =
     (case j of
        JStr s \<Rightarrow> map_option ((#) s) (decode_strings (drop 1 old) js)
      | JNull \<Rightarrow> map_option ((#) (if old = [] then [] else hd old)) (decode_strings (drop 1 old) js)
      | _ \<Rightarrow> None)"

definition set_strings ::
  "('r \<Rightarrow> string list) \<Rightarrow> (string list \<Rightarrow> 'r \<Rightarrow> 'r) \<Rightarrow> json \<Rightarrow> 'r \<Rightarrow> 'r option" where
  "set_strings get upd v r =
     (case v of
        JArr js \<Rightarrow> map_option (\<lambda>ss. upd ss r) (decode_strings (get r) js)
      | JNull \<Rightarrow> Some (upd [] r)
      | _ \<Rightarrow> None)"

definition config_fields :: "config field list" where
  "config_fields =
     [(''announced_at'', set_time (\<lambda>t c. c\<lparr>AnnouncedAt := t\<rparr>)),
      (''deadline_at'', set_time (\<lambda>t c. c\<lparr>DeadlineAt := t\<rparr>)),
      (''investigation_window_start'', set_time (\<lambda>t c. c\<lparr>InvestigationWindowStart := t\<rparr>)),
      (''investigation_window_end'', set_time (\<lambda>t c. c\<lparr>InvestigationWindowEnd := t\<rparr>)),
      (''expected_genesis_sha256'', set_string (\<lambda>s c. c\<lparr>ExpectedGenesisSHA256 := s\<rparr>)),
      (''supported_gnoland_versions'',
        set_strings SupportedGnolandVersions (\<lambda>ss c. c\<lparr>SupportedGnolandVersions := ss\<rparr>)),
      (''observations'', set_string (\<lambda>s c. c\<lparr>Observations := s\<rparr>))]"

text \<open>
  A request as the handlers see it: the media type is what \<open>mime.ParseMediaType\<close> makes of the
  \<^verbatim>\<open>Content-Type\<close> header (\<open>None\<close>: an error), the body is what \<open>json.Decoder\<close> reads first from
  it (\<open>None\<close>: a syntax error).
\<close>

record json_request =
  rq_method :: string
  rq_media :: "string option"
  rq_json :: "json option"

definition requireJSONContentType :: "json_request \<Rightarrow> bool" where
  "requireJSONContentType r \<longleftrightarrow> rq_media r = Some ''application/json''"

text \<open>The status and, on success, the configuration in the response.\<close>

definition ConfigHandler ::
  "bool \<Rightarrow> (stage \<Rightarrow> bool) \<Rightarrow> json_request \<Rightarrow> config_file \<Rightarrow> (nat \<times> config option) \<times> config_file" where
  "ConfigHandler unreadable disk r file =
     (if rq_method r = ''GET'' then
        (case FileStore_Get unreadable file of
           Inl _ \<Rightarrow> ((500, None), file)
         | Inr cfg \<Rightarrow> ((200, Some cfg), file))
      else if rq_method r = ''POST'' then
        (if \<not> requireJSONContentType r then ((415, None), file)
         else case rq_json r of
           None \<Rightarrow> ((400, None), file)
         | Some j \<Rightarrow>
             (case decode_struct True config_fields j zero_config of
                Inl _ \<Rightarrow> ((400, None), file)
              | Inr cfg \<Rightarrow>
                  (case FileStore_Set disk cfg file of
                     (Some (InvalidConfig _), file') \<Rightarrow> ((400, None), file')
                   | (Some (StoreFailed _), file') \<Rightarrow> ((500, None), file')
                   | (None, file') \<Rightarrow> ((200, Some cfg), file'))))
      else ((405, None), file))"

section \<open>Properties\<close>

lemma Validate_None_iff:
  "Validate c = None \<longleftrightarrow>
     instant (AnnouncedAt c) < instant (DeadlineAt c)
     \<and> instant (InvestigationWindowStart c) < instant (InvestigationWindowEnd c)
     \<and> trim_space (ExpectedGenesisSHA256 c) \<noteq> [] \<and> SupportedGnolandVersions c \<noteq> []"
  by (simp add: Validate_def after_def)

lemma Validate_Configured: "Validate c = None \<Longrightarrow> Configured c"
  by (auto simp: Validate_None_iff Configured_def is_zero_def)

lemma not_Configured_zero [simp]: "\<not> Configured zero_config"
  by (simp add: Configured_def zero_config_def zero_time_def is_zero_def)

text \<open>The file never holds a configuration that does not validate.\<close>

definition config_file_ok :: "config_file \<Rightarrow> bool" where
  "config_file_ok file \<longleftrightarrow> (case file of Some (Doc c) \<Rightarrow> Validate c = None | _ \<Rightarrow> True)"

lemma FileStore_Set_inv: "config_file_ok file \<Longrightarrow> config_file_ok (snd (FileStore_Set disk cfg file))"
  by (auto simp: FileStore_Set_def save_file_cases config_file_ok_def split: option.splits)

lemma FileStore_Set_ok:
  "FileStore_Set disk cfg file = (None, file') \<Longrightarrow>
     Validate cfg = None \<and> FileStore_Get False file' = Inr cfg"
  by (auto simp: FileStore_Set_def FileStore_Get_def save_file_laws split: option.splits prod.splits)

lemma FileStore_Set_error:
  "FileStore_Set disk cfg file = (Some e, file') \<Longrightarrow>
     FileStore_Get False file' = FileStore_Get False file \<or> FileStore_Get False file' = Inr cfg"
  by (auto simp: FileStore_Set_def FileStore_Get_def split: option.splits prod.splits
      dest: save_file_laws(2) [where zero = zero_config])

interpretation cfg_file: document_store "FileStore_Get False" FileStore_Set
  by unfold_locales (auto dest: FileStore_Set_ok FileStore_Set_error)

lemma saves_config_file_ok: "config_file_ok f \<Longrightarrow> config_file_ok (save_all FileStore_Set h f)"
proof (induction h arbitrary: f)
  case (Cons dv h)
  then show ?case by (cases dv) (simp add: FileStore_Set_inv)
qed simp

text \<open>Whatever sequence of saves the configuration file goes through, with whatever disk faults, it
  keeps a validated configuration: what \<open>Get\<close> returns afterwards is what it returned before or one of the
  configurations saved, and every one it can return is either the zero one or valid.\<close>

theorem config_history:
  assumes "config_file_ok file"
  shows "config_file_ok (save_all FileStore_Set h file)
       \<and> (FileStore_Get False (save_all FileStore_Set h file) = FileStore_Get False file
          \<or> (\<exists>cfg \<in> snd ` set h. FileStore_Get False (save_all FileStore_Set h file) = Inr cfg))"
  using saves_config_file_ok [OF assms] cfg_file.saves_no_invention [of h "file"] by blast

lemma ConfigHandler_file:
  "snd (ConfigHandler bad disk r cf) = cf \<or> (\<exists>cfg. snd (ConfigHandler bad disk r cf) = snd (FileStore_Set disk cfg cf))"
proof (cases "\<exists>j cfg. rq_json r = Some j \<and> decode_struct True config_fields j zero_config = Inr cfg")
  case True
  then obtain j cfg where j: "rq_json r = Some j" "decode_struct True config_fields j zero_config = Inr cfg" by blast
  obtain x f where "FileStore_Set disk cfg cf = (x, f)" by fastforce
  with j have "snd (ConfigHandler bad disk r cf) \<in> {cf, snd (FileStore_Set disk cfg cf)}"
    by (simp add: ConfigHandler_def split: option.split sum.split set_error.split)
  then show ?thesis by blast
next
  case False
  then have "snd (ConfigHandler bad disk r cf) = cf"
    by (auto simp: ConfigHandler_def split: option.split sum.split)
  then show ?thesis ..
qed

lemma ConfigHandler_config_ok: "config_file_ok cf \<Longrightarrow> config_file_ok (snd (ConfigHandler bad disk r cf))"
  using ConfigHandler_file [of bad disk r cf] FileStore_Set_inv by metis

text \<open>A \<open>POST\<close> answered 200 has stored a valid configuration that the next \<open>GET\<close> returns; a request
  answered 400, 405 or 415 has left the file alone.\<close>

theorem ConfigHandler_outcomes:
  assumes "ConfigHandler unreadable disk r file = ((status, out), file')"
  shows "(status \<in> {400, 405, 415} \<longrightarrow> file' = file)
       \<and> (status = 200 \<and> rq_method r = ''POST'' \<longrightarrow>
           (\<exists>cfg. out = Some cfg \<and> Validate cfg = None \<and> Configured cfg
                  \<and> FileStore_Get False file' = Inr cfg))"
proof (cases "rq_method r = ''POST''")
  case False
  then show ?thesis
    using assms by (auto simp: ConfigHandler_def split: if_splits sum.splits)
next
  case True
  show ?thesis
  proof (cases "\<exists>j cfg. requireJSONContentType r \<and> rq_json r = Some j
        \<and> decode_struct True config_fields j zero_config = Inr cfg")
    case False
    with True assms show ?thesis
      by (auto simp: ConfigHandler_def split: if_splits option.splits sum.splits)
  next
    case T: True
    then obtain j cfg where j: "requireJSONContentType r" "rq_json r = Some j"
      "decode_struct True config_fields j zero_config = Inr cfg" by blast
    obtain e f where set: "FileStore_Set disk cfg file = (e, f)" by (cases "FileStore_Set disk cfg file")
    have "\<And>ce. e = Some (InvalidConfig ce) \<Longrightarrow> f = file"
      using set by (auto simp: FileStore_Set_def save_file_cases split: option.splits if_splits)
    moreover have "e = None \<Longrightarrow> Validate cfg = None \<and> FileStore_Get False f = Inr cfg"
      using set FileStore_Set_ok by blast
    ultimately show ?thesis
      using True j set assms
      by (auto simp: ConfigHandler_def Validate_Configured split: option.splits set_error.splits)
  qed
qed

section \<open>Concrete instances\<close>

definition sample_config :: config where
  "sample_config =
     \<lparr>AnnouncedAt = Time 0 0, DeadlineAt = Time 1000 0, InvestigationWindowStart = Time 0 0,
      InvestigationWindowEnd = Time 1000 0, ExpectedGenesisSHA256 = ''ab'',
      SupportedGnolandVersions = [''v1''], Observations = []\<rparr>"

lemma sample_config_valid: "Validate sample_config = None" "config_encodable sample_config"
  by code_simp+

theorem config_history_witness:
  "config_file_ok (save_all FileStore_Set [(\<lambda>_. False, sample_config)] None)
   \<and> (FileStore_Get False (save_all FileStore_Set [(\<lambda>_. False, sample_config)] None) = Inr zero_config
      \<or> FileStore_Get False (save_all FileStore_Set [(\<lambda>_. False, sample_config)] None) = Inr sample_config)"
proof -
  have "config_file_ok None" by (simp add: config_file_ok_def)
  from config_history [OF this, of "[(\<lambda>_. False, sample_config)]"] show ?thesis
    by (simp add: FileStore_Get_def load_file_def)
qed

end
