(* ===== verification/Scoring.thy ===== *)
theory Scoring
  imports Exercise
begin

text \<open>
  \<^verbatim>\<open>src/scoring/score.go\<close> and \<^verbatim>\<open>src/scoring/result.go\<close>: the rubric. Scores are Go \<open>int\<close>s far from
  their bounds; durations are \<open>int64\<close> nanoseconds, where the thresholds of the time tiers could
  overflow.
\<close>

section \<open>Operations\<close>

definition TieredTimeScore :: "gotime \<Rightarrow> config \<Rightarrow> int" where
  "TieredTimeScore t cfg =
     (let total = time_sub (DeadlineAt cfg) (AnnouncedAt cfg) in
      if total \<le> 0 then 0
      else
        (let elapsed = time_sub t (AnnouncedAt cfg) in
         if elapsed < 0 then 0
         else if elapsed \<le> quot total 4 then 25
         else if elapsed \<le> quot total 2 then 19
         else if elapsed \<le> wrap64 (quot total 4 * 3) then 13
         else if elapsed \<le> total then 6
         else 0))"

record log_window_check =
  Detected :: bool
  Covered :: bool
  Truncated :: bool
  FirstSeen :: gotime
  LastSeen :: gotime
  ScannedBytes :: int

definition zero_check :: log_window_check where
  "zero_check =
     \<lparr>Detected = False, Covered = False, Truncated = False, FirstSeen = zero_time,
      LastSeen = zero_time, ScannedBytes = 0\<rparr>"

definition windowCredit :: "log_window_check \<Rightarrow> int \<Rightarrow> int \<Rightarrow> int" where
  "windowCredit w covered detected =
     (if Covered w then covered else if Detected w then detected else 0)"

definition structuralBase :: int where "structuralBase = 13"

definition LogQualityScore :: "log_window_check \<Rightarrow> log_window_check \<Rightarrow> int" where
  "LogQualityScore validator sentry =
     structuralBase + windowCredit validator 8 4 + windowCredit sentry 4 2"

record result =
  SubmissionID :: string
  Scored :: bool
  GenesisMatch :: bool
  VersionSupported :: bool
  LogWindow :: log_window_check
  HasSentryLog :: bool
  SentryLogWindow :: log_window_check
  UploadTimeScore :: int
  MetadataScore :: int
  LogScore :: int
  IncidentScore :: "int option"

text \<open>A record with its identifier and every other field at its zero value.\<close>

definition blank_result :: "string \<Rightarrow> result" where
  "blank_result i =
     \<lparr>SubmissionID = i, Scored = False, GenesisMatch = False, VersionSupported = False,
      LogWindow = zero_check, HasSentryLog = False, SentryLogWindow = zero_check,
      UploadTimeScore = 0, MetadataScore = 0, LogScore = 0, IncidentScore = None\<rparr>"

definition Pending :: "result \<Rightarrow> bool" where
  "Pending r \<longleftrightarrow> IncidentScore r = None"

definition TotalScore :: "result \<Rightarrow> int" where
  "TotalScore r =
     UploadTimeScore r + MetadataScore r + LogScore r
     + (case IncidentScore r of None \<Rightarrow> 0 | Some n \<Rightarrow> n)"

section \<open>Time tiers\<close>

lemma quarter_no_wrap:
  assumes "0 < n" "in_int64 n"
  shows "wrap64 (n div 4 * 3) = n div 4 * 3"
  using assms by (intro wrap64_id) (auto simp: in_int64_def)

lemma TieredTimeScore_eq:
  assumes "0 < time_sub (DeadlineAt cfg) (AnnouncedAt cfg)"
  shows "TieredTimeScore t cfg =
     (let total = time_sub (DeadlineAt cfg) (AnnouncedAt cfg); e = time_sub t (AnnouncedAt cfg) in
      if e < 0 then 0 else if e \<le> total div 4 then 25 else if e \<le> total div 2 then 19
      else if e \<le> total div 4 * 3 then 13 else if e \<le> total then 6 else 0)"
  using assms quarter_no_wrap [OF assms time_sub_range]
  by (simp add: TieredTimeScore_def Let_def)

text \<open>Once the exercise is announced, waiting longer never raises the upload score, for windows of
  any length: the tier thresholds are in order and no threshold wraps around.\<close>

theorem TieredTimeScore_antimono:
  assumes "instant (AnnouncedAt cfg) \<le> instant t" and "instant t \<le> instant t'"
  shows "TieredTimeScore t' cfg \<le> TieredTimeScore t cfg"
proof (cases "0 < time_sub (DeadlineAt cfg) (AnnouncedAt cfg)")
  case True
  let ?e = "time_sub t (AnnouncedAt cfg)" and ?e' = "time_sub t' (AnnouncedAt cfg)"
    and ?total = "time_sub (DeadlineAt cfg) (AnnouncedAt cfg)"
  have "?e \<le> ?e'" using assms(2) by (rule time_sub_mono)
  moreover have "0 \<le> ?e"
    using assms(1) time_sub_neg_iff [of t "AnnouncedAt cfg"] by (auto simp: before_def)
  moreover have "?total div 4 \<le> ?total div 2" "?total div 2 \<le> ?total div 4 * 3 + 1"
    "?total div 4 * 3 \<le> ?total" using True by presburger+
  ultimately show ?thesis
    unfolding TieredTimeScore_eq [OF True] Let_def by auto
qed (simp add: TieredTimeScore_def Let_def)

text \<open>C35: for a window shorter than the longest duration, the score is one of 25, 19, 13 and 6 exactly while the exercise runs, from the
  announcement to the deadline, and 0 otherwise.\<close>

theorem TieredTimeScore_window:
  assumes "Validate cfg = None"
    and "instant (DeadlineAt cfg) - instant (AnnouncedAt cfg) < max_int64"
  shows "TieredTimeScore t cfg \<in>
           (if instant (AnnouncedAt cfg) \<le> instant t \<and> instant t \<le> instant (DeadlineAt cfg)
            then {25, 19, 13, 6} else {0})"
proof -
  let ?a = "instant (AnnouncedAt cfg)" and ?d = "instant (DeadlineAt cfg)" and ?t = "instant t"
  have total: "time_sub (DeadlineAt cfg) (AnnouncedAt cfg) = ?d - ?a" "?a < ?d"
    using assms by (auto simp: Validate_None_iff in_int64_def max_int64_def intro!: time_sub_exact)
  have e: "time_sub t (AnnouncedAt cfg) < 0 \<longleftrightarrow> ?t < ?a"
    by (simp add: time_sub_neg_iff before_def)
  have "time_sub t (AnnouncedAt cfg) \<le> ?d - ?a \<longleftrightarrow> ?t \<le> ?d"
    using assms(2) total(2) by (auto simp: time_sub_def Let_def in_int64_def before_def
        min_int64_def max_int64_def)
  with e total show ?thesis
    by (subst TieredTimeScore_eq) (auto simp: Let_def)
qed

section \<open>Bounds of the rubric\<close>

lemma windowCredit_bounds [bound_intros]:
  "0 \<le> d \<Longrightarrow> d \<le> c \<Longrightarrow> 0 \<le> windowCredit w c d \<and> windowCredit w c d \<le> c"
  by (simp add: windowCredit_def)

lemma LogQualityScore_bounds [bound_intros]:
  "13 \<le> LogQualityScore v s \<and> LogQualityScore v s \<le> 25"
  using windowCredit_bounds [of 4 8 v] windowCredit_bounds [of 2 4 s]
  by (simp add: LogQualityScore_def structuralBase_def)

lemma TieredTimeScore_bounds [bound_intros]:
  "0 \<le> TieredTimeScore t cfg \<and> TieredTimeScore t cfg \<le> 25"
  by (simp add: TieredTimeScore_def Let_def)

text \<open>The log criterion lies between 13 and 25; without a detected sentry log it is at most 21, and
  25 is reached exactly when both logs are covered.\<close>

theorem LogQualityScore_range:
  "LogQualityScore v s \<in> {13 .. 25}
   \<and> (Covered s \<or> Detected s \<or> LogQualityScore v s \<le> 21)
   \<and> (LogQualityScore v s = 25 \<longleftrightarrow> Covered v \<and> Covered s)"
  by (auto simp: LogQualityScore_def windowCredit_def structuralBase_def)

text \<open>
  What every record written by the program satisfies: a record without an automatic half has no
  points at all, and a scored one has each criterion within its 25 points.
\<close>

definition result_ok :: "result \<Rightarrow> bool" where
  "result_ok r \<longleftrightarrow>
     (case IncidentScore r of None \<Rightarrow> True | Some n \<Rightarrow> 0 \<le> n \<and> n \<le> 25)
     \<and> (if Scored r
        then UploadTimeScore r \<in> {0 .. 25} \<and> MetadataScore r = 25 \<and> LogScore r \<in> {13 .. 25}
        else UploadTimeScore r = 0 \<and> MetadataScore r = 0 \<and> LogScore r = 0 \<and> IncidentScore r = None)"

lemma result_ok_total:
  "result_ok r \<Longrightarrow> 0 \<le> TotalScore r \<and> TotalScore r \<le> (if Pending r then 75 else 100)"
  by (auto simp: result_ok_def TotalScore_def Pending_def split: option.splits if_splits)

lemma result_ok_scored_total: "result_ok r \<Longrightarrow> Scored r \<Longrightarrow> 38 \<le> TotalScore r"
  by (auto simp: result_ok_def TotalScore_def split: option.splits)

lemma blank_result_ok [simp]: "result_ok (blank_result i)"
  by (simp add: result_ok_def blank_result_def)

section \<open>Concrete instances\<close>

theorem TieredTimeScore_window_witness: "TieredTimeScore (Time 600 0) sample_config \<in> {25, 19, 13, 6}"
  using TieredTimeScore_window [OF sample_config_valid(1), of "Time 600 0"]
  by (simp add: sample_config_def max_int64_def)

end
