(* ===== verification/Submission_Metadata.thy ===== *)
theory Submission_Metadata
  imports Json
begin

text \<open>
  \<^verbatim>\<open>src/submission/metadata.go\<close>: the schema of \<^verbatim>\<open>metadata.json\<close> and its validation.
\<close>

section \<open>Data\<close>

record metadata =
  ValidatorAddress :: string
  Moniker :: string
  ChainID :: string
  GnolandVersion :: string
  GenesisSHA256 :: string
  OperatingSystem :: string
  Architecture :: string
  SentryEnabled :: bool
  BackupNode :: bool
  HostingProvider :: string
  DeploymentMethod :: string
  RecentOperations :: string

definition empty_metadata :: metadata where
  "empty_metadata =
     \<lparr>ValidatorAddress = [], Moniker = [], ChainID = [], GnolandVersion = [], GenesisSHA256 = [],
      OperatingSystem = [], Architecture = [], SentryEnabled = False, BackupNode = False,
      HostingProvider = [], DeploymentMethod = [], RecentOperations = []\<rparr>"

definition metadata_fields :: "metadata field list" where
  "metadata_fields =
     [(''validator_address'', set_string (\<lambda>s m. m\<lparr>ValidatorAddress := s\<rparr>)),
      (''moniker'', set_string (\<lambda>s m. m\<lparr>Moniker := s\<rparr>)),
      (''chain_id'', set_string (\<lambda>s m. m\<lparr>ChainID := s\<rparr>)),
      (''gnoland_version'', set_string (\<lambda>s m. m\<lparr>GnolandVersion := s\<rparr>)),
      (''genesis_sha256'', set_string (\<lambda>s m. m\<lparr>GenesisSHA256 := s\<rparr>)),
      (''operating_system'', set_string (\<lambda>s m. m\<lparr>OperatingSystem := s\<rparr>)),
      (''architecture'', set_string (\<lambda>s m. m\<lparr>Architecture := s\<rparr>)),
      (''sentry_enabled'', set_bool (\<lambda>b m. m\<lparr>SentryEnabled := b\<rparr>)),
      (''backup_node'', set_bool (\<lambda>b m. m\<lparr>BackupNode := b\<rparr>)),
      (''hosting_provider'', set_string (\<lambda>s m. m\<lparr>HostingProvider := s\<rparr>)),
      (''deployment_method'', set_string (\<lambda>s m. m\<lparr>DeploymentMethod := s\<rparr>)),
      (''recent_operations'', set_string (\<lambda>s m. m\<lparr>RecentOperations := s\<rparr>))]"

definition allowedArchitectures :: "string list" where
  "allowedArchitectures = [''amd64'', ''arm64'', ''x86'']"

definition allowedDeploymentMethods :: "string list" where
  "allowedDeploymentMethods = [''docker'', ''systemd'', ''binary'', ''kubernetes'']"

definition requiredFields :: "(string \<times> (metadata \<Rightarrow> string)) list" where
  "requiredFields =
     [(''validator_address'', ValidatorAddress), (''moniker'', Moniker), (''chain_id'', ChainID),
      (''gnoland_version'', GnolandVersion), (''genesis_sha256'', GenesisSHA256),
      (''operating_system'', OperatingSystem), (''architecture'', Architecture),
      (''hosting_provider'', HostingProvider), (''deployment_method'', DeploymentMethod)]"

datatype metadata_error =
    BadSchema
  | MissingFields "string list"
  | BadArchitecture string
  | BadDeploymentMethod string

type_synonym read_json = "bytes \<Rightarrow> json option"

section \<open>Operations\<close>

definition missing_fields :: "metadata \<Rightarrow> string list" where
  "missing_fields m = map fst (filter (\<lambda>f. snd f m = []) requiredFields)"

definition ValidateMetadata :: "read_json \<Rightarrow> bytes \<Rightarrow> metadata_error + metadata" where
  "ValidateMetadata read_json data =
     (case read_json data of
        None \<Rightarrow> Inl BadSchema
      | Some j \<Rightarrow>
          (case decode_struct True metadata_fields j empty_metadata of
             Inl _ \<Rightarrow> Inl BadSchema
           | Inr m \<Rightarrow>
               if missing_fields m \<noteq> [] then Inl (MissingFields (missing_fields m))
               else if Architecture m \<notin> set allowedArchitectures
               then Inl (BadArchitecture (Architecture m))
               else if DeploymentMethod m \<notin> set allowedDeploymentMethods
               then Inl (BadDeploymentMethod (DeploymentMethod m))
               else Inr m))"

section \<open>What is accepted\<close>

text \<open>The document of a metadata record, every field present.\<close>

definition metadata_doc :: "metadata \<Rightarrow> json" where
  "metadata_doc m = JObj
     [(''validator_address'', JStr (ValidatorAddress m)), (''moniker'', JStr (Moniker m)),
      (''chain_id'', JStr (ChainID m)), (''gnoland_version'', JStr (GnolandVersion m)),
      (''genesis_sha256'', JStr (GenesisSHA256 m)),
      (''operating_system'', JStr (OperatingSystem m)), (''architecture'', JStr (Architecture m)),
      (''sentry_enabled'', JBool (SentryEnabled m)), (''backup_node'', JBool (BackupNode m)),
      (''hosting_provider'', JStr (HostingProvider m)),
      (''deployment_method'', JStr (DeploymentMethod m)),
      (''recent_operations'', JStr (RecentOperations m))]"

definition metadata_ok :: "metadata \<Rightarrow> bool" where
  "metadata_ok m \<longleftrightarrow>
     ValidatorAddress m \<noteq> [] \<and> Moniker m \<noteq> [] \<and> ChainID m \<noteq> [] \<and> GnolandVersion m \<noteq> []
     \<and> GenesisSHA256 m \<noteq> [] \<and> OperatingSystem m \<noteq> [] \<and> HostingProvider m \<noteq> []
     \<and> Architecture m \<in> {''amd64'', ''arm64'', ''x86''}
     \<and> DeploymentMethod m \<in> {''docker'', ''systemd'', ''binary'', ''kubernetes''}"

lemma missing_fields_Nil:
  "missing_fields m = [] \<longleftrightarrow>
     ValidatorAddress m \<noteq> [] \<and> Moniker m \<noteq> [] \<and> ChainID m \<noteq> [] \<and> GnolandVersion m \<noteq> []
     \<and> GenesisSHA256 m \<noteq> [] \<and> OperatingSystem m \<noteq> [] \<and> Architecture m \<noteq> []
     \<and> HostingProvider m \<noteq> [] \<and> DeploymentMethod m \<noteq> []"
  by (auto simp: missing_fields_def requiredFields_def)

lemma ValidateMetadata_iff:
  "ValidateMetadata read_json data = Inr m \<longleftrightarrow>
     (\<exists>j. read_json data = Some j
          \<and> decode_struct True metadata_fields j empty_metadata = Inr m \<and> metadata_ok m)"
  by (auto simp: ValidateMetadata_def missing_fields_Nil metadata_ok_def allowedArchitectures_def
      allowedDeploymentMethods_def split: option.splits sum.splits)

lemma ValidateMetadata_ok: "ValidateMetadata read_json data = Inr m \<Longrightarrow> metadata_ok m"
  by (auto simp: ValidateMetadata_def missing_fields_Nil metadata_ok_def allowedArchitectures_def
      allowedDeploymentMethods_def split: option.splits sum.splits if_splits)

lemma metadata_doc_decodes:
  "decode_struct True metadata_fields (metadata_doc m) empty_metadata = Inr m"
  by (simp add: decode_struct_def metadata_doc_def find_field_def metadata_fields_def set_string_def
      set_bool_def empty_metadata_def)

text \<open>A well-formed record survives the round trip through its own document.\<close>

theorem ValidateMetadata_roundtrip:
  assumes "metadata_ok m" and "read_json data = Some (metadata_doc m)"
  shows "ValidateMetadata read_json data = Inr m"
  using assms by (auto simp: ValidateMetadata_def metadata_doc_decodes missing_fields_Nil metadata_ok_def
      allowedArchitectures_def allowedDeploymentMethods_def)

text \<open>A document with a key that names no field, in any letter case, is rejected as not matching
  the schema, whatever else it holds.\<close>

theorem ValidateMetadata_unknown_field:
  assumes "read_json data = Some (JObj ms)" and "(k, v) \<in> set ms"
    and "\<forall>f\<in>set metadata_fields. fold_case (fst f) \<noteq> fold_case k"
  shows "ValidateMetadata read_json data = Inl BadSchema"
proof -
  have "find_field metadata_fields k = None" using assms(3) by (simp only: find_field_None)
  then have "\<nexists>m. decode_members True metadata_fields ms empty_metadata = Inr m"
    using decode_members_strict [OF _ assms(2)] by fastforce
  then show ?thesis
    by (cases "decode_members True metadata_fields ms empty_metadata")
       (auto simp: ValidateMetadata_def assms(1) decode_struct_def)
qed

section \<open>The schema, without a decoder\<close>

text \<open>
  The fields and the type of each; and the value of a field in a document: that of the last member that names it, in
  whatever letter case, and is not \<open>null\<close>.
\<close>

definition text_fields :: "string list" where
  "text_fields = [''validator_address'', ''moniker'', ''chain_id'', ''gnoland_version'', ''genesis_sha256'', ''operating_system'',
     ''architecture'', ''hosting_provider'', ''deployment_method'', ''recent_operations'']"

definition flag_fields :: "string list" where
  "flag_fields = [''sentry_enabled'', ''backup_node'']"

definition member_ok :: "string \<times> json \<Rightarrow> bool" where
  "member_ok kv \<longleftrightarrow>
     fold_case (fst kv) \<in> set text_fields \<and> (snd kv = JNull \<or> (\<exists>s. snd kv = JStr s))
     \<or> fold_case (fst kv) \<in> set flag_fields \<and> (snd kv = JNull \<or> (\<exists>b. snd kv = JBool b))"

definition value_of :: "(string \<times> json) list \<Rightarrow> string \<Rightarrow> json" where
  "value_of ms n = foldl (\<lambda>v kv. if fold_case (fst kv) = n \<and> snd kv \<noteq> JNull then snd kv else v) JNull ms"

definition text_of :: "(string \<times> json) list \<Rightarrow> string \<Rightarrow> string" where
  "text_of ms n = (case value_of ms n of JStr s \<Rightarrow> s | _ \<Rightarrow> [])"

definition flag_of :: "(string \<times> json) list \<Rightarrow> string \<Rightarrow> bool" where
  "flag_of ms n = (value_of ms n = JBool True)"

definition described_metadata :: "(string \<times> json) list \<Rightarrow> metadata" where
  "described_metadata ms =
     \<lparr>ValidatorAddress = text_of ms ''validator_address'', Moniker = text_of ms ''moniker'', ChainID = text_of ms ''chain_id'',
      GnolandVersion = text_of ms ''gnoland_version'', GenesisSHA256 = text_of ms ''genesis_sha256'',
      OperatingSystem = text_of ms ''operating_system'', Architecture = text_of ms ''architecture'',
      SentryEnabled = flag_of ms ''sentry_enabled'', BackupNode = flag_of ms ''backup_node'',
      HostingProvider = text_of ms ''hosting_provider'', DeploymentMethod = text_of ms ''deployment_method'',
      RecentOperations = text_of ms ''recent_operations''\<rparr>"

lemma value_of_snoc:
  "value_of (ms @ [(k, v)]) n = (if fold_case k = n \<and> v \<noteq> JNull then v else value_of ms n)"
  by (simp add: value_of_def)

lemma text_of_snoc:
  "text_of (ms @ [(k, v)]) n = (if fold_case k = n \<and> v \<noteq> JNull then (case v of JStr s \<Rightarrow> s | _ \<Rightarrow> []) else text_of ms n)"
  by (simp add: text_of_def value_of_snoc)

lemma flag_of_snoc: "flag_of (ms @ [(k, v)]) n = (if fold_case k = n \<and> v \<noteq> JNull then v = JBool True else flag_of ms n)"
  by (simp add: flag_of_def value_of_snoc)

lemma field_names: "fst ` set metadata_fields = set (text_fields @ flag_fields)"
  by (auto simp: metadata_fields_def text_fields_def flag_fields_def)

lemma find_metadata_field: "find_field metadata_fields k = find (\<lambda>f. fst f = fold_case k) metadata_fields"
proof -
  have "list_all (\<lambda>n. fold_case n = n) (text_fields @ flag_fields)" by code_simp
  then have "\<forall>n\<in>fst ` set metadata_fields. fold_case n = n" by (simp only: field_names list_all_iff)
  then have low: "fold_case (fst f) = fst f" if "f \<in> set metadata_fields" for f using that by blast
  have cong: "find P xs = find Q xs" if "\<And>x. x \<in> set xs \<Longrightarrow> P x = Q x" for P Q and xs :: "metadata field list"
    using that by (induction xs) auto
  show ?thesis
  proof (cases "find (\<lambda>f. fst f = k) metadata_fields")
    case None
    then have "find_field metadata_fields k = find (\<lambda>f. fold_case (fst f) = fold_case k) metadata_fields"
      by (simp add: find_field_def)
    also have "\<dots> = find (\<lambda>f. fst f = fold_case k) metadata_fields" by (rule cong) (simp only: low)
    finally show ?thesis .
  next
    case (Some f)
    then have "f \<in> set metadata_fields" "fst f = k" by (auto simp: find_Some_iff)
    with low have "fold_case k = k" by metis
    with Some show ?thesis by (simp add: find_field_def)
  qed
qed

text \<open>One more member: what it stores, and when it is refused.\<close>

lemma metadata_member:
  "(case find_field metadata_fields k of None \<Rightarrow> None | Some f \<Rightarrow> snd f v (described_metadata ms)) =
     (if member_ok (k, v) then Some (described_metadata (ms @ [(k, v)])) else None)"
proof (cases "fold_case k \<in> set (text_fields @ flag_fields)")
  case True
  then have "fold_case k \<in> set text_fields \<or> fold_case k \<in> set flag_fields" by simp
  then show ?thesis
    unfolding find_metadata_field member_ok_def text_fields_def flag_fields_def list.set insert_iff empty_iff
    by (elim disjE; cases v;
        simp add: metadata_fields_def described_metadata_def text_of_snoc flag_of_snoc set_string_def set_bool_def)
next
  case False
  then have "fold_case k \<notin> fst ` set metadata_fields" by (simp only: field_names not_False_eq_True)
  then have "find_field metadata_fields k = None" by (force simp: find_metadata_field find_None_iff)
  with False show ?thesis by (simp add: member_ok_def)
qed

lemma decode_metadata:
  "decode_members True metadata_fields ms empty_metadata = Inr m \<longleftrightarrow> list_all member_ok ms \<and> m = described_metadata ms"
proof (induction ms arbitrary: m rule: rev_induct)
  case Nil
  then show ?case by (auto simp: described_metadata_def text_of_def flag_of_def value_of_def empty_metadata_def)
next
  case (snoc kv ms)
  obtain k v where kv: "kv = (k, v)" by (cases kv)
  have one: "decode_members True metadata_fields [kv] (described_metadata ms) = Inr m \<longleftrightarrow> member_ok kv \<and> m = described_metadata (ms @ [kv])"
    using metadata_member [where k = k and v = v and ms = ms] unfolding kv by (auto split: option.splits if_splits)
  consider "list_all member_ok ms" "decode_members True metadata_fields ms empty_metadata = Inr (described_metadata ms)"
    | e where "\<not> list_all member_ok ms" "decode_members True metadata_fields ms empty_metadata = Inl e"
    using snoc.IH by (metis obj_sumE)
  then show ?case by cases (simp_all only: decode_members_append list_all_append sum.case one, simp_all)
qed

text \<open>C28: metadata is accepted exactly when the document is an object in which every member names a field of the schema and
  holds \<open>null\<close> or a value of its type, every required field is filled and architecture and deployment method are among
  the allowed values; in the record returned every field has the last value given for it, and the zero value when
  there is none.\<close>

theorem ValidateMetadata_spec:
  "ValidateMetadata read_json data = Inr m \<longleftrightarrow>
     (\<exists>ms. read_json data = Some (JObj ms) \<and> list_all member_ok ms \<and> m = described_metadata ms \<and> metadata_ok m)"
proof -
  have "\<not> metadata_ok empty_metadata" by (simp add: metadata_ok_def empty_metadata_def)
  then have "decode_struct True metadata_fields j empty_metadata = Inr m \<and> metadata_ok m \<longleftrightarrow>
      (\<exists>ms. j = JObj ms \<and> list_all member_ok ms \<and> m = described_metadata ms \<and> metadata_ok m)" for j
    by (cases j) (auto simp only: decode_struct_def decode_metadata json.case json.distinct json.inject sum.inject sum.distinct)
  then show ?thesis unfolding ValidateMetadata_iff by metis
qed

end
