(* ===== verification/Streams.thy ===== *)
theory Streams
  imports Prelude
begin

text \<open>
  An \<open>io.Reader\<close> as the sources use one: the bytes it delivers, and whether it then fails or
  ends. The failure, like the end of the stream, is reported by the \<open>Read\<close> that follows the
  last byte. How the bytes are cut into \<open>Read\<close> calls is left out: \<open>io.ReadFull\<close>, \<open>io.ReadAll\<close>,
  \<open>io.Copy\<close>, \<open>io.LimitReader\<close> and \<open>bufio.Scanner\<close> do not depend on it.
\<close>

record stream =
  sdata :: bytes
  sbroken :: bool

definition whole :: "bytes \<Rightarrow> stream" where
  "whole bs = \<lparr>sdata = bs, sbroken = False\<rparr>"

text \<open>
  \<open>io.LimitReader\<close>: at most \<open>n\<close> bytes, then the end of the stream. The source is not read again
  once the limit is spent, so a failure right behind the limit is not seen.
\<close>

definition limit_to :: "nat \<Rightarrow> stream \<Rightarrow> stream" where
  "limit_to n s = \<lparr>sdata = take n (sdata s), sbroken = sbroken s \<and> length (sdata s) < n\<rparr>"

text \<open>The bound is an \<open>int64\<close>; one that is not positive ends the stream at once.\<close>

definition limit_reader :: "int \<Rightarrow> stream \<Rightarrow> stream" where
  "limit_reader n s = limit_to (nat n) s"

text \<open>What is left of a stream after \<open>n\<close> bytes have been taken from it.\<close>

definition advance :: "nat \<Rightarrow> stream \<Rightarrow> stream" where
  "advance n s = s\<lparr>sdata := drop n (sdata s)\<rparr>"

lemma whole_simps [simp, read_simps]:
  "sdata (whole bs) = bs" "sbroken (whole bs) = False"
  by (simp_all add: whole_def)

lemma limit_to_simps [simp, read_simps]:
  "sdata (limit_to n s) = take n (sdata s)"
  "sbroken (limit_to n s) \<longleftrightarrow> sbroken s \<and> length (sdata s) < n"
  by (simp_all add: limit_to_def)

lemma advance_simps [simp, read_simps]:
  "sdata (advance n s) = drop n (sdata s)"
  "sbroken (advance n s) = sbroken s"
  by (simp_all add: advance_def)

lemma limit_reader_simps [read_simps]:
  "sdata (limit_reader n s) = take (nat n) (sdata s)"
  "sbroken (limit_reader n s) \<longleftrightarrow> sbroken s \<and> length (sdata s) < nat n"
  by (simp_all add: limit_reader_def)

text \<open>
  The ``one past the limit'' read: a stream read through a limit of \<open>m + 1\<close> is seen to be at
  most \<open>m\<close> long exactly when it is, and then it is seen whole.
\<close>

lemma limit_past_fits:
  "length (sdata (limit_to (Suc m) s)) \<le> m \<longleftrightarrow> length (sdata s) \<le> m"
  by auto

lemma limit_past_whole:
  "length (sdata s) \<le> m \<Longrightarrow> limit_to (Suc m) s = s"
  by (cases s) (simp add: limit_to_def)

lemma limit_to_idem [simp]: "length (sdata s) < n \<Longrightarrow> limit_to n s = s"
  by (cases s) (simp add: limit_to_def)

section \<open>Lines\<close>

definition drop_cr :: "string \<Rightarrow> string" where
  "drop_cr l = (if l \<noteq> [] \<and> last l = cr then butlast l else l)"

text \<open>
  \<open>bufio.Scanner\<close> over lines with a buffer of at most \<open>mx\<close> bytes: the tokens, how many bytes have been
  read from the underlying reader, and whether a line that does not fit ended the scan.
\<close>

function scan_lines :: "nat \<Rightarrow> nat \<Rightarrow> bytes \<Rightarrow> string list \<times> nat \<times> bool" where
  "scan_lines mx off data =
     (if data = [] then ([], off, False)
      else
        (let l = takeWhile (\<lambda>c. c \<noteq> nl) data in
         if mx \<le> length l then ([], off + mx, True)
         else case dropWhile (\<lambda>c. c \<noteq> nl) data of
                [] \<Rightarrow> ([drop_cr l], off + length data, False)
              | _ # rest \<Rightarrow>
                  (case scan_lines mx (off + length l + 1) rest of
                     (ts, n, long) \<Rightarrow> (drop_cr l # ts, n, long))))"
  by pat_completeness auto
termination
proof (relation "measure (\<lambda>(mx, off, data). length data)", goal_cases)
  case (2 mx off data l c rest)
  then have "length (c # rest) \<le> length data" by (metis length_dropWhile_le)
  then show ?case by simp
qed simp

declare scan_lines.simps [simp del]

lemma takeWhile_dropWhile_length: "length (takeWhile P xs) + length (dropWhile P xs) = length xs"
  by (metis length_append takeWhile_dropWhile_id)

lemma scan_lines_count:
  "scan_lines mx off data = (ls, n, long) \<Longrightarrow> n \<le> off + length data \<and> (\<not> long \<longrightarrow> n = off + length data)"
proof (induction mx off data arbitrary: ls n long rule: scan_lines.induct)
  case (1 mx off data)
  let ?l = "takeWhile (\<lambda>c. c \<noteq> nl) data"
  have len: "length ?l + length (dropWhile (\<lambda>c. c \<noteq> nl) data) = length data"
    by (rule takeWhile_dropWhile_length)
  consider "data = []" | "data \<noteq> []" "mx \<le> length ?l"
    | "data \<noteq> []" "\<not> mx \<le> length ?l" "dropWhile (\<lambda>c. c \<noteq> nl) data = []"
    | c rest where "data \<noteq> []" "\<not> mx \<le> length ?l" "dropWhile (\<lambda>c. c \<noteq> nl) data = c # rest"
    by (meson list.exhaust)
  then show ?case
  proof cases
    case 4
    obtain ts k lg where r: "scan_lines mx (off + length ?l + 1) rest = (ts, k, lg)" by (metis prod_cases3)
    have "n = k" "long = lg" using "1.prems" 4 r by (auto simp: scan_lines.simps [of mx off data] Let_def)
    then show ?thesis using "1.IH" [OF 4(1) refl 4(2,3) r] len 4(3) by auto
  next
    case 3
    then show ?thesis using "1.prems" by (simp only: scan_lines.simps [of mx off data] Let_def if_False) simp
  next
    assume "data = []"
    then show ?thesis using "1.prems" by (simp add: scan_lines.simps [of mx off "[]"])
  qed (use "1.prems" len in \<open>auto simp: scan_lines.simps [of mx off data] Let_def\<close>)
qed

text \<open>One line at a time.\<close>

lemma scan_lines_line:
  assumes "nl \<notin> set l" "length l < mx"
  shows "scan_lines mx off (l @ nl # rest) =
     (case scan_lines mx (off + length l + 1) rest of (ts, n, long) \<Rightarrow> (drop_cr l # ts, n, long))"
proof -
  have "takeWhile (\<lambda>c. c \<noteq> nl) (l @ nl # rest) = l" "dropWhile (\<lambda>c. c \<noteq> nl) (l @ nl # rest) = nl # rest"
    using assms(1) by (auto simp: takeWhile_append takeWhile_eq_all_conv dropWhile_append)
  with assms(2) show ?thesis by (simp add: scan_lines.simps [of mx off "l @ nl # rest"] Let_def)
qed

lemma scan_lines_Nil [simp]: "scan_lines mx off [] = ([], off, False)"
  by (simp add: scan_lines.simps)

lemma scan_lines_last:
  assumes "nl \<notin> set l" "l \<noteq> []" "length l < mx"
  shows "scan_lines mx off l = ([drop_cr l], off + length l, False)"
proof -
  have l: "takeWhile (\<lambda>c. c \<noteq> nl) l = l" "dropWhile (\<lambda>c. c \<noteq> nl) l = []"
    using assms(1) by (auto simp: takeWhile_eq_all_conv)
  show ?thesis unfolding scan_lines.simps [of mx off l] Let_def l using assms(2,3) by simp
qed

end
