(* ===== verification/Submission_Archive.thy ===== *)
theory Submission_Archive
  imports Streams
begin

text \<open>
  \<^verbatim>\<open>src/submission/archive.go\<close>: the structural validation of an uploaded archive and the walk
  over its log entries.

  The formats themselves, gzip and tar, are decoded by a parameter of the model:
  \<open>untar\<close> maps the bytes of a file to \<open>None\<close> when \<open>gzip.NewReader\<close> refuses them, and otherwise to
  the entries that successive calls of \<open>tar.Reader.Next\<close> return, with whether the walk then
  ends in an error instead of \<open>io.EOF\<close>. Of an entry whose body fails, \<open>body_cut\<close> says whether it fails with
  \<open>io.ErrUnexpectedEOF\<close>, as a truncated archive does. A context is a predicate on the number of times it has
  been asked: whether that call of \<open>ctx.Err\<close> returns an error.
\<close>

section \<open>Data\<close>

record tar_entry =
  hdr_name :: string
  typeflag :: char
  body :: stream
  body_cut :: bool

record tar_stream =
  members :: "tar_entry list"
  corrupt :: bool

type_synonym untar = "bytes \<Rightarrow> tar_stream option"
type_synonym ctx = "nat \<Rightarrow> bool"

definition ValidatorLogFileName :: string where "ValidatorLogFileName = ''validator.log.gz''"
definition SentryLogFileName :: string where "SentryLogFileName = ''sentry.log.gz''"
definition MetadataFileName :: string where "MetadataFileName = ''metadata.json''"

lemmas entry_names = ValidatorLogFileName_def SentryLogFileName_def MetadataFileName_def

definition defaultMaxLogSize :: int where "defaultMaxLogSize = 2 * 2 ^ 30"
definition defaultMaxMetadataSize :: int where "defaultMaxMetadataSize = 64 * 2 ^ 10"

definition allowedEntries :: "string list" where
  "allowedEntries = [ValidatorLogFileName, SentryLogFileName, MetadataFileName]"

definition requiredEntries :: "string list" where
  "requiredEntries = [ValidatorLogFileName, MetadataFileName]"

definition logEntries :: "string list" where
  "logEntries = [ValidatorLogFileName, SentryLogFileName]"

definition TypeReg :: char where "TypeReg = CHR ''0''"

record options =
  MaxLogSize :: int
  MaxMetadataSize :: int

definition withDefaults :: "options \<Rightarrow> options" where
  "withDefaults opts =
     \<lparr>MaxLogSize = if MaxLogSize opts \<le> 0 then defaultMaxLogSize else MaxLogSize opts,
      MaxMetadataSize =
        if MaxMetadataSize opts \<le> 0 then defaultMaxMetadataSize else MaxMetadataSize opts\<rparr>"

record archive_result =
  Metadata :: bytes
  SentryLogPresent :: bool

datatype archive_error =
    NotGzip
  | Cancelled
  | CorruptTar
  | Unexpected string
  | Duplicate string
  | NotRegular string char
  | ReadFailed string
  | TooLarge string int
  | BadMagic string
  | MissingEntry string

section \<open>Operations\<close>

definition byte_at :: "nat \<Rightarrow> bytes \<Rightarrow> char" where
  "byte_at i bs = (if i < length bs then bs ! i else CHR 0x00)"

text \<open>The count of bytes read, the first two of them (zero where absent) and whether a read failed. A truncated entry of fewer than two
  bytes is no failure here, only too short.\<close>

definition readBounded :: "stream \<Rightarrow> bool \<Rightarrow> int \<Rightarrow> int \<times> (char \<times> char) \<times> bool" where
  "readBounded r truncated lim =
     (let lr = limit_reader (wrap64 (lim + 1)) r;
          magic = (byte_at 0 (sdata lr), byte_at 1 (sdata lr)) in
      if length (sdata lr) < 2 then (int (length (sdata lr)), magic, sbroken lr \<and> \<not> truncated)
      else (2 + int (length (drop 2 (sdata lr))), magic, sbroken lr))"

fun validate_entries ::
  "ctx \<Rightarrow> options \<Rightarrow> bool \<Rightarrow> nat \<Rightarrow> string list \<Rightarrow> bytes \<Rightarrow> bool \<Rightarrow> tar_entry list
   \<Rightarrow> archive_error + (string list \<times> bytes \<times> bool)" where
  "validate_entries ctx opts crpt i seen md sp [] =
     (if ctx i then Inl Cancelled else if crpt then Inl CorruptTar else Inr (seen, md, sp))"
| "validate_entries ctx opts crpt i seen md sp (e # es) =
     (let name = hdr_name e in
      if ctx i then Inl Cancelled
      else if name \<notin> set allowedEntries then Inl (Unexpected name)
      else if name \<in> set seen then Inl (Duplicate name)
      else if typeflag e \<noteq> TypeReg then Inl (NotRegular name (typeflag e))
      else if name = ValidatorLogFileName \<or> name = SentryLogFileName then
        (case readBounded (body e) (body_cut e) (MaxLogSize opts) of
           (n, magic, err) \<Rightarrow>
             if err then Inl (ReadFailed name)
             else if MaxLogSize opts < n then Inl (TooLarge name (MaxLogSize opts))
             else if n < 2 \<or> fst magic \<noteq> CHR 0x1F \<or> snd magic \<noteq> CHR 0x8B
             then Inl (BadMagic name)
             else validate_entries ctx opts crpt (Suc i) (name # seen) md
                    (sp \<or> name = SentryLogFileName) es)
      else
        (let lim = MaxMetadataSize opts; lr = limit_reader (wrap64 (lim + 1)) (body e) in
         if sbroken lr then Inl (ReadFailed name)
         else if lim < int (length (sdata lr)) then Inl (TooLarge name lim)
         else validate_entries ctx opts crpt (Suc i) (name # seen) (sdata lr) sp es))"

definition ValidateArchive ::
  "untar \<Rightarrow> ctx \<Rightarrow> bytes \<Rightarrow> options \<Rightarrow> archive_error + archive_result" where
  "ValidateArchive untar ctx file opts0 =
     (let opts = withDefaults opts0 in
      case untar file of
        None \<Rightarrow> Inl NotGzip
      | Some ts \<Rightarrow>
          (case validate_entries ctx opts (corrupt ts) 0 [] [] False (members ts) of
             Inl err \<Rightarrow> Inl err
           | Inr (seen, md, sp) \<Rightarrow>
               (case find (\<lambda>name. name \<notin> set seen) requiredEntries of
                  Some name \<Rightarrow> Inl (MissingEntry name)
                | None \<Rightarrow> Inr \<lparr>Metadata = md, SentryLogPresent = sp\<rparr>)))"

text \<open>
  \<open>ScanLogs\<close> calls \<open>fn\<close> once per log entry. The variables \<open>fn\<close> captures are the state \<open>'s\<close>, which
  is kept when \<open>fn\<close> stops the walk with an error.
\<close>

datatype 'e scan_error = ScanNotGzip | ScanCancelled | ScanCorrupt | ScanFn 'e

fun scan_entries ::
  "ctx \<Rightarrow> options \<Rightarrow> bool \<Rightarrow> (string \<Rightarrow> stream \<Rightarrow> 's \<Rightarrow> 's \<times> 'e option) \<Rightarrow> nat \<Rightarrow> 's
   \<Rightarrow> tar_entry list \<Rightarrow> 's \<times> 'e scan_error option" where
  "scan_entries ctx opts crpt fn i s [] =
     (s, if ctx i then Some ScanCancelled else if crpt then Some ScanCorrupt else None)"
| "scan_entries ctx opts crpt fn i s (e # es) =
     (if ctx i then (s, Some ScanCancelled)
      else if hdr_name e \<notin> set logEntries then scan_entries ctx opts crpt fn (Suc i) s es
      else (case fn (hdr_name e) (limit_reader (MaxLogSize opts) (body e)) s of
              (s', Some err) \<Rightarrow> (s', Some (ScanFn err))
            | (s', None) \<Rightarrow> scan_entries ctx opts crpt fn (Suc i) s' es))"

definition ScanLogs ::
  "untar \<Rightarrow> ctx \<Rightarrow> bytes \<Rightarrow> options \<Rightarrow> (string \<Rightarrow> stream \<Rightarrow> 's \<Rightarrow> 's \<times> 'e option) \<Rightarrow> 's
   \<Rightarrow> 's \<times> 'e scan_error option" where
  "ScanLogs untar ctx file opts0 fn s =
     (let opts = withDefaults opts0 in
      case untar file of
        None \<Rightarrow> (s, Some ScanNotGzip)
      | Some ts \<Rightarrow> scan_entries ctx opts (corrupt ts) fn 0 s (members ts))"


section \<open>What an accepted archive looks like\<close>

definition is_log_name :: "string \<Rightarrow> bool" where
  "is_log_name n \<longleftrightarrow> n = ValidatorLogFileName \<or> n = SentryLogFileName"

definition log_body_ok :: "int \<Rightarrow> stream \<Rightarrow> bool" where
  "log_body_ok lim b \<longleftrightarrow>
     \<not> sbroken b \<and> int (length (sdata b)) \<le> lim \<and> 2 \<le> length (sdata b)
     \<and> sdata b ! 0 = CHR 0x1F \<and> sdata b ! 1 = CHR 0x8B"

definition meta_body_ok :: "int \<Rightarrow> stream \<Rightarrow> bool" where
  "meta_body_ok lim b \<longleftrightarrow> \<not> sbroken b \<and> int (length (sdata b)) \<le> lim"

definition entry_ok :: "options \<Rightarrow> tar_entry \<Rightarrow> bool" where
  "entry_ok opts e \<longleftrightarrow>
     hdr_name e \<in> set allowedEntries \<and> typeflag e = TypeReg
     \<and> (if is_log_name (hdr_name e) then log_body_ok (MaxLogSize opts) (body e)
        else meta_body_ok (MaxMetadataSize opts) (body e))"

text \<open>The content of the last metadata entry, or what was read before.\<close>

fun metadata_of :: "bytes \<Rightarrow> tar_entry list \<Rightarrow> bytes" where
  "metadata_of md [] = md"
| "metadata_of md (e # es) =
     metadata_of (if is_log_name (hdr_name e) then md else sdata (body e)) es"

text \<open>The limits for which ``one past the limit'' does not overflow an \<open>int64\<close>.\<close>

definition sane :: "options \<Rightarrow> bool" where
  "sane opts \<longleftrightarrow> MaxLogSize opts < max_int64 \<and> MaxMetadataSize opts < max_int64"

definition archive_spec :: "options \<Rightarrow> tar_stream \<Rightarrow> archive_result \<Rightarrow> bool" where
  "archive_spec opts ts r \<longleftrightarrow>
     list_all (entry_ok opts) (members ts)
     \<and> distinct (map hdr_name (members ts))
     \<and> set requiredEntries \<subseteq> hdr_name ` set (members ts)
     \<and> \<not> corrupt ts
     \<and> Metadata r = metadata_of [] (members ts)
     \<and> SentryLogPresent r = (SentryLogFileName \<in> hdr_name ` set (members ts))"

lemma withDefaults_pos:
  "0 < MaxLogSize (withDefaults opts)" "0 < MaxMetadataSize (withDefaults opts)"
  by (auto simp: withDefaults_def defaultMaxLogSize_def defaultMaxMetadataSize_def)

lemma withDefaults_sane: "sane opts \<Longrightarrow> sane (withDefaults opts)"
  by (auto simp: sane_def withDefaults_def defaultMaxLogSize_def defaultMaxMetadataSize_def
      max_int64_def)

lemma wrap64_past: "0 < m \<Longrightarrow> m < max_int64 \<Longrightarrow> wrap64 (m + 1) = m + 1"
  by (simp add: in_int64_def max_int64_def)

lemma limit_past:
  assumes "0 < m" "m < max_int64"
  shows "limit_reader (wrap64 (m + 1)) r = limit_to (Suc (nat m)) r"
proof -
  have "nat (m + 1) = Suc (nat m)" using assms by simp
  then show ?thesis using assms by (simp add: wrap64_past limit_reader_def)
qed

text \<open>The log branch of the loop accepts a body exactly when it is well formed.\<close>

lemma readBounded_count:
  assumes "0 < m" "m < max_int64"
  shows "readBounded r truncated m =
    (int (min (length (sdata r)) (Suc (nat m))),
     (byte_at 0 (take (Suc (nat m)) (sdata r)), byte_at 1 (take (Suc (nat m)) (sdata r))),
     sbroken r \<and> length (sdata r) < Suc (nat m) \<and> (2 \<le> length (sdata r) \<or> \<not> truncated))"
  using assms by (auto simp: readBounded_def limit_past Let_def min_def)

lemma readBounded_ok_iff:
  assumes "0 < m" "m < max_int64" and eq: "readBounded r truncated m = (n, magic, err)"
  shows "(\<not> err \<and> \<not> m < n \<and> \<not> (n < 2 \<or> fst magic \<noteq> CHR 0x1F \<or> snd magic \<noteq> CHR 0x8B))
         \<longleftrightarrow> log_body_ok m r"
proof (cases "length (sdata r) < Suc (nat m)")
  case True
  then have n: "n = int (length (sdata r))" "err = (sbroken r \<and> (2 \<le> length (sdata r) \<or> \<not> truncated))"
      "magic = (byte_at 0 (sdata r), byte_at 1 (sdata r))"
    using eq assms by (auto simp: readBounded_count)
  show ?thesis
    using True assms(1) by (auto simp: n log_body_ok_def byte_at_def)
next
  case False
  then have "n = 1 + m" using eq assms by (auto simp: readBounded_count)
  with False assms(1) show ?thesis by (auto simp: log_body_ok_def)
qed

lemma limit_past_ok_iff:
  assumes "0 < m" "m < max_int64"
  shows "(\<not> sbroken (limit_reader (wrap64 (m + 1)) r)
          \<and> \<not> m < int (length (sdata (limit_reader (wrap64 (m + 1)) r)))) \<longleftrightarrow> meta_body_ok m r"
    and "meta_body_ok m r \<Longrightarrow> sdata (limit_reader (wrap64 (m + 1)) r) = sdata r"
  using assms by (auto simp: limit_past meta_body_ok_def)

lemma validate_entries_step:
  assumes "0 < MaxLogSize opts" "0 < MaxMetadataSize opts" "sane opts"
  shows "validate_entries ctx opts c i seen md sp (e # es) = Inr out \<longleftrightarrow>
     \<not> ctx i \<and> entry_ok opts e \<and> hdr_name e \<notin> set seen
     \<and> validate_entries ctx opts c (Suc i) (hdr_name e # seen)
         (if is_log_name (hdr_name e) then md else sdata (body e))
         (sp \<or> hdr_name e = SentryLogFileName) es = Inr out"
proof (cases "is_log_name (hdr_name e)")
  case True
  obtain n magic err where rb: "readBounded (body e) (body_cut e) (MaxLogSize opts) = (n, magic, err)"
    by (cases "readBounded (body e) (body_cut e) (MaxLogSize opts)")
  have m: "0 < MaxLogSize opts" "MaxLogSize opts < max_int64" using assms by (auto simp: sane_def)
  show ?thesis
    using True readBounded_ok_iff [OF m rb]
    by (auto simp: Let_def rb entry_ok_def is_log_name_def)
next
  case False
  have m: "0 < MaxMetadataSize opts" "MaxMetadataSize opts < max_int64"
    using assms by (auto simp: sane_def)
  have "hdr_name e \<noteq> SentryLogFileName" using False by (simp add: is_log_name_def)
  then show ?thesis
    using False limit_past_ok_iff [OF m, of "body e"]
    by (auto simp: Let_def entry_ok_def is_log_name_def)
qed

lemma validate_entries_iff:
  assumes "0 < MaxLogSize opts" "0 < MaxMetadataSize opts" "sane opts"
  shows "validate_entries ctx opts c i seen md sp es = Inr (seen', md', sp') \<longleftrightarrow>
     (\<forall>j\<le>length es. \<not> ctx (i + j)) \<and> \<not> c \<and> list_all (entry_ok opts) es
     \<and> distinct (map hdr_name es) \<and> set seen \<inter> hdr_name ` set es = {}
     \<and> seen' = rev (map hdr_name es) @ seen \<and> md' = metadata_of md es
     \<and> sp' = (sp \<or> SentryLogFileName \<in> hdr_name ` set es)"
proof (induction es arbitrary: i seen md sp)
  case Nil
  then show ?case by auto
next
  case (Cons e es)
  have shift: "(\<forall>j\<le>length (e # es). \<not> ctx (i + j)) \<longleftrightarrow>
      \<not> ctx i \<and> (\<forall>j\<le>length es. \<not> ctx (Suc i + j))"
    using all_le_Suc_shift [of "length es" "\<lambda>n. \<not> ctx n" i] by simp
  show ?case
    unfolding validate_entries_step [OF assms] Cons.IH shift
    by (auto simp del: validate_entries.simps)
qed


lemma find_required_None: "find (\<lambda>n. n \<notin> set seen) requiredEntries = None \<longleftrightarrow> set requiredEntries \<subseteq> set seen"
  by (auto simp: find_None_iff requiredEntries_def)

lemma ValidateArchive_InrE:
  assumes "ValidateArchive untar ctx file opts = Inr r"
  obtains ts seen where "untar file = Some ts"
    and "validate_entries ctx (withDefaults opts) (corrupt ts) 0 [] [] False (members ts)
           = Inr (seen, Metadata r, SentryLogPresent r)"
    and "set requiredEntries \<subseteq> set seen"
proof -
  obtain ts seen md sp where "untar file = Some ts"
    and "validate_entries ctx (withDefaults opts) (corrupt ts) 0 [] [] False (members ts)
           = Inr (seen, md, sp)"
    and "find (\<lambda>n. n \<notin> set seen) requiredEntries = None"
    and "r = \<lparr>Metadata = md, SentryLogPresent = sp\<rparr>"
    using assms
    by (force simp: ValidateArchive_def Let_def split: option.splits sum.splits)
  then show thesis using that by (simp add: find_required_None)
qed

text \<open>C11: validation accepts an archive exactly when it meets the abstract description: only the
  known names, each once and a regular file, the required ones present, every log entry intact,
  within its limit and starting with the gzip magic, metadata within its limit, and the tar walk
  ending cleanly; the result carries the metadata bytes and whether a sentry log was there.\<close>

theorem ValidateArchive_iff:
  assumes "sane opts" and "\<And>i. \<not> ctx i"
  shows "ValidateArchive untar ctx file opts = Inr r \<longleftrightarrow>
         (\<exists>ts. untar file = Some ts \<and> archive_spec (withDefaults opts) ts r)"
proof -
  note pos = withDefaults_pos [of opts] withDefaults_sane [OF assms(1)]
  show ?thesis
  proof (cases "untar file")
    case (Some ts)
    let ?v = "validate_entries ctx (withDefaults opts) (corrupt ts) 0 [] [] False (members ts)"
    show ?thesis
    proof (cases ?v)
      case (Inl err)
      then have "\<not> archive_spec (withDefaults opts) ts r"
        using validate_entries_iff [OF pos, of ctx "corrupt ts" 0 "[]" "[]" False "members ts"] assms(2)
        by (auto simp: archive_spec_def)
      with Inl Some show ?thesis by (simp add: ValidateArchive_def)
    next
      case (Inr out)
      obtain seen md sp where out: "out = (seen, md, sp)" by (cases out)
      have v: "\<not> corrupt ts \<and> list_all (entry_ok (withDefaults opts)) (members ts)
          \<and> distinct (map hdr_name (members ts)) \<and> set seen = hdr_name ` set (members ts)
          \<and> md = metadata_of [] (members ts) \<and> sp = (SentryLogFileName \<in> hdr_name ` set (members ts))"
        using Inr unfolding out validate_entries_iff [OF pos] by auto
      show ?thesis
        using v Inr Some
        by (cases r) (auto simp: ValidateArchive_def out archive_spec_def find_None_iff
            requiredEntries_def split: option.splits)
    qed
  qed (simp add: ValidateArchive_def)
qed

lemma ValidateArchive_sound:
  assumes "sane opts" and "ValidateArchive untar ctx file opts = Inr r"
  shows "\<exists>ts. untar file = Some ts \<and> archive_spec (withDefaults opts) ts r"
proof -
  note pos = withDefaults_pos [of opts] withDefaults_sane [OF assms(1)]
  from assms(2) obtain ts seen where ts: "untar file = Some ts"
    and v: "validate_entries ctx (withDefaults opts) (corrupt ts) 0 [] [] False (members ts)
              = Inr (seen, Metadata r, SentryLogPresent r)"
    and f: "set requiredEntries \<subseteq> set seen"
    by (rule ValidateArchive_InrE)
  from v f show ?thesis
    by (simp add: ts archive_spec_def validate_entries_iff [OF pos])
qed

lemma archive_spec_member:
  "archive_spec opts ts r \<Longrightarrow> e \<in> set (members ts) \<Longrightarrow> entry_ok opts e"
  by (auto simp: archive_spec_def list_all_iff)

section \<open>The walk over the log entries\<close>

lemma logEntries_iff [simp]: "n \<in> set logEntries \<longleftrightarrow> is_log_name n"
  by (auto simp: logEntries_def is_log_name_def)

text \<open>With a callback that never stops it, the walk is a fold over the log entries.\<close>

lemma scan_entries_fold:
  assumes "\<And>i. \<not> ctx i" and "\<And>n b s. fn n b s = (g n b s, None)"
  shows "scan_entries ctx opts False fn i s es =
    (fold (\<lambda>e s. g (hdr_name e) (limit_reader (MaxLogSize opts) (body e)) s)
       (filter (\<lambda>e. is_log_name (hdr_name e)) es) s, None)"
  using assms by (induction es arbitrary: i s) auto

lemma limit_reader_whole: "0 < m \<Longrightarrow> log_body_ok m b \<Longrightarrow> limit_reader m b = b"
  by (cases b) (auto simp: log_body_ok_def limit_reader_def limit_to_def)

lemma scan_bodies_whole:
  assumes "0 < MaxLogSize opts" and "list_all (entry_ok opts) es"
  shows "map (\<lambda>e. (hdr_name e, limit_reader (MaxLogSize opts) (body e)))
           (filter (\<lambda>e. is_log_name (hdr_name e)) es)
       = map (\<lambda>e. (hdr_name e, body e)) (filter (\<lambda>e. is_log_name (hdr_name e)) es)"
  using assms by (induction es) (auto simp: entry_ok_def limit_reader_whole)

lemma fold_collect: "fold (\<lambda>e vs. vs @ [h e]) es vs = vs @ map h es"
  by (induction es arbitrary: vs) auto

text \<open>Over an accepted archive the walk hands out every log entry, in archive order, once each
  and whole; the validator log is among them, the sentry log exactly when validation reported it.\<close>

theorem ScanLogs_visits:
  assumes "sane opts" and acc: "ValidateArchive untar ctx file opts = Inr r"
    and live: "\<And>i. \<not> ctx' i"
  shows "\<exists>vs. ScanLogs untar ctx' file opts (\<lambda>n b vs. (vs @ [(n, b)], None :: unit option)) [] = (vs, None)
           \<and> distinct (map fst vs)
           \<and> ValidatorLogFileName \<in> fst ` set vs
           \<and> fst ` set vs \<subseteq> {ValidatorLogFileName, SentryLogFileName}
           \<and> (SentryLogFileName \<in> fst ` set vs) = SentryLogPresent r
           \<and> list_all (\<lambda>v. log_body_ok (MaxLogSize (withDefaults opts)) (snd v)) vs"
proof -
  let ?o = "withDefaults opts"
  obtain ts where ts: "untar file = Some ts" and sp: "archive_spec ?o ts r"
    using ValidateArchive_sound [OF assms(1) acc] by blast
  let ?es = "filter (\<lambda>e. is_log_name (hdr_name e)) (members ts)"
  let ?vs = "map (\<lambda>e. (hdr_name e, body e)) ?es"
  have ok: "list_all (entry_ok ?o) (members ts)" and nc: "corrupt ts = False"
    using sp by (auto simp: archive_spec_def)
  have "ScanLogs untar ctx' file opts (\<lambda>n b vs. (vs @ [(n, b)], None :: unit option)) [] = (?vs, None)"
    by (simp add: ScanLogs_def ts nc Let_def live fold_collect
        scan_entries_fold [where g = "\<lambda>n b vs. vs @ [(n, b)]"]
        scan_bodies_whole [OF withDefaults_pos(1) ok])
  moreover have "distinct (map hdr_name ?es)"
    using sp by (auto simp: archive_spec_def intro: distinct_map_filter)
  moreover have "list_all (\<lambda>v. log_body_ok (MaxLogSize ?o) (snd v)) ?vs"
    using ok by (auto simp: list_all_iff entry_ok_def split: if_splits)
  moreover have "fst ` set ?vs = {n \<in> hdr_name ` set (members ts). is_log_name n}"
    by force
  ultimately show ?thesis
    using sp by (auto simp: archive_spec_def requiredEntries_def is_log_name_def comp_def)
qed

section \<open>The limit at the top of the range\<close>

lemma readBounded_overflow: "readBounded r truncated max_int64 = (0, (CHR 0x00, CHR 0x00), False)"
proof -
  have "wrap64 (max_int64 + 1) = min_int64"
    by (simp add: wrap64_def max_int64_def min_int64_def)
  then show ?thesis
    by (simp add: readBounded_def Let_def limit_reader_def min_int64_def byte_at_def)
qed

lemma validate_entries_overflow:
  assumes "MaxLogSize opts = max_int64"
    and "validate_entries ctx opts c i seen md sp es = Inr (seen', md', sp')"
    and "ValidatorLogFileName \<notin> set seen"
  shows "ValidatorLogFileName \<notin> set seen'"
  using assms(2,3)
proof (induction es arbitrary: i seen md sp)
  case (Cons e es)
  then show ?case
    by (auto simp: Let_def assms(1) readBounded_overflow is_log_name_def split: if_splits)
qed (auto split: if_splits)

text \<open>With the log limit set to the largest \<open>int64\<close>, reading ``one past the limit'' wraps to a
  negative bound, every log entry reads as empty and no archive is accepted at all.\<close>

theorem ValidateArchive_max_limit_rejects:
  "ValidateArchive untar ctx file (opts\<lparr>MaxLogSize := max_int64\<rparr>) \<noteq> Inr r"
proof
  let ?o = "withDefaults (opts\<lparr>MaxLogSize := max_int64\<rparr>)"
  assume "ValidateArchive untar ctx file (opts\<lparr>MaxLogSize := max_int64\<rparr>) = Inr r"
  then obtain ts seen where "untar file = Some ts"
    and v: "validate_entries ctx ?o (corrupt ts) 0 [] [] False (members ts)
            = Inr (seen, Metadata r, SentryLogPresent r)"
    and f: "set requiredEntries \<subseteq> set seen"
    by (rule ValidateArchive_InrE)
  have "MaxLogSize ?o = max_int64" by (simp add: withDefaults_def max_int64_def)
  from validate_entries_overflow [OF this v] have "ValidatorLogFileName \<notin> set seen" by simp
  with f show False by (simp add: requiredEntries_def)
qed

section \<open>Concrete instances\<close>

text \<open>An archive with a validator log and metadata, and what its validation returns.\<close>

definition sample_tar :: "bytes \<Rightarrow> tar_stream" where
  "sample_tar lines =
     \<lparr>members =
        [\<lparr>hdr_name = ValidatorLogFileName, typeflag = TypeReg, body = whole ([CHR 0x1F, CHR 0x8B] @ lines), body_cut = False\<rparr>,
         \<lparr>hdr_name = MetadataFileName, typeflag = TypeReg, body = whole ''{}'', body_cut = False\<rparr>],
      corrupt = False\<rparr>"

definition sample_options :: options where
  "sample_options = \<lparr>MaxLogSize = 1000, MaxMetadataSize = 100\<rparr>"

definition sample_result :: archive_result where
  "sample_result = \<lparr>Metadata = ''{}'', SentryLogPresent = False\<rparr>"

lemma sample_sane: "sane sample_options" "withDefaults sample_options = sample_options"
  by (simp_all add: sane_def sample_options_def max_int64_def withDefaults_def)

lemma sample_archive_spec: "length ls \<le> 900 \<Longrightarrow> archive_spec sample_options (sample_tar ls) sample_result"
  by (simp add: archive_spec_def sample_tar_def sample_options_def sample_result_def entry_ok_def allowedEntries_def
      log_body_ok_def meta_body_ok_def is_log_name_def requiredEntries_def entry_names)

lemma sample_accepted:
  assumes "length ls \<le> 900"
  shows "ValidateArchive (\<lambda>_. Some (sample_tar ls)) (\<lambda>_. False) d sample_options = Inr sample_result"
proof -
  have "nat (wrap64 1001) = 1001" "nat (wrap64 101) = 101" by (simp_all add: in_int64_def)
  with assms show ?thesis
    unfolding ValidateArchive_def sample_sane
    by (simp add: sample_tar_def sample_options_def sample_result_def allowedEntries_def entry_names TypeReg_def
        readBounded_def limit_reader_def byte_at_def requiredEntries_def Let_def)
qed

theorem ValidateArchive_iff_witness:
  "ValidateArchive (\<lambda>_. Some (sample_tar [])) (\<lambda>_. False) [] sample_options = Inr sample_result"
  using ValidateArchive_iff [OF sample_sane(1), of "\<lambda>_. False" "\<lambda>_. Some (sample_tar [])" "[]" sample_result]
    sample_archive_spec [of "[]"] by (simp add: sample_sane)

theorem ScanLogs_visits_witness:
  "\<exists>vs. ScanLogs (\<lambda>_. Some (sample_tar [])) (\<lambda>_. False) [] sample_options (\<lambda>n b vs. (vs @ [(n, b)], None :: unit option)) []
     = (vs, None) \<and> ValidatorLogFileName \<in> fst ` set vs \<and> SentryLogFileName \<notin> fst ` set vs"
  using ScanLogs_visits [OF sample_sane(1) sample_accepted [of "[]" "[]"], of "\<lambda>_. False"]
  by (auto simp: sample_result_def)

end
