(* ===== verification/Log_Window.thy ===== *)
theory Log_Window
  imports Scoring Submission_Metadata Submission_Archive
begin

text \<open>
  \<^verbatim>\<open>src/scoring/checks.go\<close>: the automatic checks. Timestamps are recovered from log lines in three
  passes, and a scan over a log's lines establishes which part of the investigation window it
  covers.

  Parameters: \<open>gunzip\<close> is \<open>gzip.NewReader\<close> on an entry, \<open>None\<close> when it refuses the header and
  otherwise the decompressed stream; \<open>json_ts\<close> decodes a line as \<open>jsonLogLine\<close> and splits its
  floating point \<^verbatim>\<open>ts\<close> into whole seconds and nanoseconds, \<open>None\<close> when there is no such number.
\<close>

section \<open>Constants and the metadata checks\<close>

type_synonym gunzip = "stream \<Rightarrow> stream option"
type_synonym json_ts = "string \<Rightarrow> (int \<times> int) option"

definition maxLogWindowBytes :: int where "maxLogWindowBytes = 8 * 2 ^ 30"
definition maxLogLineBytes :: nat where "maxLogLineBytes = 2 ^ 20"
definition timestampSearchBytes :: nat where "timestampSearchBytes = 256"
definition windowGrace :: int where "windowGrace = minute"

definition MetadataChecks :: "metadata \<Rightarrow> config \<Rightarrow> bool \<times> bool" where
  "MetadataChecks meta cfg =
     (equal_fold (trim_space (GenesisSHA256 meta)) (trim_space (ExpectedGenesisSHA256 cfg)),
      list_ex (\<lambda>v. trim_space v = trim_space (GnolandVersion meta)) (SupportedGnolandVersions cfg))"

section \<open>Timestamps\<close>

text \<open>
  \<open>timestampLayouts\<close>, in order. The layouts with and without a nine-digit fraction read the same
  strings: \<open>time.Parse\<close> takes a fraction after the seconds in either case.
\<close>

definition timestampLayouts :: "zone_style list" where
  "timestampLayouts = [ISO8601ColonTZ, ISO8601ColonTZ, NumTZ, NumTZ]"

fun first_layout :: "zone_style list \<Rightarrow> string \<Rightarrow> gotime option" where
  "first_layout [] field = None"
| "first_layout (l # ls) field =
     (case parse_datetime l field of Some ts \<Rightarrow> Some ts | None \<Rightarrow> first_layout ls field)"

definition parseTimestampField :: "string \<Rightarrow> gotime option" where
  "parseTimestampField field = first_layout timestampLayouts field"

text \<open>
  \<open>timestampRe\<close> at the start of a string: the length of the match. Every group of the expression
  is forced by the next character, so there is one way to match.
\<close>

definition frac_len :: "string \<Rightarrow> nat" where
  "frac_len s =
     (case s of
        c # d # _ \<Rightarrow> if c = CHR ''.'' \<and> is_digit d then 1 + length (takeWhile is_digit (tl s)) else 0
      | _ \<Rightarrow> 0)"

definition zone_len :: "string \<Rightarrow> nat option" where
  "zone_len s =
     (case s of
        [] \<Rightarrow> None
      | c # t \<Rightarrow>
          if c = CHR ''Z'' then Some 1
          else if (c = CHR ''+'' \<or> c = CHR ''-'') \<and> 2 \<le> length t \<and> list_all is_digit (take 2 t) then
            (let u = drop 2 t; v = (if take 1 u = '':'' then drop 1 u else u) in
             if 2 \<le> length v \<and> list_all is_digit (take 2 v)
             then Some (3 + (length u - length v) + 2) else None)
          else None)"

definition date_shape :: "string \<Rightarrow> bool" where
  "date_shape s \<longleftrightarrow>
     19 \<le> length s \<and> list_all (\<lambda>i. is_digit (s ! i)) [0, 1, 2, 3, 5, 6, 8, 9, 11, 12, 14, 15, 17, 18]
     \<and> s ! 4 = CHR ''-'' \<and> s ! 7 = CHR ''-'' \<and> s ! 10 = CHR ''T'' \<and> s ! 13 = CHR '':'' \<and> s ! 16 = CHR '':''"

definition match_here :: "string \<Rightarrow> nat option" where
  "match_here s =
     (if date_shape s then
        (let k = 19 + frac_len (drop 19 s) in map_option ((+) k) (zone_len (drop k s)))
      else None)"

text \<open>\<open>timestampRe.FindString\<close>: the leftmost match.\<close>

fun timestampRe :: "string \<Rightarrow> string option" where
  "timestampRe [] = None"
| "timestampRe (c # s) =
     (case match_here (c # s) of Some n \<Rightarrow> Some (take n (c # s)) | None \<Rightarrow> timestampRe s)"

definition index_byte :: "char \<Rightarrow> string \<Rightarrow> nat option" where
  "index_byte c s = (if c \<in> set s then Some (length (takeWhile (\<lambda>d. d \<noteq> c) s)) else None)"

definition could_start :: "string \<Rightarrow> nat \<Rightarrow> bool" where
  "could_start s i \<longleftrightarrow>
     10 \<le> i \<and> is_digit (s ! (i - 4)) \<and> s ! (i - 6) = CHR ''-'' \<and> s ! (i - 3) = CHR ''-''
     \<and> is_digit (s ! (i - 10))"

lemma index_byte_Some:
  assumes "index_byte c s = Some j" shows "j < length s" "s ! j = c"
proof -
  have c: "c \<in> set s" and j: "j = length (takeWhile (\<lambda>d. d \<noteq> c) s)"
    using assms by (auto simp: index_byte_def split: if_splits)
  from c show less: "j < length s" unfolding j by (induction s) auto
  show "s ! j = c" using nth_length_takeWhile [of "\<lambda>d. d \<noteq> c" s] less by (simp add: j)
qed

function index_from :: "string \<Rightarrow> nat \<Rightarrow> nat option" where
  "index_from s off =
     (case index_byte (CHR ''T'') (drop off s) of
        None \<Rightarrow> None
      | Some j \<Rightarrow>
          if could_start s (off + j) then Some (off + j - 10) else index_from s (off + j + 1))"
  by pat_completeness auto
termination
proof (relation "measure (\<lambda>(s, off). length s - off)", goal_cases)
  case (2 s off j)
  then have "j < length (drop off s)" using index_byte_Some(1) by blast
  then show ?case by simp
qed simp

declare index_from.simps [simp del]

definition indexTimestamp :: "string \<Rightarrow> nat option" where
  "indexTimestamp s = index_from s 0"

definition parseJSONTimestamp :: "json_ts \<Rightarrow> string \<Rightarrow> gotime option" where
  "parseJSONTimestamp json_ts line =
     (let trimmed = trim_space line in
      if \<not> has_prefix trimmed ''{'' then None
      else map_option (\<lambda>(sec, nsec). time_unix sec nsec) (json_ts trimmed))"

definition parseLeadingTimestamp :: "json_ts \<Rightarrow> string \<Rightarrow> gotime option" where
  "parseLeadingTimestamp json_ts line =
     (let field = takeWhile (\<lambda>c. c \<noteq> CHR '' '' \<and> c \<noteq> tab) line;
          pass1 = (if 0 < length field \<and> length field \<le> 64 then parseTimestampField field else None)
      in case pass1 of
           Some ts \<Rightarrow> Some ts
         | None \<Rightarrow>
             (let head = take timestampSearchBytes line;
                  pass2 = (case indexTimestamp head of
                             None \<Rightarrow> None
                           | Some i \<Rightarrow>
                               (case timestampRe (drop i head) of
                                  None \<Rightarrow> None
                                | Some m \<Rightarrow> parseTimestampField m))
              in case pass2 of Some ts \<Rightarrow> Some ts | None \<Rightarrow> parseJSONTimestamp json_ts line))"

section \<open>The scan\<close>

text \<open>The earliest and the latest timestamp seen so far.\<close>

fun observe :: "(gotime \<times> gotime) option \<Rightarrow> gotime \<Rightarrow> (gotime \<times> gotime) option" where
  "observe None ts = Some (ts, ts)"
| "observe (Some (fst_seen, lst_seen)) ts =
     Some (if before ts fst_seen then ts else fst_seen, if after ts lst_seen then ts else lst_seen)"

definition observe_line ::
  "json_ts \<Rightarrow> (gotime \<times> gotime) option \<Rightarrow> string \<Rightarrow> (gotime \<times> gotime) option" where
  "observe_line json_ts st line =
     (case parseLeadingTimestamp json_ts line of None \<Rightarrow> st | Some ts \<Rightarrow> observe st ts)"

text \<open>Whether the budget, not the log, ended the scan: \<open>left\<close> is what remains of it.\<close>

definition scanHitCap :: "int \<Rightarrow> stream \<Rightarrow> bool" where
  "scanHitCap left gz_rest \<longleftrightarrow> \<not> 0 < left \<and> 0 < length (sdata gz_rest)"

definition covers :: "config \<Rightarrow> gotime \<Rightarrow> gotime \<Rightarrow> bool" where
  "covers cfg fst_seen lst_seen \<longleftrightarrow>
     \<not> after fst_seen (time_add (InvestigationWindowStart cfg) windowGrace)
     \<and> \<not> before lst_seen (time_add (InvestigationWindowEnd cfg) (- windowGrace))"

definition scanLogWindow ::
  "gunzip \<Rightarrow> json_ts \<Rightarrow> nat \<Rightarrow> stream \<Rightarrow> config \<Rightarrow> int \<Rightarrow> log_window_check" where
  "scanLogWindow gunzip json_ts maxline logGz cfg budget =
     (case gunzip logGz of
        None \<Rightarrow> zero_check
      | Some gz \<Rightarrow>
          (let bounded = limit_reader budget gz in
           case scan_lines maxline 0 (sdata bounded) of
             (lines, n, long) \<Rightarrow>
               (let span = fold (\<lambda>line st. observe_line json_ts st line) lines None;
                    scanned = int n;
                    truncated = (long \<or> sbroken bounded \<or> scanHitCap (budget - scanned) (advance n gz))
                in case span of
                     None \<Rightarrow> zero_check\<lparr>Truncated := truncated, ScannedBytes := scanned\<rparr>
                   | Some (fst_seen, lst_seen) \<Rightarrow>
                       \<lparr>Detected = True, Covered = covers cfg fst_seen lst_seen,
                        Truncated = truncated, FirstSeen = fst_seen, LastSeen = lst_seen,
                        ScannedBytes = scanned\<rparr>)))"

definition ScanLogWindow :: "gunzip \<Rightarrow> json_ts \<Rightarrow> stream \<Rightarrow> config \<Rightarrow> log_window_check" where
  "ScanLogWindow gunzip json_ts logGz cfg =
     scanLogWindow gunzip json_ts maxLogLineBytes logGz cfg maxLogWindowBytes"


section \<open>The byte scan in front of the regular expression\<close>

lemma index_byte_first: "index_byte c s = Some j \<Longrightarrow> i < j \<Longrightarrow> s ! i \<noteq> c"
proof -
  assume "index_byte c s = Some j" "i < j"
  then have "i < length (takeWhile (\<lambda>d. d \<noteq> c) s)" by (simp add: index_byte_def split: if_splits)
  then show "s ! i \<noteq> c" using set_takeWhileD [OF nth_mem, of i "\<lambda>d. d \<noteq> c" s] by (simp add: takeWhile_nth)
qed

lemma index_byte_None: "index_byte c s = None \<longleftrightarrow> c \<notin> set s"
  by (simp add: index_byte_def)

lemma index_byte_drop:
  assumes "index_byte c (drop off s) = Some j"
  shows "off + j < length s" "s ! (off + j) = c" "\<And>i. off \<le> i \<Longrightarrow> i < off + j \<Longrightarrow> s ! i \<noteq> c"
proof -
  show less: "off + j < length s" and "s ! (off + j) = c"
    using index_byte_Some [OF assms] by auto
  fix i assume i: "off \<le> i" "i < off + j"
  then show "s ! i \<noteq> c"
    using index_byte_first [OF assms, of "i - off"] less by simp
qed

text \<open>What the byte scan returns: ten bytes before the first \<open>T\<close> that could belong to a date.\<close>

lemma index_from_spec:
  "case index_from s off of
     None \<Rightarrow> \<forall>i\<ge>off. i < length s \<longrightarrow> s ! i = CHR ''T'' \<longrightarrow> \<not> could_start s i
   | Some k \<Rightarrow> \<forall>i\<ge>off. i < k + 10 \<longrightarrow> s ! i = CHR ''T'' \<longrightarrow> \<not> could_start s i"
proof (induction s off rule: index_from.induct)
  case (1 s off)
  show ?case
  proof (cases "index_byte (CHR ''T'') (drop off s)")
    case None
    then have "CHR ''T'' \<notin> set (drop off s)" by (simp add: index_byte_None)
    moreover have "s ! i \<in> set (drop off s)" if "off \<le> i" "i < length s" for i
      using that nth_mem [of "i - off" "drop off s"] by simp
    ultimately have "\<forall>i\<ge>off. i < length s \<longrightarrow> s ! i \<noteq> CHR ''T''" by metis
    with None show ?thesis by (simp add: index_from.simps [of s off])
  next
    case (Some j)
    note ib = index_byte_drop [OF Some]
    show ?thesis
    proof (cases "could_start s (off + j)")
      case True
      then have "10 \<le> off + j" by (simp add: could_start_def)
      with Some True ib(3) show ?thesis by (auto simp: index_from.simps [of s off])
    next
      case False
      have step: "index_from s off = index_from s (off + j + 1)"
        using Some False by (simp add: index_from.simps [of s off])
      have below: "s ! i \<noteq> CHR ''T'' \<or> \<not> could_start s i" if "off \<le> i" "i < off + j + 1" for i
        using that ib(3) [of i] False by (cases "i = off + j") auto
      show ?thesis
        using "1.IH" [OF Some False] below unfolding step
        by (auto split: option.splits) (metis Suc_eq_plus1 not_less_eq_eq not_le)+
    qed
  qed
qed

lemma match_could_start:
  assumes "match_here (drop j s) = Some n"
  shows "j + 10 < length s" "s ! (j + 10) = CHR ''T''" "could_start s (j + 10)"
proof -
  have d: "date_shape (drop j s)" using assms by (simp add: match_here_def split: if_splits)
  then have len: "j + 19 \<le> length s" by (auto simp: date_shape_def)
  then show "j + 10 < length s" by simp
  have nth: "drop j s ! i = s ! (j + i)" for i using len by simp
  show "s ! (j + 10) = CHR ''T''" using d by (simp add: date_shape_def nth)
  have "s ! j = s ! (j + 0)" by simp
  then show "could_start s (j + 10)"
    using d by (simp add: date_shape_def nth could_start_def add.commute)
qed

lemma timestampRe_skip:
  "(\<And>j. j < k \<Longrightarrow> match_here (drop j s) = None) \<Longrightarrow> timestampRe s = timestampRe (drop k s)"
proof (induction k arbitrary: s)
  case (Suc k)
  show ?case
  proof (cases s)
    case (Cons c t)
    have "match_here (drop 0 s) = None" using Suc.prems by blast
    moreover have "\<And>j. j < k \<Longrightarrow> match_here (drop j t) = None"
      using Suc.prems [of "Suc _"] by (simp add: Cons)
    ultimately show ?thesis using Suc.IH [of t] by (simp add: Cons)
  qed simp
qed simp

text \<open>C34: searching for a timestamp with the cheap byte scan in front gives what running the regular
  expression over the whole head would: no line loses its timestamp to the shortcut.\<close>

theorem indexTimestamp_prefilter:
  "(case indexTimestamp s of None \<Rightarrow> None | Some i \<Rightarrow> timestampRe (drop i s)) = timestampRe s"
proof (cases "indexTimestamp s")
  case None
  then have no: "\<not> could_start s i" if "i < length s" "s ! i = CHR ''T''" for i
    using that index_from_spec [where s = s and off = 0] by (auto simp: indexTimestamp_def)
  then have "match_here (drop j s) = None" for j
    using match_could_start [of j s] by (cases "match_here (drop j s)") auto
  then have "timestampRe s = timestampRe (drop (length s) s)" by (intro timestampRe_skip) auto
  with None show ?thesis by simp
next
  case (Some k)
  then have no: "\<not> could_start s i" if "i < k + 10" "s ! i = CHR ''T''" for i
    using that index_from_spec [where s = s and off = 0] by (auto simp: indexTimestamp_def)
  then have "match_here (drop j s) = None" if "j < k" for j
    using that match_could_start [of j s] by (cases "match_here (drop j s)") auto
  then have "timestampRe s = timestampRe (drop k s)" by (intro timestampRe_skip) auto
  with Some show ?thesis by simp
qed

section \<open>The span of the timestamps\<close>

definition line_times :: "json_ts \<Rightarrow> string list \<Rightarrow> gotime list" where
  "line_times json_ts lines = List.map_filter (parseLeadingTimestamp json_ts) lines"

lemma fold_observe_line:
  "fold (\<lambda>line st. observe_line json_ts st line) lines st =
   fold (\<lambda>ts st. observe st ts) (line_times json_ts lines) st"
  by (induction lines arbitrary: st) (auto simp: observe_line_def line_times_def List.map_filter_simps split: option.splits)

lemma fold_observe_Some:
  "fold (\<lambda>ts st. observe st ts) tss (Some (f, l)) = Some (f', l') \<Longrightarrow>
     f' \<in> insert f (set tss) \<and> l' \<in> insert l (set tss)
     \<and> (\<forall>t \<in> insert f (set tss). instant f' \<le> instant t)
     \<and> (\<forall>t \<in> insert l (set tss). instant t \<le> instant l')"
proof (induction tss arbitrary: f l)
  case (Cons t tss)
  from Cons.IH [OF Cons.prems [simplified]] show ?case
    by (auto simp: before_def after_def split: if_splits)
qed auto

lemma fold_observe_total: "\<exists>f' l'. fold (\<lambda>ts st. observe st ts) tss (Some (f, l)) = Some (f', l')"
  by (induction tss arbitrary: f l) auto

lemma fold_observe_None:
  "fold (\<lambda>ts st. observe st ts) tss None = None \<longleftrightarrow> tss = []"
  by (cases tss) (use fold_observe_total in \<open>force+\<close>)

lemma fold_observe_span:
  assumes "fold (\<lambda>ts st. observe st ts) tss None = Some (f, l)"
  shows "f \<in> set tss" "l \<in> set tss" "\<And>t. t \<in> set tss \<Longrightarrow> instant f \<le> instant t \<and> instant t \<le> instant l"
proof -
  obtain t tss' where tss: "tss = t # tss'" using assms by (cases tss) auto
  then have "fold (\<lambda>ts st. observe st ts) tss' (Some (t, t)) = Some (f, l)" using assms by simp
  from fold_observe_Some [OF this] show "f \<in> set tss" "l \<in> set tss"
    "\<And>u. u \<in> set tss \<Longrightarrow> instant f \<le> instant u \<and> instant u \<le> instant l"
    by (auto simp: tss)
qed

text \<open>The timestamps a scan under a budget gets to see.\<close>

definition seen_times :: "json_ts \<Rightarrow> nat \<Rightarrow> stream \<Rightarrow> int \<Rightarrow> gotime list" where
  "seen_times json_ts maxline gz budget =
     line_times json_ts (fst (scan_lines maxline 0 (sdata (limit_reader budget gz))))"

lemma scanLogWindow_last:
  assumes "gunzip logGz = Some gz" "t \<in> set (seen_times json_ts maxline gz budget)"
  shows "instant t \<le> instant (LastSeen (scanLogWindow gunzip json_ts maxline logGz cfg budget))"
proof -
  obtain ls n long where sl: "scan_lines maxline 0 (sdata (limit_reader budget gz)) = (ls, n, long)" by (metis prod_cases3)
  let ?tss = "line_times json_ts ls"
  have t: "t \<in> set ?tss" using assms(2) by (simp add: seen_times_def sl)
  then obtain f l where p: "fold (\<lambda>ts st. observe st ts) ?tss None = Some (f, l)"
    using fold_observe_None [of ?tss] by (cases "fold (\<lambda>ts st. observe st ts) ?tss None") auto
  with fold_observe_span [OF p] t show ?thesis
    by (auto simp: scanLogWindow_def assms(1) Let_def sl fold_observe_line)
qed

section \<open>How much was read\<close>

lemma scanLogWindow_fields:
  assumes "gunzip logGz = Some gz"
    and "scan_lines maxline 0 (sdata (limit_reader budget gz)) = (ls, n, long)"
  shows "ScannedBytes (scanLogWindow gunzip json_ts maxline logGz cfg budget) = int n"
    and "Truncated (scanLogWindow gunzip json_ts maxline logGz cfg budget) =
         (long \<or> sbroken (limit_reader budget gz) \<or> scanHitCap (budget - int n) (advance n gz))"
  using assms by (simp_all add: scanLogWindow_def Let_def split: option.splits)

lemma untruncated_fits:
  assumes "gunzip logGz = Some gz" "\<not> Truncated (scanLogWindow gunzip json_ts maxline logGz cfg budget)"
  shows "length (sdata gz) \<le> nat budget" "sdata (limit_reader budget gz) = sdata gz"
proof -
  obtain ls n long where sl: "scan_lines maxline 0 (sdata (limit_reader budget gz)) = (ls, n, long)"
    by (metis prod_cases3)
  note f = scanLogWindow_fields [where gunzip = gunzip and logGz = logGz, OF assms(1) sl]
  show "length (sdata gz) \<le> nat budget"
    using assms(2) scan_lines_count [OF sl] unfolding f(2)
    by (auto simp: limit_reader_simps scanHitCap_def min_def split: if_splits)
  then show "sdata (limit_reader budget gz) = sdata gz" by (simp add: limit_reader_simps)
qed

text \<open>A scan never reads more than its budget, and one not reported as truncated has read the log to
  its end: every byte was counted, every line was looked at, and the log was not cut short by an
  error of its decompression.\<close>

theorem scanLogWindow_complete:
  assumes "gunzip logGz = Some gz" and "0 \<le> budget"
  shows "0 \<le> ScannedBytes (scanLogWindow gunzip json_ts maxline logGz cfg budget)
     \<and> ScannedBytes (scanLogWindow gunzip json_ts maxline logGz cfg budget) \<le> budget
     \<and> (\<not> Truncated (scanLogWindow gunzip json_ts maxline logGz cfg budget) \<longrightarrow>
          ScannedBytes (scanLogWindow gunzip json_ts maxline logGz cfg budget) = int (length (sdata gz))
          \<and> seen_times json_ts maxline gz budget = line_times json_ts (fst (scan_lines maxline 0 (sdata gz)))
          \<and> (sbroken gz \<longrightarrow> int (length (sdata gz)) = budget))"
proof -
  obtain ls n long where sl: "scan_lines maxline 0 (sdata (limit_reader budget gz)) = (ls, n, long)"
    by (metis prod_cases3)
  note f = scanLogWindow_fields [where gunzip = gunzip and logGz = logGz, OF assms(1) sl]
    and c = scan_lines_count [OF sl]
  have n: "n \<le> nat budget" using c by (auto simp: limit_reader_simps)
  have all: "n = length (sdata gz) \<and> (sbroken gz \<longrightarrow> length (sdata gz) = nat budget)"
    if t: "\<not> Truncated (scanLogWindow gunzip json_ts maxline logGz cfg budget)"
    using t c untruncated_fits [where gunzip = gunzip and logGz = logGz, OF assms(1) t] unfolding f(2)
    by (auto simp: limit_reader_simps)
  then have "take (nat budget) (sdata gz) = sdata gz"
    if "\<not> Truncated (scanLogWindow gunzip json_ts maxline logGz cfg budget)"
    using that untruncated_fits(1) [where gunzip = gunzip and logGz = logGz, OF assms(1) that] by simp
  with all n assms(2) show ?thesis by (auto simp: f(1) seen_times_def limit_reader_simps)
qed

text \<open>Whether timestamps lie on both sides of the investigation window, up to a minute of grace.\<close>

definition spans :: "config \<Rightarrow> gotime list \<Rightarrow> bool" where
  "spans cfg tss \<longleftrightarrow>
     (\<exists>t\<in>set tss. instant t \<le> instant (InvestigationWindowStart cfg) + minute)
     \<and> (\<exists>t\<in>set tss. instant (InvestigationWindowEnd cfg) - minute \<le> instant t)"

text \<open>C33: a log counts as covering the window exactly when among the timestamps read there is one no
  later than a minute past its start and one no earlier than a minute before its end, in whatever
  order the lines come; \<open>FirstSeen\<close> and \<open>LastSeen\<close> are the earliest and the latest of them. A scan that is not
  marked as truncated has read the timestamps of the whole log, so there \<open>Covered\<close> is about the log. A log longer than the budget
  is always marked as truncated; \<open>Covered\<close> does not depend on the mark, so such a scan can be covered as well, when what it read
  already lies on both sides. The comment in \<^verbatim>\<open>score.go\<close> says that never happens.\<close>

theorem scanLogWindow_coverage:
  fixes gunzip :: gunzip and json_ts :: json_ts and maxline :: nat and logGz :: stream
    and cfg :: config and budget :: int and gz :: stream
  assumes "gunzip logGz = Some gz"
  defines "w \<equiv> scanLogWindow gunzip json_ts maxline logGz cfg budget"
    and "tss \<equiv> seen_times json_ts maxline gz budget"
  shows "Detected w = (tss \<noteq> []) \<and> Covered w = spans cfg tss
     \<and> (tss \<noteq> [] \<longrightarrow> FirstSeen w \<in> set tss \<and> LastSeen w \<in> set tss
          \<and> (\<forall>t\<in>set tss. instant (FirstSeen w) \<le> instant t \<and> instant t \<le> instant (LastSeen w)))
     \<and> (\<not> Truncated w \<longrightarrow> tss = line_times json_ts (fst (scan_lines maxline 0 (sdata gz))))
     \<and> (nat budget < length (sdata gz) \<longrightarrow> Truncated w)"
proof -
  obtain lines n long where sl: "scan_lines maxline 0 (sdata (limit_reader budget gz)) = (lines, n, long)"
    by (metis prod_cases3)
  let ?span = "fold (\<lambda>ts st. observe st ts) tss None"
  have tss: "tss = line_times json_ts lines" by (simp add: tss_def seen_times_def sl)
  note fits = untruncated_fits [where gunzip = gunzip and logGz = logGz, OF assms(1), of json_ts maxline cfg budget]
  have full: "\<not> Truncated w \<Longrightarrow> tss = line_times json_ts (fst (scan_lines maxline 0 (sdata gz)))"
    using fits(2) by (simp add: w_def tss_def seen_times_def)
  have cap: "Truncated w" if "nat budget < length (sdata gz)"
    using that fits(1) unfolding w_def by fastforce
  show ?thesis
  proof (cases ?span)
    case None
    then have "tss = []" by (simp add: fold_observe_None)
    moreover have "\<not> Detected w" "\<not> Covered w"
      using None by (simp_all add: w_def scanLogWindow_def assms(1) Let_def sl fold_observe_line tss zero_check_def)
    ultimately show ?thesis using full cap by (simp add: spans_def)
  next
    case (Some p)
    obtain f l where p: "?span = Some (f, l)" using Some by (cases p) auto
    then have w: "Detected w" "Covered w = covers cfg f l" "FirstSeen w = f" "LastSeen w = l"
      by (simp_all add: w_def scanLogWindow_def assms(1) Let_def sl fold_observe_line tss)
    have ne: "tss \<noteq> []" using p by auto
    note sp = fold_observe_span [OF p]
    have "covers cfg f l \<longleftrightarrow> spans cfg tss"
      using sp by (force simp: covers_def spans_def after_def before_def windowGrace_def)
    with w ne sp full cap show ?thesis by blast
  qed
qed

text \<open>A log of two lines, and the window between them.\<close>

definition two_lines :: bytes where
  "two_lines = ''2024-01-01T00:00:00Z'' @ [nl] @ ''2024-01-02T00:00:00Z'' @ [nl]"

definition two_days :: config where
  "two_days = zero_config
     \<lparr>InvestigationWindowStart := Time (date_instant 2024 1 1 0 0 0 0) 0,
      InvestigationWindowEnd := Time (date_instant 2024 1 2 0 0 0 0) 0\<rparr>"

lemma scan_two_lines:
  "scan_lines maxLogLineBytes 0 (take (nat 42) (two_lines @ ''x'')) =
     ([''2024-01-01T00:00:00Z'', ''2024-01-02T00:00:00Z''], 42, False)"
  by (simp add: scan_lines.simps two_lines_def nl_def drop_cr_def cr_def maxLogLineBytes_def)

lemma two_lines_times:
  "fold (\<lambda>line st. observe_line (\<lambda>_. None) st line) [''2024-01-01T00:00:00Z'', ''2024-01-02T00:00:00Z''] None =
     Some (InvestigationWindowStart two_days, InvestigationWindowEnd two_days)"
  by code_simp

text \<open>A scan that stops at the cap reports, apart from the flag \<open>Truncated\<close>, exactly what it would report of a log that
  ended there: \<open>Covered\<close> too looks only at the timestamps that were read, so a truncated scan can count as covering
  the window.\<close>

theorem scanLogWindow_capped:
  assumes "gunzip logGz = Some \<lparr>sdata = before_cap @ rest, sbroken = br\<rparr>" "rest \<noteq> []"
    and "gunzip shortGz = Some (whole before_cap)"
  shows "scanLogWindow gunzip json_ts maxline logGz cfg (int (length before_cap)) =
     (scanLogWindow gunzip json_ts maxline shortGz cfg (int (length before_cap)))\<lparr>Truncated := True\<rparr>"
proof -
  obtain ls n long where sl: "scan_lines maxline 0 before_cap = (ls, n, long)" by (metis prod_cases3)
  have "n = length before_cap" if "\<not> long" using scan_lines_count [OF sl] that by simp
  then have "long \<or> scanHitCap (int (length before_cap) - int n) (advance n \<lparr>sdata = before_cap @ rest, sbroken = br\<rparr>)"
    using assms(2) by (auto simp: scanHitCap_def)
  then show ?thesis
    using assms(1,3) sl
    by (auto simp: scanLogWindow_def Let_def limit_reader_simps whole_def zero_check_def split: option.splits)
qed

section \<open>Concrete instances\<close>

lemma two_lines_seen:
  "seen_times (\<lambda>_. None) maxLogLineBytes (whole (two_lines @ ''x'')) 42 =
     [InvestigationWindowStart two_days, InvestigationWindowEnd two_days]"
proof -
  have "line_times (\<lambda>_. None) [''2024-01-01T00:00:00Z'', ''2024-01-02T00:00:00Z''] =
     [InvestigationWindowStart two_days, InvestigationWindowEnd two_days]" by code_simp
  then show ?thesis using scan_two_lines by (simp add: seen_times_def limit_reader_simps)
qed

text \<open>The log cut at the budget of 42 bytes is covered and truncated; the same log under a larger budget is read to its end.\<close>

theorem scanLogWindow_coverage_witness:
  "Covered (scanLogWindow Some (\<lambda>_. None) maxLogLineBytes (whole (two_lines @ ''x'')) two_days 42)
   \<and> Truncated (scanLogWindow Some (\<lambda>_. None) maxLogLineBytes (whole (two_lines @ ''x'')) two_days 42)
   \<and> Covered (scanLogWindow Some (\<lambda>_. None) maxLogLineBytes (whole two_lines) two_days 100)"
proof -
  have len: "length two_lines = 42" by (simp add: two_lines_def)
  have "seen_times (\<lambda>_. None) maxLogLineBytes (whole two_lines) 100 = seen_times (\<lambda>_. None) maxLogLineBytes (whole (two_lines @ ''x'')) 42"
    using len by (simp add: seen_times_def limit_reader_simps)
  with scanLogWindow_coverage [of Some "whole (two_lines @ ''x'')" "whole (two_lines @ ''x'')" "\<lambda>_. None" maxLogLineBytes two_days 42]
    scanLogWindow_coverage [of Some "whole two_lines" "whole two_lines" "\<lambda>_. None" maxLogLineBytes two_days 100] two_lines_seen len
  show ?thesis by (simp add: spans_def minute_def second_def)
qed

theorem scanLogWindow_capped_witness:
  "Covered (scanLogWindow Some (\<lambda>_. None) maxLogLineBytes (whole (two_lines @ ''x'')) two_days 42)
   \<and> Truncated (scanLogWindow Some (\<lambda>_. None) maxLogLineBytes (whole (two_lines @ ''x'')) two_days 42)"
proof -
  have "int (length two_lines) = 42" by (simp add: two_lines_def)
  moreover have "Covered (scanLogWindow Some (\<lambda>_. None) maxLogLineBytes (whole two_lines) two_days 42)"
    using two_lines_times scan_two_lines calculation
    by (simp add: scanLogWindow_def limit_reader_simps Let_def covers_def after_def before_def windowGrace_def minute_def second_def)
  ultimately show ?thesis
    using scanLogWindow_capped [of Some "whole (two_lines @ ''x'')" two_lines "''x''" False "whole two_lines" "\<lambda>_. None"
        maxLogLineBytes two_days] by (simp add: whole_def)
qed

end
