(* ===== verification/Clamav.thy ===== *)
theory Clamav
  imports Streams Go_Time
begin

text \<open>
  \<^verbatim>\<open>src/clamav\<close>: the verdict of a scan (\<^verbatim>\<open>scanner.go\<close>), the scanner that never finds anything
  (\<^verbatim>\<open>noop.go\<close>), one session with the clamd daemon (\<^verbatim>\<open>clamd.go\<close>) and the scan of a long stream in
  overlapping windows (\<^verbatim>\<open>windowed.go\<close>).

  A scan consumes a reader; besides its verdict or failure, its result says whether it read the
  window to the end of its data, since a broken source is noticed only by a read past that.
\<close>

section \<open>Verdicts\<close>

record verdict =
  Infected :: bool
  Signature :: string

definition clean :: verdict where
  "clean = \<lparr>Infected = False, Signature = []\<rparr>"

datatype scan_failure =
    ConnectFailed
  | StartFailed
  | WriteFailed string
  | ProtocolError string
  | InputFailed
  | NoResponse
  | Unrecognized string
  | Incomplete string
  | ContextErr

type_synonym scan_result = "(scan_failure + verdict) \<times> bool"

definition NoopScanner_Scan :: "stream \<Rightarrow> scan_result" where
  "NoopScanner_Scan r = (if sbroken r then Inl InputFailed else Inr clean, True)"

section \<open>A session with clamd\<close>

text \<open>
  The daemon is a parameter: whether it can be dialled, which of the writes to it fail, and the
  line \<open>br.ReadString\<close> returns once some bytes have been sent to it (\<open>None\<close>: an error).
\<close>

text \<open>What \<open>dial\<close> connects to, and the time a scan may take.\<close>

definition clamd_dial :: "string \<Rightarrow> string \<times> string" where
  "clamd_dial addr = (if has_prefix addr ''unix:'' then (''unix'', trim_prefix addr ''unix:'') else (''tcp'', addr))"

definition clamd_timeout :: "int \<Rightarrow> int" where
  "clamd_timeout timeout = (if timeout \<le> 0 then 30 * second else timeout)"

record daemon =
  refuses :: bool
  write_err :: "nat \<Rightarrow> bool"
  reply :: "bytes \<Rightarrow> string option"

definition limitsExceededPrefix :: string where
  "limitsExceededPrefix = ''Heuristics.Limits.Exceeded''"

definition streamPrefix :: string where "streamPrefix = ''stream:''"

definition chunkSize :: nat where "chunkSize = 2 ^ 20"

text \<open>\<open>binary.BigEndian.PutUint32\<close> of \<open>uint32(n)\<close>.\<close>

definition put_uint32 :: "nat \<Rightarrow> bytes" where
  "put_uint32 n = put_be 4 n"

definition writeFailure :: "string \<Rightarrow> string option \<Rightarrow> scan_failure" where
  "writeFailure stage pending =
     (case pending of
        Some line \<Rightarrow> if has_suffix (trim_space line) ''ERROR'' then ProtocolError (trim_space line)
                     else WriteFailed stage
      | None \<Rightarrow> WriteFailed stage)"

text \<open>
  The loop over \<open>r.Read\<close>: the input is the list of what each read delivers. \<open>k\<close> counts the writes
  made, \<open>sent\<close> collects what they carried.
\<close>

fun send_chunks :: "daemon \<Rightarrow> nat \<Rightarrow> bytes \<Rightarrow> bytes list \<Rightarrow> scan_failure + nat \<times> bytes" where
  "send_chunks d k sent [] = Inr (k, sent)"
| "send_chunks d k sent (buf # reads) =
     (if buf = [] then send_chunks d k sent reads
      else if write_err d k then Inl (writeFailure ''writing chunk length'' (reply d sent))
      else
        (let sent1 = sent @ put_uint32 (length buf) in
         if write_err d (k + 1) then Inl (writeFailure ''writing chunk'' (reply d sent1))
         else send_chunks d (k + 2) (sent1 @ buf) reads))"

definition parse_response :: "string \<Rightarrow> scan_failure + verdict" where
  "parse_response raw =
     (let line = trim_space raw in
      if \<not> has_prefix line streamPrefix \<and> \<not> has_suffix line ''ERROR'' then Inl (Unrecognized line)
      else if has_suffix line ''ERROR'' then Inl (ProtocolError line)
      else if line = streamPrefix @ '' OK'' then Inr clean
      else if has_suffix line ''FOUND'' then
        (let signature = trim_space (trim_suffix (trim_prefix line streamPrefix) ''FOUND'') in
         if has_prefix signature limitsExceededPrefix then Inl (Incomplete signature)
         else Inr \<lparr>Infected = True, Signature = signature\<rparr>)
      else Inl (Unrecognized line))"

definition instream_command :: bytes where
  "instream_command = ''nINSTREAM'' @ [nl]"

definition ClamdScanner_Scan :: "daemon \<Rightarrow> bytes list \<Rightarrow> bool \<Rightarrow> scan_result" where
  "ClamdScanner_Scan d reads broken =
     (if refuses d then (Inl ConnectFailed, False)
      else if write_err d 0 then (Inl StartFailed, False)
      else
        (case send_chunks d 1 instream_command reads of
           Inl e \<Rightarrow> (Inl e, False)
         | Inr (k, sent) \<Rightarrow>
             if broken then (Inl InputFailed, True)
             else if write_err d k
             then (Inl (writeFailure ''writing terminating chunk'' (reply d sent)), True)
             else
               (case reply d (sent @ put_uint32 0) of
                  None \<Rightarrow> (Inl NoResponse, True)
                | Some line \<Rightarrow> (parse_response line, True))))"

section \<open>Windows\<close>

definition defaultWindowSize :: int where "defaultWindowSize = 2 ^ 30"
definition defaultOverlap :: int where "defaultOverlap = 2 ^ 20"
definition DefaultScanBudget :: int where "DefaultScanBudget = 32 * 2 ^ 30"

record coverage =
  Complete :: bool
  Bytes :: int

record windowed_config =
  WindowSize :: int
  Overlap :: int
  Budget :: int

definition windowSize :: "windowed_config \<Rightarrow> int" where
  "windowSize w = (if WindowSize w \<le> 0 then defaultWindowSize else WindowSize w)"

definition overlap :: "windowed_config \<Rightarrow> int" where
  "overlap w =
     (let ov = (if Overlap w \<le> 0 then defaultOverlap else Overlap w) in
      if windowSize w \<le> ov then quot (windowSize w) 2 else ov)"

definition scan_budget :: "windowed_config \<Rightarrow> int" where
  "scan_budget w = (if Budget w \<le> 0 then DefaultScanBudget else Budget w)"

text \<open>\<open>tailBuffer\<close>: the size and the buffer.\<close>

record tailBuffer =
  tb_size :: nat
  tb_buf :: bytes

definition newTailBuffer :: "nat \<Rightarrow> tailBuffer" where
  "newTailBuffer n = \<lparr>tb_size = n, tb_buf = []\<rparr>"

definition tailBuffer_Write :: "bytes \<Rightarrow> tailBuffer \<Rightarrow> tailBuffer" where
  "tailBuffer_Write p t =
     (if tb_size t \<le> length p then t\<lparr>tb_buf := drop (length p - tb_size t) p\<rparr>
      else
        (let buf = (if tb_size t < length (tb_buf t) + length p
                    then drop (length (tb_buf t) + length p - tb_size t) (tb_buf t) else tb_buf t)
         in t\<lparr>tb_buf := buf @ p\<rparr>))"

text \<open>
  \<open>complete\<close>: \<open>left\<close> is what remains of the budget, \<open>src\<close> what remains of the stream.
\<close>

definition complete :: "nat \<Rightarrow> stream \<Rightarrow> bool" where
  "complete left src \<longleftrightarrow> 0 < left \<or> (sdata src = [] \<and> \<not> sbroken src)"

text \<open>
  The fresh part of a window, the byte read ahead and the limited rest, and the window itself.
\<close>

definition fresh_part :: "nat \<Rightarrow> bytes \<Rightarrow> nat \<Rightarrow> stream \<Rightarrow> stream" where
  "fresh_part wsize tail left src =
     (let bounded = limit_to left src; capacity = wsize - length tail;
          fresh = limit_to (capacity - 1) (advance 1 bounded)
      in \<lparr>sdata = take 1 (sdata bounded) @ sdata fresh, sbroken = sbroken fresh\<rparr>)"

definition window_of :: "nat \<Rightarrow> bytes \<Rightarrow> nat \<Rightarrow> stream \<Rightarrow> stream" where
  "window_of wsize tail left src =
     (let fr = fresh_part wsize tail left src in \<lparr>sdata = tail @ sdata fr, sbroken = sbroken fr\<rparr>)"

text \<open>
  The loop of \<open>ScanStream\<close>. \<open>scan i\<close> is the scan of the \<open>i\<close>-th window, \<open>ctx i\<close> the check of the
  context before it. The recorded source error is set by the read of the byte ahead, by a scan that
  read its window to the end or by the drain behind it.
\<close>

function scan_windows ::
  "(nat \<Rightarrow> stream \<Rightarrow> ('e + verdict) \<times> bool) \<Rightarrow> (nat \<Rightarrow> 'e option) \<Rightarrow> nat \<Rightarrow> nat \<Rightarrow> nat
   \<Rightarrow> bytes \<Rightarrow> int \<Rightarrow> nat \<Rightarrow> stream \<Rightarrow> 'e + verdict \<times> coverage" where
  "scan_windows scan ctx wsize over i tail scanned left src =
     (case ctx i of
        Some e \<Rightarrow> Inl e
      | None \<Rightarrow>
          (let bounded = limit_to left src in
           if sdata bounded = []
           then Inr (clean, \<lparr>Complete = \<not> sbroken bounded \<and> complete left src, Bytes = scanned\<rparr>)
           else
             (let fr = fresh_part wsize tail left src; window = window_of wsize tail left src;
                  n = length (sdata fr) in
              case scan i window of
                (Inl e, drained) \<Rightarrow>
                  if drained \<and> sbroken window
                  then Inr (clean, \<lparr>Complete = False, Bytes = scanned\<rparr>)
                  else Inl e
              | (Inr v, _) \<Rightarrow>
                  if sbroken window then Inr (clean, \<lparr>Complete = False, Bytes = scanned\<rparr>)
                  else if Infected v then Inr (v, \<lparr>Complete = False, Bytes = scanned + int n\<rparr>)
                  else if n < wsize - length tail
                  then Inr (clean, \<lparr>Complete = complete (left - n) (advance n src),
                                    Bytes = scanned + int n\<rparr>)
                  else scan_windows scan ctx wsize over (Suc i)
                         (tb_buf (tailBuffer_Write (sdata fr) (newTailBuffer over)))
                         (scanned + int n) (left - n) (advance n src))))"
  by pat_completeness auto
termination
proof (relation "measure (\<lambda>(scan, ctx, wsize, over, i, tail, scanned, left, src). length (sdata src))",
    goal_cases)
  case (2 scan ctx wsize over i tail scanned left src)
  then have "sdata src \<noteq> []" "left \<noteq> 0" by auto
  with 2 show ?case by (auto simp: fresh_part_def Let_def min_def)
qed simp

declare scan_windows.simps [simp del]

definition ScanStream ::
  "(nat \<Rightarrow> stream \<Rightarrow> ('e + verdict) \<times> bool) \<Rightarrow> (nat \<Rightarrow> 'e option) \<Rightarrow> windowed_config \<Rightarrow> stream
   \<Rightarrow> 'e + verdict \<times> coverage" where
  "ScanStream scan ctx w r =
     scan_windows scan ctx (nat (windowSize w)) (nat (overlap w)) 0 [] 0 (nat (scan_budget w)) r"


section \<open>The tail buffer\<close>

lemma tailBuffer_size [simp]: "tb_size (tailBuffer_Write p t) = tb_size t" "tb_size (newTailBuffer n) = n"
  by (simp_all add: tailBuffer_Write_def newTailBuffer_def Let_def)

lemma tailBuffer_Write_take_last:
  assumes "tb_buf t = take_last (tb_size t) xs"
  shows "tb_buf (tailBuffer_Write p t) = take_last (tb_size t) (xs @ p)"
proof (cases "tb_size t \<le> length p")
  case True
  then show ?thesis by (simp add: tailBuffer_Write_def) (simp add: take_last_def)
next
  case False
  with assms show ?thesis
    by (cases "length xs \<le> tb_size t"; cases "p = []")
       (auto simp: tailBuffer_Write_def Let_def take_last_def min_def add.commute)
qed

text \<open>However the fresh bytes of a window are cut into writes, the tail buffer ends up with the last
  bytes of their concatenation, as many as it has room for.\<close>

theorem tailBuffer_keeps_last:
  "tb_buf (fold tailBuffer_Write ps (newTailBuffer n)) = take_last n (concat ps)"
proof -
  have "tb_buf (fold tailBuffer_Write ps t) = take_last (tb_size t) (xs @ concat ps)"
    if "tb_buf t = take_last (tb_size t) xs" for t xs
    using that
  proof (induction ps arbitrary: t xs)
    case (Cons p ps)
    from Cons.IH [of "tailBuffer_Write p t" "xs @ p"] tailBuffer_Write_take_last [OF Cons.prems]
    show ?case by simp
  qed simp
  from this [of "newTailBuffer n" "[]"] show ?thesis
    by (simp add: newTailBuffer_def take_last_def)
qed

lemma tail_after_window [simp]: "tb_buf (tailBuffer_Write p (newTailBuffer n)) = take_last n p"
  using tailBuffer_Write_take_last [of "newTailBuffer n" "[]" p]
  by (simp add: newTailBuffer_def take_last_def)

section \<open>The windows a scan goes through\<close>

lemma fresh_part_simps [simp]:
  "sdata (fresh_part wsize tail left src) = take (max 1 (wsize - length tail)) (take left (sdata src))"
  "sdata src \<noteq> [] \<Longrightarrow> left \<noteq> 0 \<Longrightarrow> sbroken (fresh_part wsize tail left src) \<longleftrightarrow>
     sbroken src \<and> length (sdata src) < left \<and> length (sdata src) < wsize - length tail"
proof -
  have split: "take (max 1 k) xs = take 1 xs @ take (k - 1) (drop 1 xs)" for k and xs :: bytes
  proof -
    have "max 1 k = 1 + (k - 1)" by simp
    then show ?thesis by (simp only: take_add)
  qed
  show "sdata (fresh_part wsize tail left src) = take (max 1 (wsize - length tail)) (take left (sdata src))"
    unfolding split by (simp add: fresh_part_def Let_def)
  show "sbroken (fresh_part wsize tail left src) \<longleftrightarrow>
     sbroken src \<and> length (sdata src) < left \<and> length (sdata src) < wsize - length tail"
    if "sdata src \<noteq> []" "left \<noteq> 0"
    using that by (cases "sdata src") (auto simp: fresh_part_def Let_def)
qed

lemma window_of_simps [simp]:
  "sdata (window_of wsize tail left src) = tail @ sdata (fresh_part wsize tail left src)"
  "sbroken (window_of wsize tail left src) = sbroken (fresh_part wsize tail left src)"
  by (simp_all add: window_of_def Let_def)

text \<open>
  \<open>visits\<close>: from the loop state with \<open>tail\<close>, \<open>left\<close> and \<open>src\<close> at window \<open>i\<close>, the window \<open>w\<close> is handed
  to the scanner as the \<open>j\<close>-th.
\<close>

inductive visits ::
  "(nat \<Rightarrow> stream \<Rightarrow> ('e + verdict) \<times> bool) \<Rightarrow> (nat \<Rightarrow> 'e option) \<Rightarrow> nat \<Rightarrow> nat
   \<Rightarrow> nat \<Rightarrow> bytes \<Rightarrow> nat \<Rightarrow> stream \<Rightarrow> nat \<Rightarrow> stream \<Rightarrow> bool"
  for scan ctx wsize over where
  here: "ctx i = None \<Longrightarrow> sdata (limit_to left src) \<noteq> [] \<Longrightarrow>
    visits scan ctx wsize over i tail left src i (window_of wsize tail left src)"
| later: "ctx i = None \<Longrightarrow> sdata (limit_to left src) \<noteq> [] \<Longrightarrow>
    scan i (window_of wsize tail left src) = (Inr v, b) \<Longrightarrow> \<not> Infected v \<Longrightarrow>
    n = length (sdata (fresh_part wsize tail left src)) \<Longrightarrow>
    \<not> sbroken (window_of wsize tail left src) \<Longrightarrow> \<not> n < wsize - length tail \<Longrightarrow>
    visits scan ctx wsize over (Suc i) (take_last over (sdata (fresh_part wsize tail left src)))
      (left - n) (advance n src) j w \<Longrightarrow>
    visits scan ctx wsize over i tail left src j w"

lemma visits_bound:
  assumes "visits scan ctx wsize over i tail left src j w" "length tail \<le> over" "over < wsize"
  shows "length (sdata w) \<le> wsize"
  using assms
proof (induction rule: visits.induct)
  case (here i left src tail)
  then show ?case by (auto simp: min_def max_def)
qed auto

text \<open>The loop, one window at a time.\<close>

lemmas scan_windows_unfold = scan_windows.simps [unfolded Let_def tail_after_window]

lemma scan_windows_end:
  "ctx i = None \<Longrightarrow> sdata (limit_to left src) = [] \<Longrightarrow>
   scan_windows scan ctx wsize over i tail scanned left src =
     Inr (clean, \<lparr>Complete = \<not> sbroken (limit_to left src) \<and> complete left src, Bytes = scanned\<rparr>)"
  by (simp add: scan_windows_unfold [of scan ctx wsize over i])

text \<open>What a result that is no error says of the first window.\<close>

lemma scan_windows_cases:
  assumes "scan_windows scan ctx wsize over i tail scanned left src = Inr (v, cov)"
    and "sdata (limit_to left src) \<noteq> []"
  defines "w \<equiv> window_of wsize tail left src" and "n \<equiv> length (sdata (fresh_part wsize tail left src))"
  obtains (broken) "sbroken w" "v = clean" "cov = \<lparr>Complete = False, Bytes = scanned\<rparr>"
  | (infected) u b where "\<not> sbroken w" "scan i w = (Inr u, b)" "Infected u" "v = u"
      "cov = \<lparr>Complete = False, Bytes = scanned + int n\<rparr>"
  | (short) u b where "\<not> sbroken w" "scan i w = (Inr u, b)" "\<not> Infected u" "n < wsize - length tail"
      "v = clean" "cov = \<lparr>Complete = complete (left - n) (advance n src), Bytes = scanned + int n\<rparr>"
  | (full) u b where "\<not> sbroken w" "scan i w = (Inr u, b)" "\<not> Infected u" "\<not> n < wsize - length tail"
      "scan_windows scan ctx wsize over (Suc i) (take_last over (sdata (fresh_part wsize tail left src)))
         (scanned + int n) (left - n) (advance n src) = Inr (v, cov)"
proof -
  have c: "ctx i = None"
    using assms(1) by (simp add: scan_windows_unfold [of scan ctx wsize over i] split: option.splits)
  obtain r b where "scan i w = (r, b)" by (cases "scan i w")
  then show thesis
    using that assms(1,2) c
    by (cases r) (auto simp: scan_windows_unfold [of scan ctx wsize over i] w_def n_def
        simp del: limit_to_simps window_of_simps fresh_part_simps split: if_splits)
qed

text \<open>The count of bytes, and what a complete scan has seen.\<close>

lemma scan_windows_bytes:
  assumes "scan_windows scan ctx wsize over i tail scanned left src = Inr (v, cov)"
  shows "scanned \<le> Bytes cov \<and> Bytes cov \<le> scanned + int (min left (length (sdata src)))
     \<and> (Complete cov \<longrightarrow> Bytes cov = scanned + int (length (sdata src)) \<and> \<not> sbroken src \<and> v = clean)
     \<and> (\<not> Complete cov \<and> \<not> Infected v \<longrightarrow> sbroken src \<or> left < length (sdata src))"
  using assms
proof (induction scan ctx wsize over i tail scanned left src rule: scan_windows.induct)
  case (1 scan ctx wsize over i tail scanned left src)
  have c: "ctx i = None"
    using "1.prems" by (simp add: scan_windows_unfold [of scan ctx wsize over i] split: option.splits)
  show ?case
  proof (cases "sdata (limit_to left src) = []")
    case True
    with "1.prems" c show ?thesis
      by (auto simp: scan_windows_end complete_def clean_def)
  next
    case False
    let ?n = "length (sdata (fresh_part wsize tail left src))"
    have ne: "sdata src \<noteq> []" "left \<noteq> 0" using False by auto
    have n: "?n \<le> left" "?n \<le> length (sdata src)" by auto
    from "1.prems" False show ?thesis
    proof (cases rule: scan_windows_cases)
      case broken
      then show ?thesis using ne by (auto simp: clean_def)
    next
      case infected
      then show ?thesis using n by (auto simp del: fresh_part_simps)
    next
      case short
      then have "?n = left \<or> ?n = length (sdata src) \<and> \<not> sbroken src"
        using ne by (auto simp: min_def max_def split: if_splits)
      with short n show ?thesis
        by (auto simp: complete_def clean_def simp del: fresh_part_simps)
    next
      case (full u b)
      have "scanned + int ?n \<le> Bytes cov
        \<and> Bytes cov \<le> scanned + int ?n + int (min (left - ?n) (length (sdata (advance ?n src))))
        \<and> (Complete cov \<longrightarrow> Bytes cov = scanned + int ?n + int (length (sdata (advance ?n src)))
             \<and> \<not> sbroken (advance ?n src) \<and> v = clean)
        \<and> (\<not> Complete cov \<and> \<not> Infected v \<longrightarrow> sbroken (advance ?n src) \<or> left - ?n < length (sdata (advance ?n src)))"
        by (rule "1.IH" [OF c refl False refl refl refl full(2) [symmetric] refl full(1,3,4), unfolded tail_after_window, OF full(5)])
      with n show ?thesis
        by (auto simp del: fresh_part_simps)
    qed
  qed
qed

text \<open>C30: what a windowed scan reports of itself is true: it never claims more bytes than the stream and
  the budget have, \<open>Complete\<close> means that every byte of an intact stream was scanned and found clean,
  and a scan that is neither complete nor infected had a broken source or a stream past the budget.\<close>

theorem ScanStream_coverage:
  assumes "ScanStream scan ctx w r = Inr (v, cov)"
  shows "0 \<le> Bytes cov \<and> Bytes cov \<le> min (scan_budget w) (int (length (sdata r)))
     \<and> (Complete cov \<longrightarrow> Bytes cov = int (length (sdata r)) \<and> \<not> sbroken r \<and> v = clean)
     \<and> (\<not> Complete cov \<and> \<not> Infected v \<longrightarrow> sbroken r \<or> scan_budget w < int (length (sdata r)))"
proof -
  have "0 < scan_budget w" by (simp add: scan_budget_def DefaultScanBudget_def)
  with scan_windows_bytes [OF assms [unfolded ScanStream_def]] show ?thesis by auto
qed

section \<open>No signature falls between two windows\<close>

text \<open>
  A scanner that never passes a window with the signature \<open>sig\<close> in it: it reports an infection or
  fails.
\<close>

definition never_passes :: "(nat \<Rightarrow> stream \<Rightarrow> ('e + verdict) \<times> bool) \<Rightarrow> bytes \<Rightarrow> bool" where
  "never_passes scan sig \<longleftrightarrow>
     (\<forall>i w u b. scan i w = (Inr u, b) \<longrightarrow> sublist sig (sdata w) \<longrightarrow> Infected u)"

lemma sublist_within:
  assumes "xs @ ys = pre @ sig @ post" "length pre + length sig \<le> length xs"
  shows "sublist sig xs"
proof -
  have "xs = take (length xs) (pre @ sig @ post)" using assms(1) by (metis append_eq_conv_conj)
  then have "xs = pre @ sig @ take (length xs - length pre - length sig) post" using assms(2) by simp
  then show ?thesis by (metis sublist_appendI)
qed

lemma split_later:
  assumes "xs @ ys = pre @ sig @ post" "k \<le> length pre" "k \<le> length xs"
  shows "drop k xs @ ys = drop k pre @ sig @ post"
  using assms by (metis drop_append diff_is_0_eq drop0)

lemma scan_windows_no_signature:
  assumes "scan_windows scan ctx wsize over i tail scanned left src = Inr (v, cov)" "Complete cov"
    and "never_passes scan sig" "length sig \<le> over + 1" "2 * over \<le> wsize" "0 < wsize" "length tail \<le> over"
    and "tail @ sdata src = pre @ sig @ post"
  shows "length pre + length sig \<le> length tail"
  using assms
proof (induction scan ctx wsize over i tail scanned left src arbitrary: pre post rule: scan_windows.induct)
  case (1 scan ctx wsize over i tail scanned left src)
  note prems = "1.prems"
  have bytes: "Bytes cov = scanned + int (length (sdata src))"
    using scan_windows_bytes [OF prems(1)] prems(2) by blast
  have c: "ctx i = None"
    using prems(1) by (simp add: scan_windows_unfold [of scan ctx wsize over i] split: option.splits)
  show ?case
  proof (cases "sdata (limit_to left src) = []")
    case True
    then have "sdata src = []" using prems(1) c bytes by (auto simp: scan_windows_end)
    with prems(8) show ?thesis by (metis append_Nil2 length_append add_leD1 le_add1 add.assoc)
  next
    case False
    let ?fr = "sdata (fresh_part wsize tail left src)"
    let ?n = "length ?fr"
    have fr: "?fr = take ?n (sdata src)" by (simp add: min_def)
    have out: "length tail + ?n < length pre + length sig"
      if "scan i (window_of wsize tail left src) = (Inr u, b)" "\<not> Infected u" for u b
    proof (rule ccontr)
      assume "\<not> length tail + ?n < length pre + length sig"
      then have le: "length pre + length sig \<le> length (tail @ ?fr)" by (simp del: fresh_part_simps)
      have eq: "(tail @ ?fr) @ drop ?n (sdata src) = pre @ sig @ post"
        using prems(8) fr by (metis append.assoc append_take_drop_id)
      have "sublist sig (sdata (window_of wsize tail left src))"
        using sublist_within [OF eq le] by (simp only: window_of_simps)
      with that prems(3) show False unfolding never_passes_def by blast
    qed
    from prems(1) False show ?thesis
    proof (cases rule: scan_windows_cases)
      case (short u b)
      then have "?n = length (sdata src)" using bytes by simp
      moreover have "length pre + length sig \<le> length tail + length (sdata src)"
        using arg_cong [OF prems(8), of length] by simp
      ultimately show ?thesis using out [OF short(2,3)] by simp
    next
      case (full u b)
      have n: "over \<le> ?n" using full(4) prems(5,7) by linarith
      let ?k = "length tail + ?n - over"
      have o: "length tail + ?n < length pre + length sig" by (rule out [OF full(2,3)])
      have k: "?k \<le> length pre" using o prems(4) by linarith
      have "drop ?k (tail @ ?fr) @ drop ?n (sdata src) = drop ?k pre @ sig @ post"
        using k by (intro split_later) (use prems(8) fr in \<open>metis append.assoc append_take_drop_id\<close>, simp_all)
      then have eq: "take_last over ?fr @ sdata (advance ?n src) = drop ?k pre @ sig @ post"
        using n by (simp add: take_last_def del: fresh_part_simps)
      have "length (drop ?k pre) + length sig \<le> length (take_last over ?fr)"
        by (rule "1.IH" [OF c refl False refl refl refl full(2) [symmetric] refl full(1,3,4),
              unfolded tail_after_window, OF full(5) prems(2-6) _ eq]) simp
      with o k n show ?thesis by (simp del: fresh_part_simps)
    qed (use prems(2) in auto)
  qed
qed

lemma window_config_pos: "0 < windowSize w" "0 \<le> overlap w"
  by (auto simp: windowSize_def overlap_def defaultWindowSize_def defaultOverlap_def Let_def)

text \<open>C9: when the overlap is at most half a window, as with the package's defaults, no signature of up
  to one byte more than the overlap can hide across a window boundary: a stream that holds it is never
  reported as completely scanned by a scanner that never passes a window holding it.\<close>

theorem ScanStream_no_hidden_signature:
  assumes "ScanStream scan ctx w r = Inr (v, cov)" "Complete cov"
    and "never_passes scan sig" "sig \<noteq> []" "int (length sig) \<le> overlap w + 1" "2 * overlap w \<le> windowSize w"
  shows "\<not> sublist sig (sdata r)"
proof
  assume "sublist sig (sdata r)"
  then obtain pre post where "[] @ sdata r = pre @ sig @ post" by (auto simp: sublist_def)
  note occ = this
  have "length pre + length sig \<le> length ([] :: bytes)"
    using assms(5,6) window_config_pos [of w]
    by (intro scan_windows_no_signature [OF assms(1) [unfolded ScanStream_def] assms(2,3) _ _ _ _ occ]) auto
  with assms(4) show False by simp
qed

section \<open>A clean run\<close>

text \<open>A scanner that has nothing to report of a window it can read to an intact end.\<close>

definition passes_intact :: "(nat \<Rightarrow> stream \<Rightarrow> ('e + verdict) \<times> bool) \<Rightarrow> bool" where
  "passes_intact scan \<longleftrightarrow> (\<forall>i w. \<not> sbroken w \<longrightarrow> (\<exists>u b. scan i w = (Inr u, b) \<and> \<not> Infected u))"

lemma scan_windows_clean:
  assumes "passes_intact scan" and "\<And>i. ctx i = None" and "\<not> sbroken src"
  shows "scan_windows scan ctx wsize over i tail scanned left src =
     Inr (clean, \<lparr>Complete = (length (sdata src) \<le> left),
                  Bytes = scanned + int (min left (length (sdata src)))\<rparr>)"
  using assms
proof (induction scan ctx wsize over i tail scanned left src rule: scan_windows.induct)
  case (1 scan ctx wsize over i tail scanned left src)
  show ?case
  proof (cases "sdata (limit_to left src) = []")
    case True
    with "1.prems"(2,3) show ?thesis by (auto simp: scan_windows_end complete_def)
  next
    case False
    let ?w = "window_of wsize tail left src" and ?n = "length (sdata (fresh_part wsize tail left src))"
    have ne: "sdata src \<noteq> []" "left \<noteq> 0" using False by auto
    have n: "?n \<le> left" "?n \<le> length (sdata src)" by auto
    have intact: "\<not> sbroken ?w" using ne "1.prems"(3) by simp
    obtain u b where u: "scan i ?w = (Inr u, b)" "\<not> Infected u" using "1.prems"(1) intact unfolding passes_intact_def by blast
    have c: "ctx i = None" by (rule "1.prems"(2))
    note step = scan_windows_unfold [of scan ctx wsize over i tail scanned left src]
    show ?thesis
    proof (cases "?n < wsize - length tail")
      case True
      then have "?n = min left (length (sdata src))" by (auto simp: min_def max_def split: if_splits)
      with True False u intact c "1.prems"(3) show ?thesis
        by (auto simp: step complete_def min_def simp del: fresh_part_simps window_of_simps)
    next
      case False
      have "scan_windows scan ctx wsize over i tail scanned left src =
          scan_windows scan ctx wsize over (Suc i) (take_last over (sdata (fresh_part wsize tail left src)))
            (scanned + int ?n) (left - ?n) (advance ?n src)"
        using False \<open>sdata (limit_to left src) \<noteq> []\<close> u intact c
        by (simp add: step del: fresh_part_simps window_of_simps)
      also have "\<dots> = Inr (clean, \<lparr>Complete = (length (sdata (advance ?n src)) \<le> left - ?n),
          Bytes = scanned + int ?n + int (min (left - ?n) (length (sdata (advance ?n src))))\<rparr>)"
        by (rule "1.IH" [OF "1.prems"(2) refl \<open>sdata (limit_to left src) \<noteq> []\<close> refl refl refl u(1) [symmetric]
              refl intact u(2) False "1.prems"(1,2), unfolded tail_after_window]) (simp add: "1.prems"(3))
      finally show ?thesis using n by (auto simp: min_def simp del: fresh_part_simps)
    qed
  qed
qed

text \<open>C32: with a scanner that reports no infection and no failure on the windows it can read to an intact end, and a
  context that is not cancelled, the scan of an intact stream ends with a clean verdict, having counted the whole stream or the
  whole budget, and is complete exactly when the stream fits the budget, the exact fit included. Both scanners of the
  package are of this kind, the one in front of clamd as long as the daemon answers every session with OK.\<close>

theorem ScanStream_clean_run:
  assumes "passes_intact scan"
  shows "ScanStream scan (\<lambda>_. None) w (whole data) =
     Inr (clean, \<lparr>Complete = (int (length data) \<le> scan_budget w),
                  Bytes = min (scan_budget w) (int (length data))\<rparr>)"
proof -
  have "0 < scan_budget w" by (simp add: scan_budget_def DefaultScanBudget_def)
  moreover have "length data \<le> nat b \<longleftrightarrow> int (length data) \<le> b" if "0 < b" for b
    using that by linarith
  moreover have "int (min (nat b) (length data)) = min b (int (length data))" if "0 < b" for b
    using that by simp
  ultimately show ?thesis
    unfolding ScanStream_def by (subst scan_windows_clean) (use assms in auto)
qed

section \<open>Failures and infections reach the caller\<close>

text \<open>A failure of the scanner on an intact window ends the scan with that failure: an antivirus
  that cannot answer is never read as a clean or a partial scan.\<close>

lemma visits_failure:
  assumes "visits scan ctx wsize over i tail left src j w" "scan j w = (Inl e, b)" "\<not> sbroken w"
  shows "scan_windows scan ctx wsize over i tail scanned left src = Inl e"
  using assms
proof (induction arbitrary: scanned rule: visits.induct)
  case (here i left src tail)
  then show ?case
    by (simp add: scan_windows_unfold [of scan ctx wsize over i tail] del: window_of_simps fresh_part_simps)
next
  case (later i left src tail v b n j w)
  then show ?case
    by (simp add: scan_windows_unfold [of scan ctx wsize over i tail] del: window_of_simps fresh_part_simps)
qed

text \<open>
  The contract of a scanner that gives a verdict only on a window it has read to an intact end.
  Both scanners of the package keep it.
\<close>

locale draining_scanner =
  fixes scan :: "nat \<Rightarrow> stream \<Rightarrow> ('e + verdict) \<times> bool"
  assumes verdict_intact: "scan i w = (Inr v, b) \<Longrightarrow> \<not> sbroken w"
begin

lemma infected_reported:
  assumes "visits scan ctx wsize over i tail left src j w" "scan j w = (Inr v, b)" "Infected v"
  shows "\<exists>n. scan_windows scan ctx wsize over i tail scanned left src =
               Inr (v, \<lparr>Complete = False, Bytes = n\<rparr>)"
  using assms
proof (induction arbitrary: scanned rule: visits.induct)
  case (here i left src tail)
  moreover have "\<not> sbroken (window_of wsize tail left src)" using here(3) by (rule verdict_intact)
  ultimately show ?case
    by (simp add: scan_windows_unfold [of scan ctx wsize over i tail] del: window_of_simps fresh_part_simps)
next
  case (later i left src tail v b n j w)
  then show ?case
    by (simp add: scan_windows_unfold [of scan ctx wsize over i tail] del: window_of_simps fresh_part_simps)
qed

end


text \<open>The scanners of the package, with a daemon and a cut into reads per window.\<close>

definition noop_windows :: "nat \<Rightarrow> stream \<Rightarrow> scan_result" where
  "noop_windows i w = NoopScanner_Scan w"

definition clamd_windows ::
  "(nat \<Rightarrow> daemon) \<Rightarrow> (nat \<Rightarrow> bytes \<Rightarrow> bytes list) \<Rightarrow> nat \<Rightarrow> stream \<Rightarrow> scan_result" where
  "clamd_windows d cutter i w = ClamdScanner_Scan (d i) (cutter i (sdata w)) (sbroken w)"

interpretation noop: draining_scanner noop_windows
  by unfold_locales (auto simp: noop_windows_def NoopScanner_Scan_def split: if_splits)

interpretation clamd: draining_scanner "clamd_windows d cutter" for d cutter
  by unfold_locales
     (auto simp: clamd_windows_def ClamdScanner_Scan_def split: if_splits sum.splits option.splits)

text \<open>Without an infection both scanners pass what they can read.\<close>

lemma noop_passes: "passes_intact noop_windows"
proof -
  have "noop_windows i w = (Inr clean, True)" if "\<not> sbroken w" for i w
    using that by (simp add: noop_windows_def NoopScanner_Scan_def)
  then show ?thesis unfolding passes_intact_def by (metis clean_def verdict.select_convs(1))
qed

text \<open>A daemon that is up and finds nothing.\<close>

definition all_clear :: "daemon \<Rightarrow> bool" where
  "all_clear d \<longleftrightarrow> \<not> refuses d \<and> (\<forall>k. \<not> write_err d k)
     \<and> (\<forall>sent. case reply d sent of None \<Rightarrow> False | Some line \<Rightarrow> trim_space line = streamPrefix @ '' OK'')"

lemma send_chunks_all_clear: "all_clear d \<Longrightarrow> \<exists>k' sent'. send_chunks d k sent reads = Inr (k', sent')"
  by (induction d k sent reads rule: send_chunks.induct) (auto simp: all_clear_def Let_def)

lemma clamd_passes:
  assumes "\<And>i. all_clear (d i)"
  shows "passes_intact (clamd_windows d cutter)"
proof -
  have "clamd_windows d cutter i w = (Inr clean, True)" if w: "\<not> sbroken w" for i w
  proof -
    have d: "all_clear (d i)" by (rule assms)
    obtain k sent where s: "send_chunks (d i) 1 instream_command (cutter i (sdata w)) = Inr (k, sent)"
      using send_chunks_all_clear [OF d] by blast
    have "case reply (d i) (sent @ put_uint32 0) of None \<Rightarrow> False | Some line \<Rightarrow> trim_space line = streamPrefix @ '' OK''"
      using d by (simp only: all_clear_def)
    then obtain line where line: "reply (d i) (sent @ put_uint32 0) = Some line" "trim_space line = streamPrefix @ '' OK''"
      by (cases "reply (d i) (sent @ put_uint32 0)") auto
    have "\<not> has_suffix (streamPrefix @ '' OK'') ''ERROR''" "has_prefix (streamPrefix @ '' OK'') streamPrefix" by code_simp+
    then have "parse_response line = Inr clean"
      unfolding parse_response_def line(2) Let_def by (simp only: if_False if_True simp_thms)
    with d s line w show ?thesis by (simp add: clamd_windows_def ClamdScanner_Scan_def all_clear_def)
  qed
  then show ?thesis unfolding passes_intact_def by (metis clean_def verdict.select_convs(1))
qed

text \<open>C31: with the clamd scanner, an infection found in any window is the result of the whole scan, and a
  session that fails on an intact window is an error of the whole scan; every window is at most the
  window size long, overlap included.\<close>

theorem clamd_window_outcomes:
  assumes "visits (clamd_windows d cutter) ctx (nat (windowSize c)) (nat (overlap c)) 0 [] (nat (scan_budget c)) r j w"
  shows "int (length (sdata w)) \<le> windowSize c
     \<and> (case fst (clamd_windows d cutter j w) of
          Inl e \<Rightarrow> sbroken w \<or> ScanStream (clamd_windows d cutter) ctx c r = Inl e
        | Inr v \<Rightarrow> Infected v \<longrightarrow> 
             (\<exists>n. ScanStream (clamd_windows d cutter) ctx c r = Inr (v, \<lparr>Complete = False, Bytes = n\<rparr>)))"
proof -
  obtain x b where x: "clamd_windows d cutter j w = (x, b)" by (cases "clamd_windows d cutter j w")
  have "nat (overlap c) < nat (windowSize c)"
    using window_config_pos [of c] by (auto simp: overlap_def Let_def)
  with visits_bound [OF assms] have "int (length (sdata w)) \<le> windowSize c"
    using window_config_pos [of c] by simp
  with visits_failure [OF assms] clamd.infected_reported [OF assms] x show ?thesis
    unfolding ScanStream_def by (cases x) auto
qed

section \<open>The wire format\<close>

definition get_uint32 :: "bytes \<Rightarrow> nat" where
  "get_uint32 p = get_be p"

text \<open>The daemon's side: chunks up to a zero length; \<open>None\<close> for a stream that is cut short.\<close>

function read_chunks :: "bytes \<Rightarrow> (bytes \<times> bytes) option" where
  "read_chunks s =
     (if length s < 4 then None
      else
        (let n = get_uint32 (take 4 s); rest = drop 4 s in
         if n = 0 then Some ([], rest)
         else if length rest < n then None
         else map_option (\<lambda>(data, end_of). (take n rest @ data, end_of)) (read_chunks (drop n rest))))"
  by pat_completeness auto
termination by (relation "measure length") auto

declare read_chunks.simps [simp del]

lemma length_put_uint32 [simp]: "length (put_uint32 n) = 4"
  by (simp add: put_uint32_def)

lemma get_put_uint32: "n < 2 ^ 32 \<Longrightarrow> get_uint32 (put_uint32 n) = n"
  by (simp add: get_uint32_def put_uint32_def get_put_be)

lemma read_chunks_chunk:
  assumes "buf \<noteq> []" "length buf < 2 ^ 32"
  shows "read_chunks (put_uint32 (length buf) @ buf @ s) =
           map_option (\<lambda>(data, end_of). (buf @ data, end_of)) (read_chunks s)"
  using assms by (subst read_chunks.simps) (simp add: get_put_uint32 Let_def)

lemma read_chunks_end: "read_chunks (put_uint32 0 @ s) = Some ([], s)"
  by (subst read_chunks.simps) (simp add: get_put_uint32)

definition frames :: "bytes list \<Rightarrow> bytes" where
  "frames reads = concat (map (\<lambda>buf. if buf = [] then [] else put_uint32 (length buf) @ buf) reads)"

lemma read_chunks_frames:
  "list_all (\<lambda>buf. length buf \<le> chunkSize) reads \<Longrightarrow>
     read_chunks (frames reads @ put_uint32 0) = Some (concat reads, [])"
proof (induction reads)
  case Nil
  show ?case using read_chunks_end [of "[]"] by (simp add: frames_def)
next
  case (Cons buf reads)
  then show ?case
    using read_chunks_chunk [of buf] by (auto simp: frames_def chunkSize_def)
qed

lemma send_chunks_Inr:
  "send_chunks d k sent reads = Inr (k', sent') \<Longrightarrow> sent' = sent @ frames reads"
  by (induction d k sent reads rule: send_chunks.induct) (auto simp: frames_def Let_def split: if_splits)

text \<open>A session ends in a clean verdict only when the daemon was reached, the input was intact, the
  bytes on the wire decode on the daemon's side to exactly the bytes that were read, and the answer to
  them is the line \<^verbatim>\<open>stream: OK\<close>.\<close>

theorem ClamdScanner_clean:
  assumes "fst (ClamdScanner_Scan d reads broken) = Inr v" "\<not> Infected v"
    and "list_all (\<lambda>buf. length buf \<le> chunkSize) reads"
  shows "\<not> refuses d \<and> \<not> broken
     \<and> (\<exists>wire line. read_chunks wire = Some (concat reads, [])
          \<and> reply d (instream_command @ wire) = Some line \<and> trim_space line = ''stream: OK'')"
proof -
  obtain k sent line where s: "send_chunks d 1 instream_command reads = Inr (k, sent)"
    and r: "\<not> refuses d" "\<not> broken" "reply d (sent @ put_uint32 0) = Some line" "parse_response line = Inr v"
    using assms(1) by (auto simp: ClamdScanner_Scan_def split: if_splits sum.splits option.splits)
  have "sent @ put_uint32 0 = instream_command @ frames reads @ put_uint32 0"
    using send_chunks_Inr [OF s] by simp
  moreover have "trim_space line = ''stream: OK''"
    using r(4) assms(2)
    by (auto simp: parse_response_def Let_def streamPrefix_def split: if_splits)
  ultimately show ?thesis using r read_chunks_frames [OF assms(3)] by metis
qed

lemma has_suffix_long: "length p \<le> length r \<Longrightarrow> has_suffix (q @ r) p = has_suffix r p"
  by (auto simp: has_suffix_def)

lemma found_line:
  "has_prefix l ''stream:'' \<and> has_suffix l ''FOUND'' \<longleftrightarrow> (\<exists>mid. l = ''stream:'' @ mid @ ''FOUND'')"
    (is "?L \<longleftrightarrow> ?R")
proof
  assume ?L
  then obtain r where l: "l = ''stream:'' @ r" by (auto simp: has_prefix_iff)
  show ?R
  proof (cases "5 \<le> length r")
    case True
    then have "has_suffix r ''FOUND''" using \<open>?L\<close> has_suffix_long [of "''FOUND''" r "''stream:''"] l by simp
    with l show ?thesis by (auto simp: has_suffix_iff)
  next
    case False
    then have "length r = 0 \<or> length r = 1 \<or> length r = 2 \<or> length r = 3 \<or> length r = 4" by linarith
    with \<open>?L\<close> l show ?thesis by (auto simp: has_suffix_def length_Suc_conv numeral_eq_Suc)
  qed
next
  assume ?R
  then obtain mid where "l = ''stream:'' @ mid @ ''FOUND''" by blast
  then show ?L using has_prefix_append [of "''stream:''"] has_suffix_append [of "''stream:'' @ mid"] by simp
qed

lemma found_line_signature:
  "trim_suffix (trim_prefix (''stream:'' @ mid @ ''FOUND'') ''stream:'') ''FOUND'' = mid"
  using trim_prefix_append [of "''stream:''" "mid @ ''FOUND''"] trim_suffix_append [of mid "''FOUND''"]
  by simp

lemma found_line_other:
  "\<not> has_suffix (''stream:'' @ mid @ ''FOUND'') ''ERROR''" "''stream:'' @ mid @ ''FOUND'' \<noteq> ''stream: OK''"
proof -
  have "last (''stream:'' @ mid @ ''FOUND'') = CHR ''D''" "last (r @ ''ERROR'') = CHR ''R''" for r by simp_all
  then show "\<not> has_suffix (''stream:'' @ mid @ ''FOUND'') ''ERROR''" unfolding has_suffix_iff by force
  have "last (''stream:'' @ mid @ ''FOUND'') = CHR ''D''" "last ''stream: OK'' = CHR ''K''" by simp_all
  then show "''stream:'' @ mid @ ''FOUND'' \<noteq> ''stream: OK''" by force
qed

text \<open>An infection is reported only for an answer \<^verbatim>\<open>stream: ... FOUND\<close> whose signature is not one of
  the daemon's limit markers: content the daemon declined to scan is an error, not an infection.\<close>

theorem parse_response_infected:
  "(\<exists>v. parse_response raw = Inr v \<and> Infected v) \<longleftrightarrow>
     (\<exists>mid. trim_space raw = ''stream:'' @ mid @ ''FOUND'' \<and> \<not> has_prefix (trim_space mid) limitsExceededPrefix)"
  (is "?L \<longleftrightarrow> ?R")
proof
  assume ?L
  then have "has_prefix (trim_space raw) ''stream:'' \<and> has_suffix (trim_space raw) ''FOUND''"
    by (auto simp: parse_response_def Let_def clean_def streamPrefix_def split: if_splits)
  then obtain mid where mid: "trim_space raw = ''stream:'' @ mid @ ''FOUND''" unfolding found_line by blast
  have "\<not> has_prefix (trim_space mid) limitsExceededPrefix"
    using \<open>?L\<close> found_line_other [of mid] unfolding parse_response_def Let_def mid streamPrefix_def found_line_signature
    by (auto simp del: append.simps simp: clean_def split: if_splits)
  with mid show ?R by blast
next
  assume ?R
  then obtain mid where mid: "trim_space raw = ''stream:'' @ mid @ ''FOUND''"
    "\<not> has_prefix (trim_space mid) limitsExceededPrefix" by blast
  have "has_prefix (trim_space raw) ''stream:'' \<and> has_suffix (trim_space raw) ''FOUND''"
    unfolding found_line using mid(1) by blast
  with mid(2) found_line_other [of mid] show ?L
    unfolding parse_response_def Let_def mid(1) streamPrefix_def found_line_signature
    by (auto simp del: append.simps)
qed

section \<open>A verdict the drain discards\<close>

text \<open>A scanner that reports an infection before it has read its window to the end loses that verdict
  when the rest of the window turns out to be broken: the scan of a stream that breaks inside its
  first window is then clean and incomplete, with no byte counted.\<close>

theorem ScanStream_discards_verdict:
  assumes "data \<noteq> []" "int (length data) < scan_budget w" "int (length data) < windowSize w"
    and "\<And>i x. scan i x = (Inr \<lparr>Infected = True, Signature = sig\<rparr>, False)"
  shows "ScanStream scan (\<lambda>_. None) w \<lparr>sdata = data, sbroken = True\<rparr> =
           Inr (clean, \<lparr>Complete = False, Bytes = 0\<rparr>)"
proof -
  have "length data < nat (scan_budget w)" "length data < nat (windowSize w)" using assms by auto
  with assms(1,4) show ?thesis
    by (simp add: ScanStream_def scan_windows_unfold [of scan])
qed

section \<open>Concrete instances\<close>

text \<open>A scanner that reports every window holding an \<open>x\<close>.\<close>

definition finds_x :: "nat \<Rightarrow> stream \<Rightarrow> scan_result" where
  "finds_x i w = (Inr (if CHR ''x'' \<in> set (sdata w) then \<lparr>Infected = True, Signature = ''x''\<rparr> else clean), True)"

lemma finds_x_never_passes: "never_passes finds_x ''x''"
  by (auto simp: never_passes_def finds_x_def sublist_def clean_def)

definition small_windows :: windowed_config where
  "small_windows = \<lparr>WindowSize = 4, Overlap = 2, Budget = 9\<rparr>"

lemma finds_x_abc:
  "ScanStream finds_x (\<lambda>_. None) small_windows (whole ''abc'') = Inr (clean, \<lparr>Complete = True, Bytes = 3\<rparr>)"
  by (simp add: ScanStream_def scan_windows.simps finds_x_def clean_def windowSize_def overlap_def scan_budget_def
      complete_def small_windows_def)

theorem ScanStream_coverage_witness:
  "\<exists>v cov. ScanStream finds_x (\<lambda>_. None) small_windows (whole ''abc'') = Inr (v, cov) \<and> Complete cov \<and> Bytes cov = 3"
  using ScanStream_coverage [OF finds_x_abc] finds_x_abc by fastforce

theorem ScanStream_no_hidden_signature_witness: "\<not> sublist ''x'' ''abc''"
  using ScanStream_no_hidden_signature [OF finds_x_abc _ finds_x_never_passes]
  by (simp add: overlap_def windowSize_def small_windows_def)

text \<open>A daemon that finds nothing, and a stream one byte longer than the budget.\<close>

definition contented :: daemon where
  "contented = \<lparr>refuses = False, write_err = (\<lambda>_. False), reply = (\<lambda>_. Some (''stream: OK'' @ [nl]))\<rparr>"

lemma contented_clear: "all_clear contented"
proof -
  have "trim_space (''stream: OK'' @ [nl]) = streamPrefix @ '' OK''" by code_simp
  then show ?thesis by (simp add: all_clear_def contented_def)
qed

theorem ScanStream_clean_run_witness:
  "ScanStream (clamd_windows (\<lambda>_. contented) (\<lambda>_ b. [b])) (\<lambda>_. None) small_windows (whole ''0123456789'') =
     Inr (clean, \<lparr>Complete = False, Bytes = 9\<rparr>)"
  using ScanStream_clean_run [OF clamd_passes [OF contented_clear], of "\<lambda>_ b. [b]" small_windows "''0123456789''"]
  by (simp add: scan_budget_def small_windows_def)

text \<open>A daemon that finds a signature in whatever it is sent.\<close>

definition alarmed :: daemon where
  "alarmed = \<lparr>refuses = False, write_err = (\<lambda>_. False), reply = (\<lambda>_. Some ''stream: Eicar FOUND'')\<rparr>"

theorem clamd_window_outcomes_witness:
  "\<exists>n. ScanStream (clamd_windows (\<lambda>_. alarmed) (\<lambda>_ b. [b])) (\<lambda>_. None) small_windows (whole ''abc'') =
     Inr (\<lparr>Infected = True, Signature = ''Eicar''\<rparr>, \<lparr>Complete = False, Bytes = n\<rparr>)"
proof -
  have v: "visits (clamd_windows (\<lambda>_. alarmed) (\<lambda>_ b. [b])) (\<lambda>_. None) (nat (windowSize small_windows))
      (nat (overlap small_windows)) 0 [] (nat (scan_budget small_windows)) (whole ''abc'') 0
      (window_of (nat (windowSize small_windows)) [] (nat (scan_budget small_windows)) (whole ''abc''))" (is "visits _ _ _ _ _ _ _ _ _ ?w")
    by (rule visits.here) (simp_all add: scan_budget_def small_windows_def)
  have "parse_response ''stream: Eicar FOUND'' = Inr \<lparr>Infected = True, Signature = ''Eicar''\<rparr>" by code_simp
  then have "fst (clamd_windows (\<lambda>_. alarmed) (\<lambda>_ b. [b]) 0 ?w) = Inr \<lparr>Infected = True, Signature = ''Eicar''\<rparr>"
    by (simp add: clamd_windows_def ClamdScanner_Scan_def alarmed_def scan_budget_def small_windows_def windowSize_def)
  with clamd_window_outcomes [OF v] show ?thesis by simp
qed

end
