(* ===== verification/Archive_Scan.thy ===== *)
theory Archive_Scan
  imports Log_Window Clamav
begin

text \<open>
  The two walks \<^verbatim>\<open>src/portal/submit.go\<close> makes over the log entries of an accepted archive: \<open>scanArchive\<close>, the
  antivirus scan of the extracted content under one budget, and \<open>autoChecks\<close>, the automatic checks.

  The scanner is a parameter, indexed by the stream it is called for (0 is the metadata, then one number per
  log) and by the window within it; so is the context.
\<close>

section \<open>The antivirus scan\<close>

type_synonym scanner = "nat \<Rightarrow> nat \<Rightarrow> stream \<Rightarrow> scan_result"
type_synonym scan_ctx = "nat \<Rightarrow> nat \<Rightarrow> scan_failure option"

datatype walk_stop = StopUnreadable string | StopScanner scan_failure | StopInfected

record scan_state =
  remaining :: int
  cov :: coverage
  infected :: verdict
  visited :: nat

definition window_config :: "int \<Rightarrow> windowed_config" where
  "window_config budget = \<lparr>WindowSize = 0, Overlap = 0, Budget = budget\<rparr>"

text \<open>The callback of the walk.\<close>

definition scan_log_entry ::
  "gunzip \<Rightarrow> scanner \<Rightarrow> scan_ctx \<Rightarrow> string \<Rightarrow> stream \<Rightarrow> scan_state \<Rightarrow> scan_state \<times> walk_stop option" where
  "scan_log_entry gunzip scan wctx name logGz s =
     (if remaining s \<le> 0 then (s\<lparr>cov := (cov s)\<lparr>Complete := False\<rparr>\<rparr>, None)
      else case gunzip logGz of
        None \<Rightarrow> (s, Some (StopUnreadable name))
      | Some gz \<Rightarrow>
          (let k = Suc (visited s) in
           case ScanStream (scan k) (wctx k) (window_config (remaining s)) gz of
             Inl e \<Rightarrow> (s, Some (StopScanner e))
           | Inr (v, c) \<Rightarrow>
               (let s' = s\<lparr>cov := \<lparr>Complete = Complete (cov s) \<and> Complete c, Bytes = Bytes (cov s) + Bytes c\<rparr>,
                           remaining := remaining s - Bytes c, visited := k\<rparr>
                in if Infected v then (s'\<lparr>infected := v\<rparr>, Some StopInfected) else (s', None))))"

datatype archive_scan_error =
    MetadataScan scan_failure
  | RewindFailed
  | UnreadableLog string
  | LogScan scan_failure
  | WalkFailed

definition scanArchive ::
  "untar \<Rightarrow> gunzip \<Rightarrow> scanner \<Rightarrow> scan_ctx \<Rightarrow> ctx \<Rightarrow> bool \<Rightarrow> bytes \<Rightarrow> options \<Rightarrow> bytes \<Rightarrow> int
   \<Rightarrow> archive_scan_error + verdict \<times> coverage" where
  "scanArchive untar gunzip scan wctx ctx seek_fails file opts md budget0 =
     (case fst (scan 0 0 (whole md)) of
        Inl e \<Rightarrow> Inl (MetadataScan e)
      | Inr v0 \<Rightarrow>
          if Infected v0 then Inr (v0, \<lparr>Complete = False, Bytes = 0\<rparr>)
          else if seek_fails then Inl RewindFailed
          else
            (let budget = (if budget0 \<le> 0 then DefaultScanBudget else budget0);
                 s0 = \<lparr>remaining = budget, cov = \<lparr>Complete = True, Bytes = 0\<rparr>, infected = clean, visited = 0\<rparr>
             in case ScanLogs untar ctx file opts (scan_log_entry gunzip scan wctx) s0 of
                  (s, Some (ScanFn StopInfected)) \<Rightarrow> Inr (infected s, cov s)
                | (s, Some (ScanFn (StopUnreadable name))) \<Rightarrow> Inl (UnreadableLog name)
                | (s, Some (ScanFn (StopScanner e))) \<Rightarrow> Inl (LogScan e)
                | (s, Some _) \<Rightarrow> Inl WalkFailed
                | (s, None) \<Rightarrow> Inr (clean, cov s)))"

section \<open>The automatic checks\<close>

record logWindows =
  validator_window :: log_window_check
  sentry_window :: log_window_check

definition check_log_entry ::
  "gunzip \<Rightarrow> json_ts \<Rightarrow> config \<Rightarrow> string \<Rightarrow> stream \<Rightarrow> logWindows \<Rightarrow> logWindows \<times> unit option" where
  "check_log_entry gunzip json_ts cfg name logGz ws =
     (if name = ValidatorLogFileName
      then (ws\<lparr>validator_window := ScanLogWindow gunzip json_ts logGz cfg\<rparr>, None)
      else if name = SentryLogFileName
      then (ws\<lparr>sentry_window := ScanLogWindow gunzip json_ts logGz cfg\<rparr>, None)
      else (ws, None))"

definition autoChecks ::
  "untar \<Rightarrow> gunzip \<Rightarrow> json_ts \<Rightarrow> ctx \<Rightarrow> bool \<Rightarrow> bytes \<Rightarrow> options \<Rightarrow> metadata \<Rightarrow> config
   \<Rightarrow> (bool \<times> bool \<times> logWindows) option" where
  "autoChecks untar gunzip json_ts ctx seek_fails file opts meta cfg =
     (case MetadataChecks meta cfg of
        (genesisMatch, versionSupported) \<Rightarrow>
          if seek_fails then None
          else
            (case ScanLogs untar ctx file opts (check_log_entry gunzip json_ts cfg)
                    \<lparr>validator_window = zero_check, sentry_window = zero_check\<rparr> of
               (ws, Some _) \<Rightarrow> None
             | (ws, None) \<Rightarrow> Some (genesisMatch, versionSupported, ws)))"

section \<open>One budget for the whole submission\<close>

lemma window_config_simps [simp]:
  "windowSize (window_config b) = 2 ^ 30" "overlap (window_config b) = 2 ^ 20"
  "scan_budget (window_config b) = (if b \<le> 0 then DefaultScanBudget else b)"
  by (simp_all add: window_config_def windowSize_def overlap_def scan_budget_def defaultWindowSize_def
      defaultOverlap_def Let_def)

text \<open>What is kept while the walk goes on: the bytes counted and the budget left add up.\<close>

definition budget_inv :: "int \<Rightarrow> scan_state \<Rightarrow> bool" where
  "budget_inv budget s \<longleftrightarrow> 0 \<le> Bytes (cov s) \<and> 0 \<le> remaining s \<and> Bytes (cov s) + remaining s = budget"

lemma ScanStream_bytes:
  assumes "ScanStream scan ctx w r = Inr (v, c)"
  shows "0 \<le> Bytes c" "Bytes c \<le> scan_budget w"
    "Complete c \<Longrightarrow> \<not> sbroken r \<and> v = clean \<and> Bytes c = int (length (sdata r))"
proof -
  have "0 < scan_budget w" by (simp add: scan_budget_def DefaultScanBudget_def)
  with scan_windows_bytes [OF assms [unfolded ScanStream_def]]
  show "0 \<le> Bytes c" "Bytes c \<le> scan_budget w"
    "Complete c \<Longrightarrow> \<not> sbroken r \<and> v = clean \<and> Bytes c = int (length (sdata r))" by auto
qed

lemma scan_log_entry_inv:
  assumes "budget_inv budget s"
  shows "budget_inv budget (fst (scan_log_entry gunzip scan wctx name logGz s))"
proof (cases "gunzip logGz")
  case None
  with assms show ?thesis by (simp add: scan_log_entry_def budget_inv_def)
next
  case (Some gz)
  let ?k = "Suc (visited s)"
  show ?thesis
  proof (cases "ScanStream (scan ?k) (wctx ?k) (window_config (remaining s)) gz")
    case (Inl e)
    with Some assms show ?thesis by (simp add: scan_log_entry_def budget_inv_def)
  next
    case (Inr r)
    obtain v c where r: "r = (v, c)" by (cases r)
    have "0 \<le> Bytes c" "0 < remaining s \<Longrightarrow> Bytes c \<le> remaining s"
      using ScanStream_bytes [OF Inr [unfolded r]] by auto
    with Some Inr r assms show ?thesis by (auto simp: scan_log_entry_def budget_inv_def Let_def)
  qed
qed

lemma scan_entries_inv:
  assumes "\<And>n b s. P s \<Longrightarrow> P (fst (fn n b s))" "P s"
  shows "P (fst (scan_entries ctx opts c fn i s es))"
  using assms(2)
proof (induction es arbitrary: i s)
  case (Cons e es)
  obtain s' x where fn: "fn (hdr_name e) (limit_reader (MaxLogSize opts) (body e)) s = (s', x)" by fastforce
  then have "P s'" using assms(1) [OF Cons.prems, of "hdr_name e" "limit_reader (MaxLogSize opts) (body e)"] by simp
  with Cons fn show ?case by (cases x) auto
qed simp

lemma ScanLogs_inv:
  "(\<And>n b s. P s \<Longrightarrow> P (fst (fn n b s))) \<Longrightarrow> P s \<Longrightarrow> P (fst (ScanLogs untar ctx file opts fn s))"
  by (auto simp: ScanLogs_def Let_def split: option.splits intro: scan_entries_inv)

text \<open>Whatever the archive holds and however many logs it has, one submission never hands more decompressed bytes
  to the antivirus as counted coverage than its budget, and the count is never negative.\<close>

theorem scanArchive_budget:
  assumes "scanArchive untar gunzip scan wctx ctx sk file opts md budget = Inr (v, c)"
  shows "0 \<le> Bytes c \<and> Bytes c \<le> (if budget \<le> 0 then DefaultScanBudget else budget)"
proof -
  let ?b = "if budget \<le> 0 then DefaultScanBudget else budget"
  let ?s0 = "\<lparr>remaining = ?b, cov = \<lparr>Complete = True, Bytes = 0\<rparr>, infected = clean, visited = 0\<rparr>"
  obtain s x where w: "ScanLogs untar ctx file opts (scan_log_entry gunzip scan wctx) ?s0 = (s, x)" by fastforce
  have pos: "0 < ?b" by (simp add: DefaultScanBudget_def)
  then have "budget_inv ?b ?s0" by (simp add: budget_inv_def)
  then have "budget_inv ?b s"
    using ScanLogs_inv [of "budget_inv ?b" "scan_log_entry gunzip scan wctx" ?s0 untar ctx "file" opts]
      scan_log_entry_inv w by simp
  moreover have "c = cov s \<or> c = \<lparr>Complete = False, Bytes = 0\<rparr>"
    using assms w by (auto simp: scanArchive_def Let_def split: sum.splits if_splits option.splits
        scan_error.splits walk_stop.splits)
  ultimately show ?thesis using pos by (auto simp: budget_inv_def)
qed

section \<open>What a complete scan has seen\<close>

text \<open>A log entry that was scanned to its end and found clean.\<close>

definition scanned_clean :: "gunzip \<Rightarrow> scanner \<Rightarrow> scan_ctx \<Rightarrow> stream \<Rightarrow> bool" where
  "scanned_clean gunzip scan wctx logGz \<longleftrightarrow>
     (\<exists>gz k b v c. gunzip logGz = Some gz \<and> ScanStream (scan k) (wctx k) (window_config b) gz = Inr (v, c)
        \<and> Complete c)"

lemma scan_log_entry_ok:
  assumes "scan_log_entry gunzip scan wctx name logGz s = (s', None)" "Complete (cov s')"
  shows "Complete (cov s) \<and> scanned_clean gunzip scan wctx logGz"
proof -
  obtain gz v c where "gunzip logGz = Some gz" "Complete (cov s)" "Complete c"
    "ScanStream (scan (Suc (visited s))) (wctx (Suc (visited s))) (window_config (remaining s)) gz = Inr (v, c)"
    using assms by (auto simp: scan_log_entry_def Let_def split: if_splits option.splits sum.splits)
  then show ?thesis unfolding scanned_clean_def by blast
qed

lemma scan_entries_complete:
  assumes "scan_entries ctx opts c (scan_log_entry gunzip scan wctx) i s es = (s', None)" "Complete (cov s')"
  shows "Complete (cov s) \<and> (\<forall>e\<in>set es. is_log_name (hdr_name e) \<longrightarrow>
           scanned_clean gunzip scan wctx (limit_reader (MaxLogSize opts) (body e)))"
  using assms
proof (induction es arbitrary: i s)
  case (Cons e es)
  show ?case
  proof (cases "is_log_name (hdr_name e)")
    case True
    obtain s1 where s1: "scan_log_entry gunzip scan wctx (hdr_name e) (limit_reader (MaxLogSize opts) (body e)) s = (s1, None)"
      "scan_entries ctx opts c (scan_log_entry gunzip scan wctx) (Suc i) s1 es = (s', None)"
      using Cons.prems(1) True by (auto split: if_splits prod.splits option.splits)
    from Cons.IH [OF s1(2) Cons.prems(2)] scan_log_entry_ok [OF s1(1)] show ?thesis by auto
  next
    case False
    with Cons show ?thesis by (auto split: if_splits)
  qed
qed (auto split: if_splits)

lemma scan_log_entry_stop:
  "scan_log_entry gunzip scan wctx name logGz s = (s', Some StopInfected) \<Longrightarrow> Infected (infected s')"
  by (auto simp: scan_log_entry_def Let_def split: if_splits option.splits sum.splits)

lemma scan_entries_stop:
  "scan_entries ctx opts c (scan_log_entry gunzip scan wctx) i s es = (s', Some (ScanFn StopInfected)) \<Longrightarrow>
     Infected (infected s')"
proof (induction es arbitrary: i s)
  case (Cons e es)
  then show ?case by (auto split: if_splits prod.splits option.splits dest: scan_log_entry_stop)
qed (auto split: if_splits)

lemma ScanStream_clean_no_signature:
  assumes "ScanStream scan ctx (window_config b) r = Inr (v, c)" "Complete c"
    and "never_passes scan sig" "sig \<noteq> []" "length sig \<le> 2 ^ 20 + 1"
  shows "\<not> sublist sig (sdata r)"
proof
  assume "sublist sig (sdata r)"
  then obtain pre post where occ: "[] @ sdata r = pre @ sig @ post" by (auto simp: sublist_def)
  have "length pre + length sig \<le> length ([] :: bytes)"
    by (rule scan_windows_no_signature [OF assms(1) [unfolded ScanStream_def] assms(2,3) _ _ _ _ occ])
       (use assms(5) in simp_all)
  with assms(4) show False by simp
qed

text \<open>C5: when the scan of an archive ends clean and complete, the metadata and every log entry were scanned: each
  log was decompressed to an intact end, and no signature of up to a mebibyte that the scanner recognises
  occurs anywhere in the metadata or in the decompressed logs, window boundaries included.\<close>

theorem scanArchive_complete_clean:
  assumes "scanArchive untar gunzip scan wctx ctx sk file opts md budget = Inr (v, c)"
    and "\<not> Infected v" "Complete c" "untar file = Some ts"
    and "\<And>k. never_passes (scan k) sig" "sig \<noteq> []" "length sig \<le> 2 ^ 20 + 1"
  shows "\<not> sublist sig md \<and> (\<forall>e\<in>set (members ts). is_log_name (hdr_name e) \<longrightarrow>
           (\<exists>gz. gunzip (limit_reader (MaxLogSize (withDefaults opts)) (body e)) = Some gz
              \<and> \<not> sbroken gz \<and> \<not> sublist sig (sdata gz)))"
proof -
  let ?b = "if budget \<le> 0 then DefaultScanBudget else budget"
  let ?s0 = "\<lparr>remaining = ?b, cov = \<lparr>Complete = True, Bytes = 0\<rparr>, infected = clean, visited = 0\<rparr>"
  let ?walk = "scan_entries ctx (withDefaults opts) (corrupt ts) (scan_log_entry gunzip scan wctx) 0 ?s0 (members ts)"
  obtain v0 b0 where v0: "scan 0 0 (whole md) = (Inr v0, b0)"
    using assms(1) by (cases "scan 0 0 (whole md)") (auto simp: scanArchive_def split: sum.splits)
  have clean0: "\<not> Infected v0" using assms(1-3) v0 by (auto simp: scanArchive_def split: if_splits)
  then have md: "\<not> sublist sig md" 
    using assms(5) [of 0, unfolded never_passes_def, rule_format, OF v0] by auto
  have "\<exists>s. ?walk = (s, None) \<and> c = cov s"
    using assms(1-4) v0 clean0
    by (auto simp: scanArchive_def ScanLogs_def Let_def dest: scan_entries_stop
        split: sum.splits if_splits option.splits scan_error.splits walk_stop.splits prod.splits)
  then obtain s where s: "?walk = (s, None)" "Complete (cov s)" using assms(3) by blast
  have "\<exists>gz. gunzip (limit_reader (MaxLogSize (withDefaults opts)) (body e)) = Some gz
      \<and> \<not> sbroken gz \<and> \<not> sublist sig (sdata gz)"
    if e: "e \<in> set (members ts)" "is_log_name (hdr_name e)" for e
  proof -
    obtain gz k b u d where "gunzip (limit_reader (MaxLogSize (withDefaults opts)) (body e)) = Some gz"
      and st: "ScanStream (scan k) (wctx k) (window_config b) gz = Inr (u, d)" "Complete d"
      using scan_entries_complete [OF s] e unfolding scanned_clean_def by blast
    moreover have "\<not> sbroken gz" using ScanStream_bytes(3) [OF st] by simp
    moreover have "\<not> sublist sig (sdata gz)"
      by (rule ScanStream_clean_no_signature [OF st assms(5-7)])
    ultimately show ?thesis by blast
  qed
  with md show ?thesis by blast
qed

section \<open>What the checks find\<close>

definition entry_named :: "string \<Rightarrow> tar_entry list \<Rightarrow> tar_entry option" where
  "entry_named n es = find (\<lambda>e. hdr_name e = n) es"

lemma entry_named_simps [simp]:
  "entry_named n [] = None"
  "entry_named n (e # es) = (if hdr_name e = n then Some e else entry_named n es)"
  by (simp_all add: entry_named_def)

lemma check_fold:
  assumes "distinct (map hdr_name es)"
  shows "fold (\<lambda>e ws. fst (check_log_entry gunzip json_ts cfg (hdr_name e) (f e) ws)) es ws =
     \<lparr>validator_window = (case entry_named ValidatorLogFileName es of
        None \<Rightarrow> validator_window ws | Some e \<Rightarrow> ScanLogWindow gunzip json_ts (f e) cfg),
      sentry_window = (case entry_named SentryLogFileName es of
        None \<Rightarrow> sentry_window ws | Some e \<Rightarrow> ScanLogWindow gunzip json_ts (f e) cfg)\<rparr>"
  using assms
proof (induction es arbitrary: ws)
  case (Cons e es)
  have none: "entry_named (hdr_name e) es = None"
    using Cons.prems unfolding entry_named_def find_None_iff by (force simp: image_iff)
  have ne: "ValidatorLogFileName \<noteq> SentryLogFileName" by (simp add: entry_names)
  consider "hdr_name e = ValidatorLogFileName" | "hdr_name e = SentryLogFileName"
    | "hdr_name e \<noteq> ValidatorLogFileName" "hdr_name e \<noteq> SentryLogFileName" by blast
  then show ?case
  proof cases
    case 1
    with ne none Cons.IH [of "ws\<lparr>validator_window := ScanLogWindow gunzip json_ts (f e) cfg\<rparr>"] Cons.prems
    show ?thesis by (simp add: check_log_entry_def split: option.split)
  next
    case 2
    with ne none Cons.IH [of "ws\<lparr>sentry_window := ScanLogWindow gunzip json_ts (f e) cfg\<rparr>"] Cons.prems
    show ?thesis by (simp add: check_log_entry_def split: option.split)
  next
    case 3
    with Cons.IH [of ws] Cons.prems show ?thesis by (simp add: check_log_entry_def)
  qed
qed simp

lemma is_log_names: "is_log_name ValidatorLogFileName" "is_log_name SentryLogFileName"
  by (simp_all add: is_log_name_def)

lemma entry_named_filter:
  "is_log_name n \<Longrightarrow> entry_named n (filter (\<lambda>e. is_log_name (hdr_name e)) es) = entry_named n es"
  by (induction es) (auto simp: entry_named_def)

text \<open>The windows found in an accepted archive: one scan per log, of the whole entry.\<close>

definition archive_windows :: "gunzip \<Rightarrow> json_ts \<Rightarrow> config \<Rightarrow> tar_entry list \<Rightarrow> logWindows" where
  "archive_windows gunzip json_ts cfg es =
     \<lparr>validator_window = (case entry_named ValidatorLogFileName es of
        None \<Rightarrow> zero_check | Some e \<Rightarrow> ScanLogWindow gunzip json_ts (body e) cfg),
      sentry_window = (case entry_named SentryLogFileName es of
        None \<Rightarrow> zero_check | Some e \<Rightarrow> ScanLogWindow gunzip json_ts (body e) cfg)\<rparr>"

lemma fold_bodies:
  assumes "0 < MaxLogSize opts" "list_all (entry_ok opts) es"
  shows "fold (\<lambda>e s. g (hdr_name e) (limit_reader (MaxLogSize opts) (body e)) s)
           (filter (\<lambda>e. is_log_name (hdr_name e)) es) s
       = fold (\<lambda>e s. g (hdr_name e) (body e) s) (filter (\<lambda>e. is_log_name (hdr_name e)) es) s"
  using assms by (induction es arbitrary: s) (auto simp: entry_ok_def limit_reader_whole)

lemma check_never_stops: "check_log_entry gunzip json_ts cfg n b ws = (fst (check_log_entry gunzip json_ts cfg n b ws), None)"
  by (simp add: check_log_entry_def)

lemma autoChecks_accepted:
  assumes "sane opts" and "ValidateArchive untar ctx file opts = Inr r"
    and "untar file = Some ts" "\<And>i. \<not> ctx' i"
  shows "autoChecks untar gunzip json_ts ctx' False file opts meta cfg =
     Some (fst (MetadataChecks meta cfg), snd (MetadataChecks meta cfg),
           archive_windows gunzip json_ts cfg (members ts))"
proof -
  let ?o = "withDefaults opts"
  have sp: "archive_spec ?o ts r" using ValidateArchive_sound [OF assms(1,2)] assms(3) by simp
  then have ok: "list_all (entry_ok ?o) (members ts)" and nc: "corrupt ts = False"
    and d: "distinct (map hdr_name (filter (\<lambda>e. is_log_name (hdr_name e)) (members ts)))"
    by (auto simp: archive_spec_def intro: distinct_map_filter)
  let ?z = "\<lparr>validator_window = zero_check, sentry_window = zero_check\<rparr>"
  have "ScanLogs untar ctx' file opts (check_log_entry gunzip json_ts cfg) ?z =
      (fold (\<lambda>e s. fst (check_log_entry gunzip json_ts cfg (hdr_name e) (body e) s))
         (filter (\<lambda>e. is_log_name (hdr_name e)) (members ts)) ?z, None)"
    unfolding ScanLogs_def Let_def assms(3) option.case nc scan_entries_fold [OF assms(4) check_never_stops]
    by (subst fold_bodies [OF withDefaults_pos(1) ok,
          where g = "\<lambda>n b ws. fst (check_log_entry gunzip json_ts cfg n b ws)"]) (rule refl)
  also have "\<dots> = (archive_windows gunzip json_ts cfg (members ts), None)"
    unfolding check_fold [OF d] archive_windows_def
    by (simp add: entry_named_filter is_log_names split: option.split)
  finally show ?thesis by (simp add: autoChecks_def split: prod.splits)
qed

text \<open>On an accepted archive the automatic checks never fail once the upload can be rewound and the context is not
  cancelled, and they look at each log exactly once and in full: the validator log's window, and the sentry
  log's when there is one.\<close>

theorem autoChecks_total:
  assumes "sane opts" and "ValidateArchive untar ctx file opts = Inr r"
    and "untar file = Some ts" "\<And>i. \<not> ctx' i"
  shows "autoChecks untar gunzip json_ts ctx' False file opts meta cfg =
     Some (fst (MetadataChecks meta cfg), snd (MetadataChecks meta cfg),
           archive_windows gunzip json_ts cfg (members ts))"
  using assms by (rule autoChecks_accepted)

section \<open>Concrete instances\<close>

definition sample_gunzip :: gunzip where
  "sample_gunzip s = Some (s\<lparr>sdata := drop 2 (sdata s)\<rparr>)"

definition sample_scan :: "bytes \<Rightarrow> archive_scan_error + verdict \<times> coverage" where
  "sample_scan ls = scanArchive (\<lambda>_. Some (sample_tar ls)) sample_gunzip (\<lambda>_. finds_x) (\<lambda>_ _. None) (\<lambda>_. False) False ''tar''
      sample_options ''{}'' 10"

lemma sample_scan_ok: "sample_scan ''ok'' = Inr (clean, \<lparr>Complete = True, Bytes = 2\<rparr>)"
proof -
  let ?gz = "\<lparr>sdata = ''ok'', sbroken = False\<rparr>"
  have "ScanStream finds_x (\<lambda>_. None) (window_config 10) ?gz = Inr (clean, \<lparr>Complete = True, Bytes = 2\<rparr>)"
    by (simp add: ScanStream_def scan_windows.simps finds_x_def clean_def complete_def)
  then show ?thesis
    unfolding sample_scan_def scanArchive_def ScanLogs_def sample_sane
    by (simp add: sample_tar_def finds_x_def clean_def logEntries_def entry_names scan_log_entry_def sample_gunzip_def
        limit_reader_def limit_to_def sample_options_def whole_def)
qed

theorem scanArchive_complete_clean_witness:
  "sample_scan ''ok'' = Inr (clean, \<lparr>Complete = True, Bytes = 2\<rparr>) \<and> \<not> sublist ''x'' ''{}''
   \<and> (\<exists>gz. sample_gunzip (limit_reader (MaxLogSize sample_options) (body (members (sample_tar ''ok'') ! 0))) = Some gz
        \<and> \<not> sbroken gz \<and> \<not> sublist ''x'' (sdata gz))"
proof -
  have "is_log_name (hdr_name (members (sample_tar ''ok'') ! 0))" "members (sample_tar ''ok'') ! 0 \<in> set (members (sample_tar ''ok''))"
    by (simp_all add: sample_tar_def is_log_name_def)
  with scanArchive_complete_clean [OF sample_scan_ok [unfolded sample_scan_def] _ _ _ finds_x_never_passes, of "sample_tar ''ok''"]
    sample_scan_ok show ?thesis by (simp add: clean_def sample_sane)
qed

end
