(* ===== verification/Submission_Name.thy ===== *)
theory Submission_Name
  imports Go_Time
begin

text \<open>
  \<^verbatim>\<open>src/submission/name.go\<close>: the naming convention of an archive,
  \<^verbatim>\<open><moniker>-<YYYYMMDD-HHMMUTC>.tar.gz\<close>.

  The two regular expressions are transcribed as string predicates. The part of \<open>filenameRe\<close>
  after the greedy moniker group has a fixed length of 24 bytes, so the group is everything
  before it. \<open>.\<close> matches every byte but a newline.
\<close>

section \<open>Data and operations\<close>

datatype name_error = BadName | BadMoniker string | BadTimestamp string

text \<open>The parsed time, by its clock in UTC.\<close>

record stamp =
  st_year :: int
  st_month :: int
  st_day :: int
  st_hour :: int
  st_min :: int

definition is_alnum :: "char \<Rightarrow> bool" where
  "is_alnum c \<longleftrightarrow>
     (let n = (of_char c :: nat) in
      97 \<le> n \<and> n \<le> 122 \<or> 65 \<le> n \<and> n \<le> 90 \<or> 48 \<le> n \<and> n \<le> 57)"

definition filenameRe :: "string \<Rightarrow> (string \<times> string) option" where
  "filenameRe name =
     (let m = take (length name - 24) name; r = drop (length name - 24) name in
      if 25 \<le> length name \<and> nl \<notin> set m
         \<and> take 1 r = ''-'' \<and> list_all is_digit (take 8 (drop 1 r))
         \<and> take 1 (drop 9 r) = ''-'' \<and> list_all is_digit (take 4 (drop 10 r))
         \<and> take 3 (drop 14 r) = ''UTC'' \<and> drop 17 r = ''.tar.gz''
      then Some (m, take 16 (drop 1 r)) else None)"

definition monikerCharsRe :: "string \<Rightarrow> bool" where
  "monikerCharsRe m \<longleftrightarrow>
     (case m of
        [] \<Rightarrow> False
      | c # cs \<Rightarrow> is_alnum c \<and> list_all (\<lambda>d. is_alnum d \<or> d = CHR ''_'' \<or> d = CHR ''-'') cs)"

definition stamp_ok :: "stamp \<Rightarrow> bool" where
  "stamp_ok t \<longleftrightarrow>
     0 \<le> st_year t \<and> st_year t \<le> 9999 \<and> valid_date (st_year t) (st_month t) (st_day t)
     \<and> valid_clock (st_hour t) (st_min t) 0"

text \<open>\<open>time.Parse\<close> with the layout \<^verbatim>\<open>20060102-1504UTC\<close>.\<close>

definition parse_stamp :: "string \<Rightarrow> stamp option" where
  "parse_stamp s0 = do {
     (y, s1) \<leftarrow> get_year s0;
     (mo, s2) \<leftarrow> getnum True s1;
     (d, s3) \<leftarrow> getnum True s2;
     s4 \<leftarrow> skip (CHR ''-'') s3;
     (h, s5) \<leftarrow> getnum False s4;
     (mi, s6) \<leftarrow> getnum True s5;
     (if s6 = ''UTC'' \<and> valid_date y mo d \<and> valid_clock h mi 0
      then Some \<lparr>st_year = y, st_month = mo, st_day = d, st_hour = h, st_min = mi\<rparr> else None)
   }"

definition ValidateFilename :: "string \<Rightarrow> name_error + string \<times> stamp" where
  "ValidateFilename name =
     (case filenameRe name of
        None \<Rightarrow> Inl BadName
      | Some (moniker, tsPart) \<Rightarrow>
          if \<not> monikerCharsRe moniker then Inl (BadMoniker moniker)
          else (case parse_stamp tsPart of
                  None \<Rightarrow> Inl (BadTimestamp tsPart)
                | Some t \<Rightarrow> Inr (moniker, t)))"

section \<open>Printing\<close>

definition digit_char :: "int \<Rightarrow> char" where
  "digit_char d = char_of (nat (d + 48))"

text \<open>A number at a fixed width, padded with zeros.\<close>

fun pad :: "nat \<Rightarrow> int \<Rightarrow> string" where
  "pad 0 n = []"
| "pad (Suc k) n = pad k (n div 10) @ [digit_char (n mod 10)]"

text \<open>The response's \<open>submitted_at\<close>: \<open>Format\<close> with the layout \<^verbatim>\<open>2006-01-02T15:04Z\<close>.\<close>

definition format_stamp :: "stamp \<Rightarrow> string" where
  "format_stamp t =
     pad 4 (st_year t) @ ''-'' @ pad 2 (st_month t) @ ''-'' @ pad 2 (st_day t) @ ''T''
     @ pad 2 (st_hour t) @ '':'' @ pad 2 (st_min t) @ ''Z''"

text \<open>The canonical archive name of a moniker and a time, and its timestamp part.\<close>

definition stamp_text :: "stamp \<Rightarrow> string" where
  "stamp_text t =
     pad 4 (st_year t) @ pad 2 (st_month t) @ pad 2 (st_day t) @ ''-''
     @ pad 2 (st_hour t) @ pad 2 (st_min t) @ ''UTC''"

definition archive_name :: "string \<Rightarrow> stamp \<Rightarrow> string" where
  "archive_name m t = m @ ''-'' @ stamp_text t @ ''.tar.gz''"

section \<open>Numbers and their digits\<close>

lemma length_pad [simp]: "length (pad k n) = k"
  by (induction k arbitrary: n) auto

lemma of_digit_char: "0 \<le> d \<Longrightarrow> d \<le> 9 \<Longrightarrow> (of_char (digit_char d) :: nat) = nat d + 48"
  by (simp add: digit_char_def nat_add_distrib of_char_of take_bit_eq_mod)

lemma digit_char_props [simp]:
  assumes "0 \<le> d" "d \<le> 9"
  shows "is_digit (digit_char d)" "digit_val (digit_char d) = d"
proof -
  have n: "(of_char (digit_char d) :: nat) = nat d + 48" using assms by (rule of_digit_char)
  then show "is_digit (digit_char d)" using assms by (simp add: is_digit_def)
  have "(of_char (digit_char d) :: int) = int (of_char (digit_char d))" by (simp add: of_char_def)
  then show "digit_val (digit_char d) = d" using assms n by (simp add: digit_val_def)
qed

lemma digit_char_val [simp]: "is_digit c \<Longrightarrow> digit_char (digit_val c) = c"
proof -
  assume c: "is_digit c"
  have "(of_char c :: int) = int (of_char c)" by (simp add: of_char_def)
  with c have "nat (digit_val c + 48) = of_char c" by (simp add: digit_val_def)
  then show ?thesis by (simp add: digit_char_def)
qed

lemma pad_digits [simp]: "list_all is_digit (pad k n)"
  by (induction k arbitrary: n) auto

lemma num_acc_snoc: "num_acc a (ds @ [d]) = num_acc a ds * 10 + digit_val d"
  by (induction ds arbitrary: a) auto

lemma num_of_pad: "0 \<le> n \<Longrightarrow> n < 10 ^ k \<Longrightarrow> num_of (pad k n) = n"
proof (induction k arbitrary: n)
  case (Suc k)
  then have "n div 10 < 10 ^ k" "0 \<le> n div 10" by auto
  then have "num_of (pad k (n div 10)) = n div 10" using Suc.IH by simp
  then show ?case by (simp add: num_acc_snoc)
qed simp

lemma pad_num_of: "list_all is_digit ds \<Longrightarrow> pad (length ds) (num_of ds) = ds"
proof (induction ds rule: rev_induct)
  case (snoc d ds)
  then have d: "0 \<le> digit_val d" "digit_val d \<le> 9" using digit_val_bounds [of d] by auto
  then have "(num_of ds * 10 + digit_val d) div 10 = num_of ds"
    "(num_of ds * 10 + digit_val d) mod 10 = digit_val d" by simp_all
  with snoc show ?case by (simp add: num_acc_snoc)
qed simp

lemma num_of_bounds: "list_all is_digit ds \<Longrightarrow> 0 \<le> num_of ds \<and> num_of ds < 10 ^ length ds"
proof (induction ds rule: rev_induct)
  case (snoc d ds)
  then show ?case using digit_val_bounds [of d] by (auto simp: num_acc_snoc)
qed simp


section \<open>The name and what is parsed from it\<close>

lemma get_year_digits [simp]:
  "length ds = 4 \<Longrightarrow> list_all is_digit ds \<Longrightarrow> get_year (ds @ s) = Some (num_of ds, s)"
  by (simp add: get_year_def)

lemma getnum_digits [simp]:
  assumes "length ds = 2" "list_all is_digit ds"
  shows "getnum f (ds @ s) = Some (num_of ds, s)"
proof -
  obtain a b where "ds = [a, b]" using assms(1) by (auto simp: length_Suc_conv numeral_2_eq_2)
  with assms(2) show ?thesis by (simp del: num_acc.simps)
qed

lemma skip_head [simp]: "skip c ([c] @ s) = Some s"
  by simp

lemma days_in_le: "days_in m y \<le> 31"
  by (simp add: days_in_def)

lemma stamp_fields:
  assumes "stamp_ok t"
  shows "num_of (pad 4 (st_year t)) = st_year t" "num_of (pad 2 (st_month t)) = st_month t"
    "num_of (pad 2 (st_day t)) = st_day t" "num_of (pad 2 (st_hour t)) = st_hour t"
    "num_of (pad 2 (st_min t)) = st_min t"
  using assms days_in_le [of "st_month t" "st_year t"]
  by (auto simp: stamp_ok_def valid_date_def valid_clock_def intro!: num_of_pad)

lemma parse_stamp_text: "stamp_ok t \<Longrightarrow> parse_stamp (stamp_text t) = Some t"
  by (simp add: parse_stamp_def stamp_text_def stamp_fields del: append_Cons pad.simps)
     (cases t, simp add: stamp_ok_def)

lemma split_digits:
  assumes "length a = n + k" "list_all is_digit a"
  obtains x y where "a = x @ y" "length x = n" "length y = k" "list_all is_digit x" "list_all is_digit y"
proof
  show "a = take n a @ drop n a" by simp
qed (use assms in \<open>auto simp: list_all_iff dest: in_set_takeD in_set_dropD\<close>)

lemma parse_stamp_inv:
  assumes "length a = 8" "list_all is_digit a" "length b = 4" "list_all is_digit b"
    and "parse_stamp (a @ ''-'' @ b @ ''UTC'') = Some t"
  shows "stamp_ok t \<and> stamp_text t = a @ ''-'' @ b @ ''UTC''"
proof -
  obtain y md where a: "a = y @ md" "length y = 4" "length md = 4" "list_all is_digit y" "list_all is_digit md"
    using split_digits [of a 4 4] assms(1,2) by auto
  obtain mo d where md: "md = mo @ d" "length mo = 2" "length d = 2" "list_all is_digit mo" "list_all is_digit d"
    using split_digits [of md 2 2] a(3,5) by auto
  obtain h mi where b: "b = h @ mi" "length h = 2" "length mi = 2" "list_all is_digit h" "list_all is_digit mi"
    using split_digits [of b 2 2] assms(3,4) by auto
  have t: "t = \<lparr>st_year = num_of y, st_month = num_of mo, st_day = num_of d, st_hour = num_of h, st_min = num_of mi\<rparr>"
    and ok: "valid_date (num_of y) (num_of mo) (num_of d)" "valid_clock (num_of h) (num_of mi) 0"
    using assms(5) a md b by (auto simp: parse_stamp_def split: if_splits)
  have "num_of y < 10 ^ 4" "0 \<le> num_of y" using num_of_bounds [of y] a by auto
  then have "stamp_ok t" using ok by (simp add: t stamp_ok_def)
  moreover have "stamp_text t = a @ ''-'' @ b @ ''UTC''"
    using pad_num_of [of y] pad_num_of [of mo] pad_num_of [of d] pad_num_of [of h] pad_num_of [of mi] a md b
    by (simp add: t stamp_text_def)
  ultimately show ?thesis by simp
qed

lemma filenameRe_iff:
  "filenameRe name = Some (m, ts) \<longleftrightarrow>
     m \<noteq> [] \<and> nl \<notin> set m \<and> name = m @ ''-'' @ ts @ ''.tar.gz''
     \<and> (\<exists>a b. length a = 8 \<and> list_all is_digit a \<and> length b = 4 \<and> list_all is_digit b
             \<and> ts = a @ ''-'' @ b @ ''UTC'')" (is "?L \<longleftrightarrow> ?R")
proof
  assume ?R
  then obtain a b where ab: "length a = 8" "list_all is_digit a" "length b = 4" "list_all is_digit b"
    and m: "m \<noteq> []" "nl \<notin> set m" and ts: "ts = a @ ''-'' @ b @ ''UTC''" and name: "name = m @ ''-'' @ ts @ ''.tar.gz''"
    by blast
  let ?r = "''-'' @ a @ ''-'' @ b @ ''UTC'' @ ''.tar.gz''"
  have r: "name = m @ ?r" "length ?r = 24" using ab by (simp_all add: name ts)
  then have "take (length name - 24) name = m" "drop (length name - 24) name = ?r" "25 \<le> length name"
    using m(1) by (simp_all add: Suc_le_eq del: append_Cons append_Nil)
  moreover have "take 8 (drop 1 ?r) = a" "take 1 ?r = ''-''" "drop 9 ?r = ''-'' @ b @ ''UTC.tar.gz''"
    "drop 10 ?r = b @ ''UTC.tar.gz''" "drop 14 ?r = ''UTC.tar.gz''" "drop 17 ?r = ''.tar.gz''" "take 16 (drop 1 ?r) = ts"
    using ab by (simp_all add: ts)
  ultimately show ?L using ab m unfolding filenameRe_def Let_def by simp
next
  assume L: ?L
  define r where "r = drop (length name - 24) name"
  have r: "length name \<ge> 25" "nl \<notin> set m" "m = take (length name - 24) name"
    "take 1 r = ''-''" "list_all is_digit (take 8 (drop 1 r))"
    "take 1 (drop 9 r) = ''-''" "list_all is_digit (take 4 (drop 10 r))"
    "take 3 (drop 14 r) = ''UTC''" "drop 17 r = ''.tar.gz''" "ts = take 16 (drop 1 r)"
    using L by (auto simp: filenameRe_def Let_def r_def split: if_splits)
  have len: "length r = 24" using r(1) by (simp add: r_def)
  define a b where "a = take 8 (drop 1 r)" and "b = take 4 (drop 10 r)"
  then have ab: "length a = 8" "length b = 4" using len by simp_all
  have cut: "drop i r = take j (drop i r) @ drop (i + j) r" for i j
    by (metis append_take_drop_id drop_drop add.commute)
  have tl_r: "drop 1 r = (a @ ''-'' @ b @ ''UTC'') @ ''.tar.gz''"
    using cut [of 1 8] cut [of 9 1] cut [of 10 4] cut [of 14 3] r(6,8,9) by (simp add: a_def b_def)
  have ts: "ts = a @ ''-'' @ b @ ''UTC''"
    unfolding r(10) tl_r using ab by simp
  have "name = m @ r" by (simp add: r(3) r_def)
  also have "r = ''-'' @ drop 1 r"
    by (rule append_take_drop_id [of 1 r, unfolded r(4), symmetric])
  finally have "name = m @ ''-'' @ ts @ ''.tar.gz''" unfolding tl_r ts by simp
  moreover have "m \<noteq> []" using r(1,3) by auto
  ultimately show ?R
    using r(2) ab ts r(5,7) [folded a_def b_def] by blast
qed

lemma alnum_not_nl: "is_alnum c \<Longrightarrow> c \<noteq> nl"
  by (auto simp: is_alnum_def nl_def Let_def)

lemma moniker_no_nl: "monikerCharsRe m \<Longrightarrow> m \<noteq> [] \<and> nl \<notin> set m"
  by (auto simp: monikerCharsRe_def nl_def list_all_iff split: list.splits
      dest: alnum_not_nl [unfolded nl_def])

lemma stamp_text_shape:
  "\<exists>a b. length a = 8 \<and> list_all is_digit a \<and> length b = 4 \<and> list_all is_digit b
         \<and> stamp_text t = a @ ''-'' @ b @ ''UTC''"
  by (rule exI [of _ "pad 4 (st_year t) @ pad 2 (st_month t) @ pad 2 (st_day t)"],
      rule exI [of _ "pad 2 (st_hour t) @ pad 2 (st_min t)"]) (simp add: stamp_text_def)

lemma ValidateFilename_exact:
  "ValidateFilename name = Inr (m, t) \<longleftrightarrow>
     monikerCharsRe m \<and> stamp_ok t \<and> name = archive_name m t" (is "?L \<longleftrightarrow> ?R")
proof
  assume ?R
  then have "filenameRe name = Some (m, stamp_text t)"
    using moniker_no_nl [of m] stamp_text_shape [of t] by (simp add: filenameRe_iff archive_name_def)
  with \<open>?R\<close> show ?L by (simp add: ValidateFilename_def parse_stamp_text)
next
  assume ?L
  then obtain ts where f: "filenameRe name = Some (m, ts)" and m: "monikerCharsRe m"
    and p: "parse_stamp ts = Some t"
    by (auto simp: ValidateFilename_def split: option.splits if_splits)
  then obtain a b where "length a = 8" "list_all is_digit a" "length b = 4" "list_all is_digit b"
    and ts: "ts = a @ ''-'' @ b @ ''UTC''" and name: "name = m @ ''-'' @ ts @ ''.tar.gz''"
    unfolding filenameRe_iff by blast
  with p have "stamp_ok t \<and> stamp_text t = ts" using parse_stamp_inv by blast
  with m name show ?R by (simp add: archive_name_def)
qed

text \<open>C27: a file name is accepted exactly when it is the canonical name of a moniker in the allowed
  alphabet and a valid time, and then exactly that moniker and that time are returned: parsing
  and printing the convention are inverse, hyphens in the moniker included.\<close>

theorem ValidateFilename_iff:
  "ValidateFilename name = Inr (m, t) \<longleftrightarrow>
     monikerCharsRe m \<and> stamp_ok t \<and> name = archive_name m t"
  by (rule ValidateFilename_exact)

end
