(* ===== verification/Score_Store.thy ===== *)
theory Score_Store
  imports Scoring "HOL-Library.AList"
begin

text \<open>
  \<^verbatim>\<open>src/scoring/store.go\<close>: the scoring records, one JSON file rewritten whole on every change.
  The Go map from submission identifiers to records is an association list with distinct keys.
  The lock makes every operation one step.
\<close>

section \<open>Operations\<close>

type_synonym scores = "(string \<times> result) list"
type_synonym scores_file = "scores doc option"

definition check_encodable :: "log_window_check \<Rightarrow> bool" where
  "check_encodable w \<longleftrightarrow> marshalable (FirstSeen w) \<and> marshalable (LastSeen w)"

definition result_encodable :: "result \<Rightarrow> bool" where
  "result_encodable r \<longleftrightarrow> check_encodable (LogWindow r) \<and> check_encodable (SentryLogWindow r)"

definition scores_encodable :: "scores \<Rightarrow> bool" where
  "scores_encodable m \<longleftrightarrow> list_all (\<lambda>(_, r). result_encodable r) m"

definition Store_all :: "bool \<Rightarrow> scores_file \<Rightarrow> store_error + scores" where
  "Store_all unreadable file = load_file [] unreadable file"

definition Store_save ::
  "(stage \<Rightarrow> bool) \<Rightarrow> scores \<Rightarrow> scores_file \<Rightarrow> store_error option \<times> scores_file" where
  "Store_save disk results file = save_file scores_encodable disk results file"

definition Store_Get :: "bool \<Rightarrow> string \<Rightarrow> scores_file \<Rightarrow> store_error + result option" where
  "Store_Get unreadable i file =
     (case Store_all unreadable file of
        Inl e \<Rightarrow> Inl e
      | Inr results \<Rightarrow> Inr (map_of results i))"

definition Store_Set ::
  "bool \<Rightarrow> (stage \<Rightarrow> bool) \<Rightarrow> result \<Rightarrow> scores_file \<Rightarrow> store_error option \<times> scores_file" where
  "Store_Set unreadable disk r file =
     (case Store_all unreadable file of
        Inl e \<Rightarrow> (Some e, file)
      | Inr results \<Rightarrow> Store_save disk (AList.update (SubmissionID r) r results) file)"

definition Store_Delete ::
  "bool \<Rightarrow> (stage \<Rightarrow> bool) \<Rightarrow> string \<Rightarrow> scores_file \<Rightarrow> store_error option \<times> scores_file" where
  "Store_Delete unreadable disk i file =
     (case Store_all unreadable file of
        Inl e \<Rightarrow> (Some e, file)
      | Inr results \<Rightarrow>
          if map_of results i = None then (None, file)
          else Store_save disk (AList.delete i results) file)"

text \<open>\<open>List\<close> ranges over a Go map, in no particular order: \<open>order\<close> is the one the iteration takes.\<close>

definition Store_List :: "(scores \<Rightarrow> scores) \<Rightarrow> bool \<Rightarrow> scores_file \<Rightarrow> store_error + result list" where
  "Store_List order unreadable file =
     (case Store_all unreadable file of Inl e \<Rightarrow> Inl e | Inr results \<Rightarrow> Inr (map snd (order results)))"

definition Store_ByID :: "bool \<Rightarrow> scores_file \<Rightarrow> store_error + scores" where
  "Store_ByID unreadable file = Store_all unreadable file"

section \<open>The contract of a keyed store\<close>

text \<open>
  What the handlers rely on: what a lookup returns after a write or a removal that succeeded, and
  that one that failed has either happened or not.
\<close>

locale keyed_store =
  fixes get :: "'f \<Rightarrow> 'k \<Rightarrow> 'e + 'v option"
    and put :: "'d \<Rightarrow> 'v \<Rightarrow> 'f \<Rightarrow> 'x option \<times> 'f"
    and del :: "'d \<Rightarrow> 'k \<Rightarrow> 'f \<Rightarrow> 'x option \<times> 'f"
    and key :: "'v \<Rightarrow> 'k"
  assumes get_put: "put d v f = (None, f') \<Longrightarrow> get f' k = (if k = key v then Inr (Some v) else get f k)"
    and get_put_error: "put d v f = (Some x, f') \<Longrightarrow>
        get f' = get f \<or> get f' = (get f)(key v := Inr (Some v))"
    and get_del: "del d k f = (None, f') \<Longrightarrow> get f' j = (if j = k then Inr None else get f j)"
    and get_del_error: "del d k f = (Some x, f') \<Longrightarrow>
        get f' = get f \<or> get f' = (get f)(k := Inr None)"
begin

lemma put_other: "k \<noteq> key v \<Longrightarrow> get (snd (put d v f)) k = get f k"
proof (cases "put d v f")
  case (Pair e f')
  assume "k \<noteq> key v"
  with Pair show ?thesis
    by (cases e) (use get_put [of d v f f' k] get_put_error [of d v f _ f'] in auto)
qed

lemma del_other: "j \<noteq> k \<Longrightarrow> get (snd (del d k f)) j = get f j"
proof (cases "del d k f")
  case (Pair e f')
  assume "j \<noteq> k"
  with Pair show ?thesis
    by (cases e) (use get_del [of d k f f' j] get_del_error [of d k f _ f'] in auto)
qed

lemma put_then_del:
  "put d v f = (None, f') \<Longrightarrow> del d' (key v) f' = (None, f'') \<Longrightarrow>
     get f'' k = (if k = key v then Inr None else get f k)"
  using get_del [of d' "key v" f' f'' k] get_put [of d v f f' k] by auto

lemma put_twice:
  "put d v f = (None, f') \<Longrightarrow> put d' w f' = (None, f'') \<Longrightarrow> key v = key w \<Longrightarrow>
     get f'' k = (if k = key w then Inr (Some w) else get f k)"
  using get_put [of d v f f' k] get_put [of d' w f' f'' k] by auto

lemma put_keeps:
  assumes "get f k = Inr (Some v)" "k \<noteq> key w"
  shows "get (snd (put d w f)) k = Inr (Some v)"
  using assms by (simp add: put_other)

end

section \<open>The file implements it\<close>

lemma map_of_update [simp]: "map_of (AList.update k v m) j = (if j = k then Some v else map_of m j)"
  by (simp add: update_conv')

lemma map_of_delete [simp]: "map_of (AList.delete k m) j = (if j = k then None else map_of m j)"
  by (simp add: delete_conv')

lemma Store_all_Inr:
  "Store_all False file = Inr results \<longleftrightarrow>
     (file = None \<or> file = Some Blank) \<and> results = [] \<or> file = Some (Doc results)"
  by (auto simp: Store_all_def load_file_def split: option.splits doc.splits)

lemma Store_Get_save:
  "Store_save disk m file = (None, file') \<Longrightarrow> Store_Get False k file' = Inr (map_of m k)"
  "Store_save disk m file = (Some x, file') \<Longrightarrow>
     (\<lambda>k. Store_Get False k file') = (\<lambda>k. Store_Get False k file)
     \<or> (\<lambda>k. Store_Get False k file') = (\<lambda>k. Inr (map_of m k))"
  by (auto simp: Store_save_def save_file_cases Store_Get_def Store_all_def load_file_def fails_def
      split: if_splits)

lemma Store_Get_Inr: "Store_all False file = Inr m \<Longrightarrow> Store_Get False k file = Inr (map_of m k)"
  by (simp add: Store_Get_def)

interpretation scores: keyed_store
  "\<lambda>file i. Store_Get False i file" "Store_Set False" "Store_Delete False" SubmissionID
proof
  fix d v f f' k
  assume "Store_Set False d v f = (None, f')"
  then show "Store_Get False k f' = (if k = SubmissionID v then Inr (Some v) else Store_Get False k f)"
    by (auto simp: Store_Set_def Store_Get_save(1) Store_Get_Inr split: sum.splits)
next
  fix d v f x f'
  assume "Store_Set False d v f = (Some x, f')"
  then show "(\<lambda>i. Store_Get False i f') = (\<lambda>i. Store_Get False i f) \<or>
       (\<lambda>i. Store_Get False i f') = (\<lambda>i. Store_Get False i f)(SubmissionID v := Inr (Some v))"
    by (auto simp: Store_Set_def Store_Get_Inr fun_eq_iff dest!: Store_Get_save(2) split: sum.splits)
next
  fix d k f f' j
  assume "Store_Delete False d k f = (None, f')"
  then show "Store_Get False j f' = (if j = k then Inr None else Store_Get False j f)"
    by (auto simp: Store_Delete_def Store_Get_save(1) Store_Get_Inr split: sum.splits if_splits)
next
  fix d k f x f'
  assume "Store_Delete False d k f = (Some x, f')"
  then show "(\<lambda>i. Store_Get False i f') = (\<lambda>i. Store_Get False i f) \<or>
       (\<lambda>i. Store_Get False i f') = (\<lambda>i. Store_Get False i f)(k := Inr None)"
    by (auto simp: Store_Delete_def Store_Get_Inr fun_eq_iff dest!: Store_Get_save(2)
        split: sum.splits if_splits)
qed

section \<open>What the file holds\<close>

text \<open>Every record is filed once, under its own identifier, and keeps the bounds of the rubric.\<close>

definition scores_ok :: "scores \<Rightarrow> bool" where
  "scores_ok m \<longleftrightarrow> distinct (map fst m) \<and> list_all (\<lambda>(k, r). k = SubmissionID r \<and> result_ok r) m"

definition scores_file_ok :: "scores_file \<Rightarrow> bool" where
  "scores_file_ok file \<longleftrightarrow> (case file of Some (Doc m) \<Rightarrow> scores_ok m | _ \<Rightarrow> True)"

lemma scores_ok_update: "scores_ok m \<Longrightarrow> result_ok r \<Longrightarrow> scores_ok (AList.update (SubmissionID r) r m)"
proof -
  assume m: "scores_ok m" and r: "result_ok r"
  have "set (AList.update k v m) \<subseteq> insert (k, v) (set m)" for k and v :: result
    by (induction m) auto
  with m r show ?thesis
    unfolding scores_ok_def list_all_iff by (fastforce simp: distinct_update)
qed

lemma scores_ok_delete: "scores_ok m \<Longrightarrow> scores_ok (AList.delete k m)"
  unfolding scores_ok_def list_all_iff by (simp add: distinct_delete) (auto simp: AList.delete_eq)

lemma Store_save_ok: "scores_ok m \<Longrightarrow> scores_file_ok f \<Longrightarrow> scores_file_ok (snd (Store_save disk m f))"
  by (simp add: Store_save_def save_file_cases scores_file_ok_def split: option.splits)

lemma Store_all_ok: "scores_file_ok f \<Longrightarrow> Store_all unreadable f = Inr m \<Longrightarrow> scores_ok m"
  by (auto simp: Store_all_def load_file_def scores_file_ok_def scores_ok_def split: if_splits option.splits doc.splits)

lemma Store_Set_ok: "scores_file_ok f \<Longrightarrow> result_ok r \<Longrightarrow> scores_file_ok (snd (Store_Set u d r f))"
  by (auto simp: Store_Set_def split: sum.split intro!: Store_save_ok scores_ok_update dest: Store_all_ok)

lemma Store_Delete_ok: "scores_file_ok f \<Longrightarrow> scores_file_ok (snd (Store_Delete u d i f))"
  by (auto simp: Store_Delete_def split: sum.split intro!: Store_save_ok scores_ok_delete dest: Store_all_ok)

lemma Store_Get_ok:
  "scores_file_ok f \<Longrightarrow> Store_Get u i f = Inr (Some r) \<Longrightarrow> SubmissionID r = i \<and> result_ok r"
proof -
  assume f: "scores_file_ok f" and g: "Store_Get u i f = Inr (Some r)"
  then obtain m where m: "Store_all u f = Inr m" "map_of m i = Some r"
    by (auto simp: Store_Get_def split: sum.splits)
  with Store_all_ok [OF f m(1)] show ?thesis
    by (auto simp: scores_ok_def list_all_iff dest!: map_of_SomeD)
qed

text \<open>A record that is written can be read back, alone of its key, until it is deleted: a lookup after a write that
  reports success finds the record under its own identifier and what was there before under every other, and
  after a deletion it finds nothing.\<close>

theorem Store_Set_Get_Delete:
  assumes "Store_Set False d r f = (None, f')" and "Store_Delete False d' (SubmissionID r) f' = (None, f'')"
  shows "Store_Get False i f' = (if i = SubmissionID r then Inr (Some r) else Store_Get False i f)
     \<and> Store_Get False i f'' = (if i = SubmissionID r then Inr None else Store_Get False i f)"
  using scores.get_put [OF assms(1), of i] scores.put_then_del [OF assms, of i] by simp

text \<open>A record with a time the encoder refuses cannot be saved, and with it the whole file: the write is reported
  as an error and the file keeps its old content.\<close>

lemma Store_Set_unencodable:
  assumes "\<not> result_encodable r"
  shows "snd (Store_Set u d r f) = f" and "Store_all u f = Inr m \<Longrightarrow> fst (Store_Set u d r f) = Some MarshalError"
proof -
  have "\<not> scores_encodable (AList.update (SubmissionID r) r ms)" for ms
  proof -
    have "(SubmissionID r, r) \<in> set (AList.update (SubmissionID r) r ms)" by (metis map_of_SomeD map_of_update)
    with assms show ?thesis by (auto simp: scores_encodable_def list_all_iff)
  qed
  then show "snd (Store_Set u d r f) = f" "Store_all u f = Inr m \<Longrightarrow> fst (Store_Set u d r f) = Some MarshalError"
    by (simp_all add: Store_Set_def Store_save_def save_file_def split: sum.split)
qed

section \<open>Concrete instances\<close>

theorem Store_Set_Get_Delete_witness:
  "Store_Get False ''a'' (snd (Store_Set False (\<lambda>_. False) (blank_result ''a'') None)) = Inr (Some (blank_result ''a''))"
proof -
  have m: "marshalable zero_time" by code_simp
  obtain f' where s: "Store_Set False (\<lambda>_. False) (blank_result ''a'') None = (None, f')"
    by (simp add: Store_Set_def Store_all_def load_file_def Store_save_def save_file_cases scores_encodable_def
        result_encodable_def check_encodable_def blank_result_def zero_check_def fails_def fails_early_def m)
  obtain f'' where "Store_Delete False (\<lambda>_. False) (SubmissionID (blank_result ''a'')) f' = (None, f'')"
    using s by (auto simp: Store_Set_def Store_Delete_def Store_all_def load_file_def Store_save_def save_file_cases
        scores_encodable_def blank_result_def fails_def fails_early_def split: if_splits)
  from Store_Set_Get_Delete [OF s this, of "''a''"] s show ?thesis by (simp add: blank_result_def)
qed

end
