(* ===== verification/Base64.thy ===== *)
theory Base64
  imports Prelude
begin

text \<open>
  \<open>encoding/base64\<close> and \<open>encoding/hex\<close> as the program uses them: \<open>RawURLEncoding\<close> for session tokens,
  \<open>StdEncoding\<close> for signatures, lower-case hexadecimal for random identifiers. The decoder skips
  carriage returns and newlines, and it does not insist that the unused bits of the last digit are zero.
\<close>

section \<open>Encoding\<close>

definition common_digits :: string where
  "common_digits = ''ABCDEFGHIJKLMNOPQRSTUVWXYZabcdefghijklmnopqrstuvwxyz0123456789''"

definition url_alphabet :: string where "url_alphabet = common_digits @ ''-_''"
definition std_alphabet :: string where "std_alphabet = common_digits @ ''+/''"

definition byte_val :: "char \<Rightarrow> nat" where "byte_val c = of_char c"

fun b64_digits :: "bytes \<Rightarrow> nat list" where
  "b64_digits [] = []"
| "b64_digits [a] = [byte_val a div 4, byte_val a mod 4 * 16]"
| "b64_digits [a, b] = [byte_val a div 4, byte_val a mod 4 * 16 + byte_val b div 16, byte_val b mod 16 * 4]"
| "b64_digits (a # b # c # s) =
     [byte_val a div 4, byte_val a mod 4 * 16 + byte_val b div 16, byte_val b mod 16 * 4 + byte_val c div 64,
      byte_val c mod 64] @ b64_digits s"

definition encode_raw :: "string \<Rightarrow> bytes \<Rightarrow> string" where
  "encode_raw alphabet bs = map (\<lambda>d. alphabet ! d) (b64_digits bs)"

section \<open>Decoding\<close>

definition digit_of :: "string \<Rightarrow> char \<Rightarrow> nat option" where
  "digit_of alphabet c =
     (if c \<in> set alphabet then Some (length (takeWhile (\<lambda>d. d \<noteq> c) alphabet)) else None)"

fun all_digits :: "string \<Rightarrow> string \<Rightarrow> nat list option" where
  "all_digits alphabet [] = Some []"
| "all_digits alphabet (c # s) =
     (case digit_of alphabet c of
        None \<Rightarrow> None
      | Some d \<Rightarrow> map_option ((#) d) (all_digits alphabet s))"

text \<open>Digits back to bytes; a single digit left over is an error.\<close>

fun b64_bytes :: "nat list \<Rightarrow> bytes option" where
  "b64_bytes [] = Some []"
| "b64_bytes [w] = None"
| "b64_bytes [w, x] = Some [char_of (w * 4 + x div 16)]"
| "b64_bytes [w, x, y] = Some [char_of (w * 4 + x div 16), char_of (x mod 16 * 16 + y div 4)]"
| "b64_bytes (w # x # y # z # ds) =
     map_option (\<lambda>bs. char_of (w * 4 + x div 16) # char_of (x mod 16 * 16 + y div 4)
                      # char_of (y mod 4 * 64 + z) # bs) (b64_bytes ds)"

definition skip_newlines :: "string \<Rightarrow> string" where
  "skip_newlines s = filter (\<lambda>c. c \<noteq> nl \<and> c \<noteq> cr) s"

definition decode_raw :: "string \<Rightarrow> string \<Rightarrow> bytes option" where
  "decode_raw alphabet s =
     (case all_digits alphabet (skip_newlines s) of None \<Rightarrow> None | Some ds \<Rightarrow> b64_bytes ds)"

text \<open>With padding: the length is a multiple of four, and one or two \<^verbatim>\<open>=\<close> fill the last group.\<close>

definition decode_std :: "string \<Rightarrow> bytes option" where
  "decode_std s0 =
     (let s = skip_newlines s0 in
      if length s mod 4 \<noteq> 0 then None
      else if has_suffix s ''=='' then decode_raw std_alphabet (take (length s - 2) s)
      else if has_suffix s ''='' then decode_raw std_alphabet (take (length s - 1) s)
      else decode_raw std_alphabet s)"

definition hex_digits :: string where "hex_digits = ''0123456789abcdef''"

definition encode_hex :: "bytes \<Rightarrow> string" where
  "encode_hex bs = concat (map (\<lambda>c. [hex_digits ! (byte_val c div 16), hex_digits ! (byte_val c mod 16)]) bs)"

section \<open>Round trips\<close>

lemma byte_val_less [simp]: "byte_val c < 256"
  using of_char_mod_256 [of c] by (simp add: byte_val_def)

lemma char_of_byte_val [simp]: "char_of (byte_val c) = c"
  by (simp add: byte_val_def)

lemma byte_val_div [simp]: "byte_val c div 4 < 64" "byte_val c div 16 < 16" "byte_val c div 64 < 4"
  using byte_val_less [of c] by (auto simp: div_less_iff_less_mult)

lemma length_takeWhile_nth:
  "distinct xs \<Longrightarrow> i < length xs \<Longrightarrow> length (takeWhile (\<lambda>d. d \<noteq> xs ! i) xs) = i"
proof (induction xs arbitrary: i)
  case (Cons a xs)
  then show ?case by (cases i) (auto simp: nth_Cons')
qed simp

lemma url_alphabet_props: "distinct url_alphabet" "length url_alphabet = 64"
  "nl \<notin> set url_alphabet" "cr \<notin> set url_alphabet"
  by (simp_all add: url_alphabet_def common_digits_def nl_def cr_def)

lemma digit_of_nth: "d < 64 \<Longrightarrow> digit_of url_alphabet (url_alphabet ! d) = Some d"
  using url_alphabet_props(1,2) by (simp add: digit_of_def length_takeWhile_nth)

lemma all_digits_encode:
  "list_all (\<lambda>d. d < 64) ds \<Longrightarrow> all_digits url_alphabet (map (\<lambda>d. url_alphabet ! d) ds) = Some ds"
  by (induction ds) (auto simp: digit_of_nth)

lemma b64_digits_small: "list_all (\<lambda>d. d < 64) (b64_digits bs)"
proof (induction bs rule: b64_digits.induct)
  case (2 a)
  have "byte_val a mod 4 * 16 < 64" by simp
  then show ?case by simp
next
  case (3 a b)
  have "byte_val a mod 4 * 16 + byte_val b div 16 < 64" "byte_val b mod 16 * 4 < 64"
    using byte_val_div(2) [of b] mod_less_divisor [of 4 "byte_val a"] mod_less_divisor [of 16 "byte_val b"]
    by linarith+
  then show ?case by simp
next
  case (4 a b c s)
  have "byte_val a mod 4 * 16 + byte_val b div 16 < 64" "byte_val b mod 16 * 4 + byte_val c div 64 < 64"
    using byte_val_div [of b] byte_val_div [of c] mod_less_divisor [of 4 "byte_val a"]
      mod_less_divisor [of 16 "byte_val b"] by linarith+
  with 4 show ?case by simp
qed simp

lemma b64_group:
  "byte_val a div 4 * 4 + (byte_val a mod 4 * 16 + byte_val b div 16) div 16 = byte_val a"
  "(byte_val a mod 4 * 16 + byte_val b div 16) mod 16 * 16 + (byte_val b mod 16 * 4 + byte_val c div 64) div 4
     = byte_val b"
  "(byte_val b mod 16 * 4 + byte_val c div 64) mod 4 * 64 + byte_val c mod 64 = byte_val c"
proof -
  have b: "byte_val b div 16 < 16" and c: "byte_val c div 64 < 4" by simp_all
  show "byte_val a div 4 * 4 + (byte_val a mod 4 * 16 + byte_val b div 16) div 16 = byte_val a"
    using b by simp
  show "(byte_val a mod 4 * 16 + byte_val b div 16) mod 16 * 16 + (byte_val b mod 16 * 4 + byte_val c div 64) div 4
     = byte_val b"
    using b c by simp
  show "(byte_val b mod 16 * 4 + byte_val c div 64) mod 4 * 64 + byte_val c mod 64 = byte_val c"
    using c by simp
qed

lemma b64_group_short:
  "byte_val a div 4 * 4 + byte_val a mod 4 * 16 div 16 = byte_val a"
  "(byte_val a mod 4 * 16 + byte_val b div 16) mod 16 * 16 + byte_val b mod 16 * 4 div 4 = byte_val b"
  by simp_all

lemma b64_bytes_digits: "b64_bytes (b64_digits bs) = Some bs"
  by (induction bs rule: b64_digits.induct)
     (simp_all only: b64_digits.simps b64_bytes.simps b64_group b64_group_short char_of_byte_val append_Cons
       append_Nil option.map)

lemma decode_encode_raw: "decode_raw url_alphabet (encode_raw url_alphabet bs) = Some bs"
proof -
  have "set (encode_raw url_alphabet bs) \<subseteq> set url_alphabet"
    using b64_digits_small [of bs] url_alphabet_props(2) by (auto simp: encode_raw_def list_all_iff)
  then have "skip_newlines (encode_raw url_alphabet bs) = encode_raw url_alphabet bs"
    unfolding skip_newlines_def using url_alphabet_props(3,4) by (intro filter_True) auto
  then show ?thesis
    using all_digits_encode [OF b64_digits_small] by (simp add: decode_raw_def encode_raw_def b64_bytes_digits)
qed

end
