(* ===== verification/Portal_Log.thy ===== *)
theory Portal_Log
  imports Streams Go_Time Atomicfile Clamav Base64
begin

text \<open>
  \<^verbatim>\<open>src/portal/log.go\<close>: the log of accepted submissions, a file of JSON lines. The file is modelled at the level
  of its bytes, because a line that is only partly written matters.

  Parameters: \<open>enc\<close> and \<open>dec\<close> are \<open>json.Marshal\<close> and \<open>json.Unmarshal\<close> on an entry. What the log relies on
  is \<open>lawful\<close>: the encoding of an entry is one line that is no longer than the scanner's buffer and decodes to
  the entry.
\<close>

section \<open>Operations\<close>

record entry =
  ID :: string
  EntryMoniker :: string
  OperatorAddress :: string
  Filename :: string
  SubmittedAt :: gotime
  EntrySentryEnabled :: bool
  Scan :: "coverage option"

type_synonym encoder = "entry \<Rightarrow> bytes option"
type_synonym decoder = "bytes \<Rightarrow> entry option"
type_synonym log_file = "bytes option"

datatype log_error = OpenLog | MarshalEntry | WriteEntry | ReadLog | ParseLine | ScanLog | RewriteLog

definition NewSubmissionID :: "bytes option \<Rightarrow> string option" where
  "NewSubmissionID rand = map_option encode_hex rand"

text \<open>The faults of one \<open>Record\<close>: opening fails, or only the first \<open>k\<close> bytes of the line reach the file.\<close>

record append_faults =
  open_err :: bool
  written :: "nat option"

definition FileLog_Record ::
  "encoder \<Rightarrow> append_faults \<Rightarrow> entry \<Rightarrow> log_file \<Rightarrow> log_error option \<times> log_file" where
  "FileLog_Record enc flt e file =
     (if open_err flt then (Some OpenLog, file)
      else
        (let old = (case file of None \<Rightarrow> [] | Some b \<Rightarrow> b) in
         case enc e of
           None \<Rightarrow> (Some MarshalEntry, Some old)
         | Some data \<Rightarrow>
             (case written flt of
                None \<Rightarrow> (None, Some (old @ data @ [nl]))
              | Some k \<Rightarrow> (Some WriteEntry, Some (old @ take k (data @ [nl]))))))"

definition MaxScanTokenSize :: nat where "MaxScanTokenSize = 64 * 1024"

fun parse_lines :: "decoder \<Rightarrow> string list \<Rightarrow> log_error + entry list" where
  "parse_lines dec [] = Inr []"
| "parse_lines dec (l # ls) =
     (let line = trim_space l in
      if length line = 0 then parse_lines dec ls
      else case dec line of
        None \<Rightarrow> Inl ParseLine
      | Some e \<Rightarrow> (case parse_lines dec ls of Inl err \<Rightarrow> Inl err | Inr es \<Rightarrow> Inr (e # es)))"

definition readEntries :: "decoder \<Rightarrow> bool \<Rightarrow> log_file \<Rightarrow> log_error + entry list" where
  "readEntries dec unreadable file =
     (case file of
        None \<Rightarrow> if unreadable then Inl ReadLog else Inr []
      | Some data \<Rightarrow>
          if unreadable then Inl ReadLog
          else
            (case scan_lines MaxScanTokenSize 0 data of
               (ls, n, long) \<Rightarrow>
                 (case parse_lines dec ls of
                    Inl err \<Rightarrow> Inl err
                  | Inr es \<Rightarrow> if long then Inl ScanLog else Inr es)))"

definition FileLog_Entries :: "decoder \<Rightarrow> bool \<Rightarrow> log_file \<Rightarrow> log_error + entry list" where
  "FileLog_Entries dec unreadable file = readEntries dec unreadable file"

fun marshal_entries :: "encoder \<Rightarrow> entry list \<Rightarrow> bytes option" where
  "marshal_entries enc [] = Some []"
| "marshal_entries enc (e # es) =
     (case enc e of
        None \<Rightarrow> None
      | Some data \<Rightarrow> map_option (\<lambda>buf. data @ [nl] @ buf) (marshal_entries enc es))"

definition FileLog_Delete ::
  "encoder \<Rightarrow> decoder \<Rightarrow> bool \<Rightarrow> (stage \<Rightarrow> bool) \<Rightarrow> string \<Rightarrow> log_file
   \<Rightarrow> (bool \<times> log_error option) \<times> log_file" where
  "FileLog_Delete enc dec unreadable disk i file =
     (case readEntries dec unreadable file of
        Inl err \<Rightarrow> ((False, Some err), file)
      | Inr entries \<Rightarrow>
          (let remaining = filter (\<lambda>e. ID e \<noteq> i) entries; found = list_ex (\<lambda>e. ID e = i) entries in
           if \<not> found then ((False, None), file)
           else case marshal_entries enc remaining of
             None \<Rightarrow> ((False, Some MarshalEntry), file)
           | Some buf \<Rightarrow>
               (case replace_content [] [] disk buf file of
                  (err, file') \<Rightarrow>
                    (if err then (False, Some RewriteLog) else (True, None), file'))))"

section \<open>The file represents a list of entries\<close>

definition lawful :: "encoder \<Rightarrow> decoder \<Rightarrow> entry \<Rightarrow> bool" where
  "lawful enc dec e \<longleftrightarrow>
     (case enc e of
        None \<Rightarrow> False
      | Some b \<Rightarrow> b \<noteq> [] \<and> nl \<notin> set b \<and> cr \<notin> set b \<and> trim_space b = b \<and> length b < MaxScanTokenSize
                  \<and> dec b = Some e)"

definition represents :: "encoder \<Rightarrow> decoder \<Rightarrow> log_file \<Rightarrow> entry list \<Rightarrow> bool" where
  "represents enc dec file es \<longleftrightarrow>
     list_all (lawful enc dec) es
     \<and> (file = None \<and> es = [] \<or> file \<noteq> None \<and> file = marshal_entries enc es)"

lemma drop_cr_id: "cr \<notin> set b \<Longrightarrow> drop_cr b = b"
  by (metis drop_cr_def last_in_set)

lemma lawfulE:
  assumes "lawful enc dec e"
  obtains b where "enc e = Some b" "b \<noteq> []" "nl \<notin> set b" "cr \<notin> set b" "drop_cr b = b" "trim_space b = b"
    "length b < MaxScanTokenSize" "dec b = Some e"
  using assms by (auto simp: lawful_def drop_cr_id split: option.splits)

lemma marshal_entries_append:
  "marshal_entries enc (es @ fs) =
     (case marshal_entries enc es of
        None \<Rightarrow> None | Some a \<Rightarrow> map_option ((@) a) (marshal_entries enc fs))"
  by (cases "marshal_entries enc fs"; induction es) (auto split: option.splits)

lemma marshal_lawful: "list_all (lawful enc dec) es \<Longrightarrow> \<exists>b. marshal_entries enc es = Some b"
  by (induction es) (auto simp: lawful_def split: option.splits)

lemma scan_marshalled:
  assumes "list_all (lawful enc dec) es" "marshal_entries enc es = Some b"
  shows "\<exists>ls n long. scan_lines MaxScanTokenSize off (b @ rest) = (ls @ fst (scan_lines MaxScanTokenSize n rest), long)
     \<and> snd long = snd (snd (scan_lines MaxScanTokenSize n rest))
     \<and> (\<forall>ms. parse_lines dec (ls @ ms) = (case parse_lines dec ms of Inl e \<Rightarrow> Inl e | Inr fs \<Rightarrow> Inr (es @ fs)))"
  using assms
proof (induction es arbitrary: b off)
  case Nil
  show ?case
    by (rule exI [of _ "[]"], rule exI [of _ off], rule exI [of _ "snd (scan_lines MaxScanTokenSize off rest)"])
       (use Nil in \<open>auto split: sum.splits\<close>)
next
  case (Cons e es)
  obtain d where d: "enc e = Some d" "d \<noteq> []" "nl \<notin> set d" "drop_cr d = d" "trim_space d = d"
    "length d < MaxScanTokenSize" "dec d = Some e" using Cons.prems(1) by (auto elim: lawfulE)
  obtain b' where b': "marshal_entries enc es = Some b'" "b = d @ [nl] @ b'" using Cons.prems(2) d(1) by auto
  obtain ls n long where IH: "scan_lines MaxScanTokenSize (off + length d + 1) (b' @ rest) =
      (ls @ fst (scan_lines MaxScanTokenSize n rest), long)"
    "snd long = snd (snd (scan_lines MaxScanTokenSize n rest))"
    "\<And>ms. parse_lines dec (ls @ ms) = (case parse_lines dec ms of Inl e \<Rightarrow> Inl e | Inr fs \<Rightarrow> Inr (es @ fs))"
    using Cons.IH [OF _ b'(1), of "off + length d + 1"] Cons.prems(1) by auto
  have "scan_lines MaxScanTokenSize off (b @ rest) = ((d # ls) @ fst (scan_lines MaxScanTokenSize n rest), long)"
    using scan_lines_line [OF d(3,6), of off "b' @ rest"] IH(1) d(4) by (simp add: b'(2) split: prod.splits)
  moreover have "parse_lines dec ((d # ls) @ ms) =
      (case parse_lines dec ms of Inl x \<Rightarrow> Inl x | Inr fs \<Rightarrow> Inr ((e # es) @ fs))" for ms
    using d(2,5,7) IH(3) [of ms] by (auto split: sum.splits)
  ultimately show ?case using IH(2) by blast
qed

lemma represents_entries: "represents enc dec file es \<Longrightarrow> readEntries dec False file = Inr es"
proof -
  assume r: "represents enc dec file es"
  show ?thesis
  proof (cases "file")
    case None
    with r show ?thesis by (simp add: represents_def readEntries_def)
  next
    case (Some b)
    with r have "list_all (lawful enc dec) es" "marshal_entries enc es = Some b" by (auto simp: represents_def)
    from scan_marshalled [OF this, of 0 "[]"] obtain ls long where
      l: "scan_lines MaxScanTokenSize 0 b = (ls, long)" "\<not> snd long"
      and p: "\<And>ms. parse_lines dec (ls @ ms) = (case parse_lines dec ms of Inl e \<Rightarrow> Inl e | Inr fs \<Rightarrow> Inr (es @ fs))"
      by auto
    have "parse_lines dec ls = Inr es" using p [of "[]"] by simp
    with l show ?thesis by (cases long) (simp add: Some readEntries_def)
  qed
qed

section \<open>The contract of a log of entries\<close>

datatype ('a, 'd, 'e) log_op = RecordOp 'a 'e | EraseOp 'd string

text \<open>A history: whether every operation reported success, and the file after it.\<close>

fun run_log ::
  "('a \<Rightarrow> 'e \<Rightarrow> 'f \<Rightarrow> 'x option \<times> 'f) \<Rightarrow> ('d \<Rightarrow> string \<Rightarrow> 'f \<Rightarrow> (bool \<times> 'x option) \<times> 'f)
   \<Rightarrow> ('a, 'd, 'e) log_op list \<Rightarrow> 'f \<Rightarrow> bool \<times> 'f" where
  "run_log rec del [] f = (True, f)"
| "run_log rec del (RecordOp a e # ops) f =
     (case rec a e f of (x, f') \<Rightarrow> (case run_log rec del ops f' of (ok, f'') \<Rightarrow> (x = None \<and> ok, f'')))"
| "run_log rec del (EraseOp d i # ops) f =
     (case del d i f of ((_, x), f') \<Rightarrow> (case run_log rec del ops f' of (ok, f'') \<Rightarrow> (x = None \<and> ok, f'')))"

text \<open>What the history means: appending and filtering a list.\<close>

fun spec_log :: "('e \<Rightarrow> string) \<Rightarrow> ('a, 'd, 'e) log_op list \<Rightarrow> 'e list \<Rightarrow> 'e list" where
  "spec_log key [] es = es"
| "spec_log key (RecordOp a e # ops) es = spec_log key ops (es @ [e])"
| "spec_log key (EraseOp d i # ops) es = spec_log key ops (filter (\<lambda>e. key e \<noteq> i) es)"

fun recorded :: "('a, 'd, 'e) log_op list \<Rightarrow> 'e list" where
  "recorded [] = []"
| "recorded (RecordOp a e # ops) = e # recorded ops"
| "recorded (EraseOp d i # ops) = recorded ops"

locale entry_log =
  fixes repr :: "'f \<Rightarrow> 'e list \<Rightarrow> bool"
    and good :: "'e \<Rightarrow> bool"
    and rec :: "'a \<Rightarrow> 'e \<Rightarrow> 'f \<Rightarrow> 'x option \<times> 'f"
    and del :: "'d \<Rightarrow> string \<Rightarrow> 'f \<Rightarrow> (bool \<times> 'x option) \<times> 'f"
    and key :: "'e \<Rightarrow> string"
  assumes rec_ok: "repr f es \<Longrightarrow> good e \<Longrightarrow> rec a e f = (None, f') \<Longrightarrow> repr f' (es @ [e])"
    and del_ok: "repr f es \<Longrightarrow> del d i f = ((found, None), f') \<Longrightarrow>
        repr f' (filter (\<lambda>e. key e \<noteq> i) es) \<and> (found \<longleftrightarrow> (\<exists>e\<in>set es. key e = i))"
    and del_error: "repr f es \<Longrightarrow> del d i f = ((b, Some x), f') \<Longrightarrow>
        repr f' es \<or> repr f' (filter (\<lambda>e. key e \<noteq> i) es)"
begin

lemma run_log_refines:
  "repr f es \<Longrightarrow> list_all good (recorded ops) \<Longrightarrow> run_log rec del ops f = (True, f') \<Longrightarrow>
     repr f' (spec_log key ops es)"
proof (induction ops arbitrary: f es)
  case (Cons op ops)
  show ?case
  proof (cases op)
    case (RecordOp a e)
    obtain f1 where f1: "rec a e f = (None, f1)" "run_log rec del ops f1 = (True, f')"
      using Cons.prems(3) RecordOp by (auto split: prod.splits)
    with Cons.IH [OF rec_ok [OF Cons.prems(1) _ f1(1)]] Cons.prems(2) RecordOp show ?thesis by simp
  next
    case (EraseOp d i)
    obtain found f1 where f1: "del d i f = ((found, None), f1)" "run_log rec del ops f1 = (True, f')"
      using Cons.prems(3) EraseOp by (auto split: prod.splits)
    with Cons.IH [OF conjunct1 [OF del_ok [OF Cons.prems(1) f1(1)]]] Cons.prems(2) EraseOp show ?thesis by simp
  qed
qed simp

end

lemma Record_represents:
  assumes "represents enc dec file es" "lawful enc dec e" "FileLog_Record enc flt e file = (None, file')"
  shows "represents enc dec file' (es @ [e])"
proof -
  obtain d where d: "enc e = Some d" using assms(2) by (rule lawfulE)
  then have f': "file' = Some ((case file of None \<Rightarrow> [] | Some b \<Rightarrow> b) @ d @ [nl])"
    using assms(3) by (auto simp: FileLog_Record_def Let_def split: if_splits option.splits)
  have "marshal_entries enc es = Some (case file of None \<Rightarrow> [] | Some b \<Rightarrow> b)"
    using assms(1) by (auto simp: represents_def)
  then have "marshal_entries enc (es @ [e]) = file'"
    using d by (simp add: marshal_entries_append f')
  with assms(1,2) f' show ?thesis by (auto simp: represents_def)
qed

lemma filter_lawful: "list_all P es \<Longrightarrow> list_all P (filter Q es)"
  by (auto simp: list_all_iff)

lemma Delete_represents:
  assumes "represents enc dec file es" "FileLog_Delete enc dec False disk i file = ((found, x), file')"
  shows "x = None \<Longrightarrow> represents enc dec file' (filter (\<lambda>e. ID e \<noteq> i) es) \<and> (found \<longleftrightarrow> (\<exists>e\<in>set es. ID e = i))"
    and "represents enc dec file' es \<or> represents enc dec file' (filter (\<lambda>e. ID e \<noteq> i) es)"
proof -
  let ?es = "filter (\<lambda>e. ID e \<noteq> i) es"
  have good: "list_all (lawful enc dec) ?es" using assms(1) by (simp add: represents_def filter_lawful)
  then obtain buf where buf: "marshal_entries enc ?es = Some buf" using marshal_lawful by blast
  have new: "represents enc dec (Some buf) ?es" using good buf by (simp add: represents_def)
  have none: "?es = es" if "\<not> (\<exists>e\<in>set es. ID e = i)" using that by (auto simp: filter_id_conv)
  have d: "((found, x), file') =
      (if \<not> (\<exists>e\<in>set es. ID e = i) then ((False, None), file)
       else (if fails disk then (False, Some RewriteLog) else (True, None),
             if fails_early disk then file else Some buf))"
    using assms(2) represents_entries [OF assms(1)] buf
    by (auto simp: FileLog_Delete_def Let_def replace_content_eq list_ex_iff split: if_splits)
  show "represents enc dec file' es \<or> represents enc dec file' ?es"
    using d assms(1) new none by (auto split: if_splits)
  show "represents enc dec file' ?es \<and> (found \<longleftrightarrow> (\<exists>e\<in>set es. ID e = i))" if "x = None"
    using d assms(1) new none that by (auto simp: fails_def split: if_splits)
qed

interpretation file_log: entry_log
  "represents enc dec" "lawful enc dec" "FileLog_Record enc" "FileLog_Delete enc dec False" ID for enc dec
  by unfold_locales (auto intro: Record_represents dest: Delete_represents)

text \<open>C13: over any history of records and deletions that all report success, the log file holds exactly the entries
  that appending and filtering a list would leave, in that order.\<close>

theorem FileLog_refines:
  assumes "represents enc dec file es" and "list_all (lawful enc dec) (recorded ops)"
    and "run_log (FileLog_Record enc) (FileLog_Delete enc dec False) ops file = (True, file')"
  shows "FileLog_Entries dec False file' = Inr (spec_log ID ops es)"
  using file_log.run_log_refines [OF assms] by (simp add: FileLog_Entries_def represents_entries)

text \<open>A deletion that fails leaves the log either as it was or without the entry; nothing else is lost.\<close>

theorem FileLog_Delete_error:
  assumes "represents enc dec file es"
    and "FileLog_Delete enc dec False disk i file = ((found, Some err), file')"
  shows "FileLog_Entries dec False file' = Inr es
     \<or> FileLog_Entries dec False file' = Inr (filter (\<lambda>e. ID e \<noteq> i) es)"
  using file_log.del_error [OF assms] represents_entries unfolding FileLog_Entries_def by blast

section \<open>A torn append\<close>

text \<open>
  What the log relies on of JSON for its refusal to last: an unfinished entry followed by beginnings of entries, whole ones
  among them, is no JSON value. (An entry starts with a brace: inside a string of the unfinished one the next quote ends the
  string in the wrong place, elsewhere the brace is out of place or never closed.)
\<close>

definition beginning :: "encoder \<Rightarrow> decoder \<Rightarrow> bytes \<Rightarrow> bool" where
  "beginning enc dec p \<longleftrightarrow> (\<exists>e b. lawful enc dec e \<and> enc e = Some b \<and> prefix p b)"

definition stays_broken :: "encoder \<Rightarrow> decoder \<Rightarrow> bytes \<Rightarrow> bool" where
  "stays_broken enc dec frag \<longleftrightarrow>
     (\<forall>ps. list_all (beginning enc dec) ps \<longrightarrow>
        trim_space (frag @ concat ps) \<noteq> [] \<and> dec (trim_space (frag @ concat ps)) = None)"

text \<open>What stands behind the intact entries: a line that starts with the fragment, and perhaps more lines.\<close>

definition torn :: "encoder \<Rightarrow> decoder \<Rightarrow> bytes \<Rightarrow> bytes \<Rightarrow> bool" where
  "torn enc dec frag t \<longleftrightarrow>
     (\<exists>ps. list_all (beginning enc dec) ps \<and> (t = frag @ concat ps \<or> (\<exists>rest. t = (frag @ concat ps) @ nl # rest)))"

lemma beginning_plain: "beginning enc dec p \<Longrightarrow> nl \<notin> set p \<and> cr \<notin> set p"
  by (auto simp: beginning_def prefix_def elim!: lawfulE)

lemma scan_lines_head:
  assumes "nl \<notin> set l" "l \<noteq> []" "length l < mx"
  shows "\<exists>ts. fst (scan_lines mx off l) = [drop_cr l] \<and> fst (scan_lines mx off (l @ nl # rest)) = drop_cr l # ts"
  using scan_lines_last [OF assms, of off] scan_lines_line [OF assms(1,3), of off rest] by (simp split: prod.split)

lemma scan_lines_long:
  assumes "nl \<notin> set l" "l \<noteq> []" "mx \<le> length l" "t = l \<or> (\<exists>rest. t = l @ nl # rest)"
  shows "scan_lines mx off t = ([], off + mx, True)"
proof -
  have "takeWhile (\<lambda>c. c \<noteq> nl) t = l" "t \<noteq> []"
    using assms by (auto simp: takeWhile_eq_all_conv takeWhile_append)
  with assms(3) show ?thesis by (simp add: scan_lines.simps [of mx off t] Let_def)
qed

lemma torn_unreadable:
  assumes "list_all (lawful enc dec) es" "marshal_entries enc es = Some old" "stays_broken enc dec frag"
    and "frag \<noteq> []" "nl \<notin> set frag" "cr \<notin> set frag" "torn enc dec frag t"
  shows "\<exists>x. readEntries dec False (Some (old @ t)) = Inl x"
proof -
  obtain ps where ps: "list_all (beginning enc dec) ps"
    and t: "t = frag @ concat ps \<or> (\<exists>rest. t = (frag @ concat ps) @ nl # rest)" using assms(7) by (auto simp: torn_def)
  let ?l = "frag @ concat ps"
  have l: "nl \<notin> set ?l" "?l \<noteq> []" "drop_cr ?l = ?l"
    using ps assms(4-6) beginning_plain by (fastforce simp: list_all_iff intro!: drop_cr_id)+
  have bad: "trim_space ?l \<noteq> []" "dec (trim_space ?l) = None" using assms(3) ps by (auto simp: stays_broken_def)
  from scan_marshalled [OF assms(1,2), of 0 t] obtain ls n long where
    sc: "scan_lines MaxScanTokenSize 0 (old @ t) = (ls @ fst (scan_lines MaxScanTokenSize n t), long)"
      "snd long = snd (snd (scan_lines MaxScanTokenSize n t))"
    and p: "\<And>ms. parse_lines dec (ls @ ms) = (case parse_lines dec ms of Inl e \<Rightarrow> Inl e | Inr fs \<Rightarrow> Inr (es @ fs))"
    by blast
  show ?thesis
  proof (cases "length ?l < MaxScanTokenSize")
    case True
    obtain ts where "fst (scan_lines MaxScanTokenSize n t) = ?l # ts"
      using scan_lines_head [OF l(1,2) True, of n] t l(3) by metis
    then have "parse_lines dec (ls @ fst (scan_lines MaxScanTokenSize n t)) = Inl ParseLine"
      using p [of "?l # ts"] bad by simp
    with sc(1) show ?thesis by (simp add: readEntries_def split: prod.splits)
  next
    case False
    then have "scan_lines MaxScanTokenSize n t = ([], n + MaxScanTokenSize, True)"
      using scan_lines_long [OF l(1,2) _ t] by simp
    with sc p [of "[]"] show ?thesis by (cases long) (simp add: readEntries_def)
  qed
qed

lemma torn_append:
  assumes "torn enc dec frag t" "lawful enc dec e" "enc e = Some b"
  shows "torn enc dec frag (t @ take k (b @ [nl]))" "torn enc dec frag (t @ b @ [nl])"
proof -
  obtain ps where ps: "list_all (beginning enc dec) ps"
    and t: "t = frag @ concat ps \<or> (\<exists>rest. t = (frag @ concat ps) @ nl # rest)" using assms(1) by (auto simp: torn_def)
  have more: "list_all (beginning enc dec) (ps @ [take j b])" for j
    using ps assms(2,3) by (auto simp: beginning_def take_is_prefix)
  show whole: "torn enc dec frag (t @ b @ [nl])"
    using t more [of "length b"] ps unfolding torn_def by (intro exI [of _ "if t = frag @ concat ps then ps @ [b] else ps"]) auto
  show "torn enc dec frag (t @ take k (b @ [nl]))"
  proof (cases "k \<le> length b")
    case True
    then have "take k (b @ [nl]) = take k b" by simp
    with t more [of k] ps show ?thesis
      unfolding torn_def by (intro exI [of _ "if t = frag @ concat ps then ps @ [take k b] else ps"]) auto
  next
    case False
    with whole show ?thesis by simp
  qed
qed

lemma run_log_torn:
  assumes "list_all (lawful enc dec) es" "marshal_entries enc es = Some old" "stays_broken enc dec frag"
    and "frag \<noteq> []" "nl \<notin> set frag" "cr \<notin> set frag"
    and "torn enc dec frag t" "list_all (lawful enc dec) (recorded ops)"
  shows "\<exists>t'. snd (run_log (FileLog_Record enc) (FileLog_Delete enc dec False) ops (Some (old @ t))) = Some (old @ t')
     \<and> torn enc dec frag t'"
  using assms(7,8)
proof (induction ops arbitrary: t)
  case (Cons op ops)
  show ?case
  proof (cases op)
    case (RecordOp a e)
    then have e: "lawful enc dec e" using Cons.prems(2) by simp
    then obtain b where b: "enc e = Some b" by (rule lawfulE)
    have "\<exists>t1. snd (FileLog_Record enc a e (Some (old @ t))) = Some (old @ t1) \<and> torn enc dec frag t1"
      using Cons.prems(1) torn_append [OF Cons.prems(1) e b] b
      by (auto simp: FileLog_Record_def Let_def simp del: take_append split: option.split)
    then obtain x t1 where "FileLog_Record enc a e (Some (old @ t)) = (x, Some (old @ t1))" "torn enc dec frag t1"
      by (metis prod.collapse)
    with Cons.IH [of t1] Cons.prems(2) RecordOp show ?thesis by (auto split: prod.splits)
  next
    case (EraseOp d i)
    obtain x where "readEntries dec False (Some (old @ t)) = Inl x"
      using torn_unreadable [OF assms(1-6) Cons.prems(1)] by blast
    with Cons.IH [OF Cons.prems(1)] Cons.prems(2) EraseOp show ?thesis
      by (auto simp: FileLog_Delete_def split: prod.splits)
  qed
qed auto

text \<open>C39: an append that breaks off inside a line makes the log unreadable for good: after it, and after any history of
  further appends (whole ones and ones that break off too) and of attempts to delete, listing the log fails, and so does deleting from it, which
  would be the way to repair it, and leaves the file as it is. The codec enters by two named hypotheses: \<open>lawful\<close> for the entries
  written, and \<open>stays_broken\<close> for the fragment.\<close>

theorem FileLog_torn_append:
  assumes "represents enc dec file es" "lawful enc dec e" "enc e = Some b"
    and "0 < k" "k \<le> length b" "stays_broken enc dec (take k b)"
    and "FileLog_Record enc \<lparr>open_err = False, written = Some k\<rparr> e file = (err, file')"
    and "list_all (lawful enc dec) (recorded ops)"
    and "file'' = snd (run_log (FileLog_Record enc) (FileLog_Delete enc dec False) ops file')"
  shows "err = Some WriteEntry
     \<and> (\<exists>x. FileLog_Entries dec False file'' = Inl x \<and> FileLog_Delete enc dec False disk i file'' = ((False, Some x), file''))"
proof -
  let ?old = "case file of None \<Rightarrow> [] | Some b \<Rightarrow> b" and ?t = "take k b"
  have b: "nl \<notin> set ?t" "cr \<notin> set ?t" "?t \<noteq> []"
    using assms(2-5) by (auto elim!: lawfulE dest: in_set_takeD)
  have f': "file' = Some (?old @ ?t)" "err = Some WriteEntry"
    using assms(3,5,7) by (auto simp: FileLog_Record_def Let_def)
  have old: "list_all (lawful enc dec) es" "marshal_entries enc es = Some ?old"
    using assms(1) by (auto simp: represents_def)
  have "torn enc dec ?t ?t" unfolding torn_def by (intro exI [of _ "[]"]) simp
  then obtain t' where t': "file'' = Some (?old @ t')" "torn enc dec ?t t'"
    using run_log_torn [OF old assms(6) b(3,1,2) _ assms(8)] assms(9) f'(1) by auto
  from torn_unreadable [OF old assms(6) b(3,1,2) t'(2)] show ?thesis
    by (auto simp: f'(2) t'(1) FileLog_Entries_def FileLog_Delete_def)
qed

section \<open>Concrete instances\<close>

definition sample_entry :: entry where
  "sample_entry =
     \<lparr>ID = ''a'', EntryMoniker = ''node'', OperatorAddress = ''g1'', Filename = ''node-20240101-0000UTC.tar.gz'',
      SubmittedAt = Time 0 0, EntrySentryEnabled = False, Scan = None\<rparr>"

text \<open>Codecs that know one entry.\<close>

definition one_enc :: "entry \<Rightarrow> encoder" where
  "one_enc e0 e = (if e = e0 then Some ''{1}'' else None)"

definition one_dec :: "entry \<Rightarrow> decoder" where
  "one_dec e0 b = (if b = ''{1}'' then Some e0 else None)"

lemma one_lawful: "lawful (one_enc e) (one_dec e) e"
proof -
  have "trim_space ''{1}'' = ''{1}''" by code_simp
  then show ?thesis
    by (simp add: lawful_def one_enc_def one_dec_def nl_def cr_def MaxScanTokenSize_def)
qed

lemma nothing_represented: "represents enc dec None []"
  by (simp add: represents_def)

theorem FileLog_refines_witness:
  "FileLog_Entries (one_dec sample_entry) False
     (snd (run_log (FileLog_Record (one_enc sample_entry)) (FileLog_Delete (one_enc sample_entry) (one_dec sample_entry) False)
        [RecordOp \<lparr>open_err = False, written = None\<rparr> sample_entry, EraseOp (\<lambda>_. False) ''b''] None)) = Inr [sample_entry]"
proof -
  let ?enc = "one_enc sample_entry" and ?dec = "one_dec sample_entry"
  let ?ops = "[RecordOp \<lparr>open_err = False, written = None\<rparr> sample_entry, EraseOp (\<lambda>_. False) ''b'']"
  obtain f1 where r: "FileLog_Record ?enc \<lparr>open_err = False, written = None\<rparr> sample_entry None = (None, f1)"
    by (simp add: FileLog_Record_def one_enc_def)
  have "represents ?enc ?dec f1 [sample_entry]"
    using Record_represents [OF nothing_represented one_lawful r] by simp
  from represents_entries [OF this] have "FileLog_Delete ?enc ?dec False (\<lambda>_. False) ''b'' f1 = ((False, None), f1)"
    by (simp add: FileLog_Delete_def sample_entry_def)
  with r have ok: "run_log (FileLog_Record ?enc) (FileLog_Delete ?enc ?dec False) ?ops None = (True, f1)" by simp
  from FileLog_refines [OF nothing_represented _ ok] one_lawful ok show ?thesis
    by (simp add: sample_entry_def)
qed

lemma one_stays_broken: "stays_broken (one_enc e) (one_dec e) ''{1''"
proof -
  have trim: "trim_space (''{1'' @ c) = ''{1'' @ c" if c: "set c \<subseteq> {CHR ''{'', CHR ''1'', CHR ''}''}" for c
  proof -
    have inner: "w \<notin> set spaces" if "set w \<subseteq> {CHR ''{'', CHR ''1'', CHR ''}''}" for w
      using that by (auto simp: spaces_def)
    have "\<not> has_prefix (''{1'' @ c) w" "\<not> has_suffix (''{1'' @ c) w" if w: "w \<in> set spaces" for w
    proof -
      have "set w \<subseteq> set (''{1'' @ c)" if "has_prefix (''{1'' @ c) w \<or> has_suffix (''{1'' @ c) w"
        using that by (metis has_prefix_iff has_suffix_iff set_append sup_ge1 sup_ge2)
      with inner [of w] c w show "\<not> has_prefix (''{1'' @ c) w" "\<not> has_suffix (''{1'' @ c) w" by auto
    qed
    then have "leading_space (''{1'' @ c) = None" "trailing_space (''{1'' @ c) = None"
      by (auto simp: leading_space_def trailing_space_def find_None_iff simp del: append.simps)
    then show ?thesis by (rule trim_space_id)
  qed
  have c: "set (concat ps) \<subseteq> {CHR ''{'', CHR ''1'', CHR ''}''} \<and> (concat ps = [] \<or> hd (concat ps) = CHR ''{'')"
    if "list_all (beginning (one_enc e) (one_dec e)) ps" for ps
    using that
  proof (induction ps)
    case (Cons p ps)
    have "prefix p ''{1}''" using Cons.prems by (auto simp: beginning_def one_enc_def split: if_splits)
    then have "p = [] \<or> hd p = CHR ''{''" "set p \<subseteq> {CHR ''{'', CHR ''1'', CHR ''}''}" by (auto simp: prefix_Cons)
    with Cons show ?case by (cases p) auto
  qed simp
  show ?thesis
    unfolding stays_broken_def
  proof (intro allI impI)
    fix ps assume ps: "list_all (beginning (one_enc e) (one_dec e)) ps"
    have "''{1'' @ z \<noteq> ''{1}''" if "z = [] \<or> hd z = CHR ''{''" for z
      using that by (cases z) auto
    then have "''{1'' @ concat ps \<noteq> ''{1}''" using conjunct2 [OF c [OF ps]] by blast
    then show "trim_space (''{1'' @ concat ps) \<noteq> [] \<and> one_dec e (trim_space (''{1'' @ concat ps)) = None"
      using trim [of "concat ps"] c [OF ps] by (simp add: one_dec_def del: append.simps)
  qed
qed

text \<open>A second append behind the fragment, and an attempt to delete.\<close>

theorem FileLog_torn_append_witness:
  "\<exists>x. FileLog_Entries (one_dec sample_entry) False
     (snd (run_log (FileLog_Record (one_enc sample_entry)) (FileLog_Delete (one_enc sample_entry) (one_dec sample_entry) False)
        [RecordOp \<lparr>open_err = False, written = None\<rparr> sample_entry, EraseOp (\<lambda>_. False) ''a'']
        (snd (FileLog_Record (one_enc sample_entry) \<lparr>open_err = False, written = Some 2\<rparr> sample_entry None)))) = Inl x"
proof -
  obtain err f' where r: "FileLog_Record (one_enc sample_entry) \<lparr>open_err = False, written = Some 2\<rparr> sample_entry None = (err, f')"
    by fastforce
  have b: "one_enc sample_entry sample_entry = Some ''{1}''" by (simp add: one_enc_def)
  have "take 2 ''{1}'' = ''{1''" by simp
  then have st: "stays_broken (one_enc sample_entry) (one_dec sample_entry) (take 2 ''{1}'')" using one_stays_broken by simp
  let ?ops = "[RecordOp \<lparr>open_err = False, written = None\<rparr> sample_entry, EraseOp (\<lambda>_. False) ''a'']"
  have ok: "list_all (lawful (one_enc sample_entry) (one_dec sample_entry)) (recorded ?ops)" using one_lawful by simp
  from FileLog_torn_append [OF nothing_represented one_lawful b _ _ st r ok refl] r show ?thesis by fastforce
qed

end
