(* ===== verification/Auth.thy ===== *)
theory Auth
  imports Base64 Go_Time Json
begin

text \<open>
  \<^verbatim>\<open>src/auth\<close>: nonces and the challenge (\<^verbatim>\<open>challenge.go\<close>), the session tokens (\<^verbatim>\<open>session.go\<close>) and the
  two handlers with \<open>RequireSession\<close> (\<^verbatim>\<open>http.go\<close>). The clock is an argument: the time \<open>time.Now\<close> returns.

  Parameters: \<open>mac\<close> is HMAC-SHA256 under the server's secret; \<open>sign_bytes\<close>, \<open>verify_bytes\<close> and the
  account query belong to gno's packages, as does the parser of bech32 addresses, \<open>from_bech32\<close>.
\<close>

section \<open>The challenge\<close>

type_synonym address = bytes

definition MemoPrefix :: string where "MemoPrefix = ''validator-fire-drill-auth:v1:''"
definition SentinelChainID :: string where "SentinelChainID = ''fire-drill-auth-only''"
definition SentinelAccountNumber :: nat where "SentinelAccountNumber = 0"
definition SentinelAccountSequence :: nat where "SentinelAccountSequence = 0"
definition NonceTTL :: int where "NonceTTL = 5 * minute"
definition AddressSize :: nat where "AddressSize = 20"
definition expiryLen :: nat where "expiryLen = 8"
definition macLen :: nat where "macLen = 32"

type_synonym coin = "string \<times> int"

record msg_send =
  from_address :: address
  to_address :: address
  amount :: "coin list"

record challenge_tx =
  tx_msgs :: "msg_send list"
  tx_gas :: int
  tx_fee :: coin
  tx_sigs :: "bytes list"
  tx_memo :: string

definition NewChallengeTx :: "address \<Rightarrow> string \<Rightarrow> challenge_tx" where
  "NewChallengeTx operatorAddr nonce =
     \<lparr>tx_msgs = [\<lparr>from_address = operatorAddr, to_address = operatorAddr, amount = [(''ugnot'', 1)]\<rparr>],
      tx_gas = 1, tx_fee = (''ugnot'', 0), tx_sigs = [], tx_memo = MemoPrefix @ nonce\<rparr>"

type_synonym sign_bytes = "challenge_tx \<Rightarrow> string \<Rightarrow> nat \<Rightarrow> nat \<Rightarrow> bytes option"

definition SignBytes :: "sign_bytes \<Rightarrow> challenge_tx \<Rightarrow> bytes option" where
  "SignBytes sign_bytes tx = sign_bytes tx SentinelChainID SentinelAccountNumber SentinelAccountSequence"

section \<open>Nonces\<close>

record nonceEntry =
  operatorAddr :: address
  expiresAt :: gotime

type_synonym nonces = "string \<rightharpoonup> nonceEntry"

datatype auth_error =
    NonceGeneration
  | UnknownNonce
  | NonceExpired
  | NonceOtherOperator
  | SignBytesFailed
  | PubKeyFailed
  | BadSignature string
  | ErrInvalidSession

definition NewNonceStore :: nonces where "NewNonceStore = Map.empty"

text \<open>\<open>rand\<close> is what the random source delivers, 32 bytes or an error.\<close>

definition NonceStore_Issue ::
  "bytes option \<Rightarrow> gotime \<Rightarrow> address \<Rightarrow> nonces \<Rightarrow> (auth_error + string) \<times> nonces" where
  "NonceStore_Issue rand now addr s =
     (case rand of
        None \<Rightarrow> (Inl NonceGeneration, s)
      | Some raw \<Rightarrow>
          (let nonce = encode_hex raw in
           (Inr nonce, s(nonce \<mapsto> \<lparr>operatorAddr = addr, expiresAt = time_add now NonceTTL\<rparr>))))"

definition consume :: "gotime \<Rightarrow> address \<Rightarrow> string \<Rightarrow> nonces \<Rightarrow> auth_error option \<times> nonces" where
  "consume now addr nonce s =
     (case s nonce of
        None \<Rightarrow> (Some UnknownNonce, s)
      | Some entry \<Rightarrow>
          (if after now (expiresAt entry) then Some NonceExpired
           else if operatorAddr entry \<noteq> addr then Some NonceOtherOperator
           else None,
           s(nonce := None)))"

section \<open>Verification\<close>

text \<open>
  \<open>fetchOperatorPubKey\<close>. \<open>rpc\<close> creates a client for an endpoint and queries it (\<open>None\<close>: either fails);
  \<open>account\<close> unmarshals the answer into the account's optional key.
\<close>

definition fetchOperatorPubKey ::
  "(string \<Rightarrow> string \<Rightarrow> bytes option) \<Rightarrow> (bytes \<Rightarrow> 'k option option) \<Rightarrow> (address \<Rightarrow> string)
   \<Rightarrow> string \<Rightarrow> address \<Rightarrow> 'k option" where
  "fetchOperatorPubKey rpc account show_addr remote addr =
     (if remote = [] then None
      else case rpc remote (''auth/accounts/'' @ show_addr addr) of
        None \<Rightarrow> None
      | Some data \<Rightarrow>
          if length data = 0 \<or> data = ''null'' then None
          else case account data of None \<Rightarrow> None | Some key \<Rightarrow> key)"

record 'k verifier =
  sign_bytes_of :: sign_bytes
  lookup_key :: "address \<Rightarrow> 'k option"
  verify_bytes :: "'k \<Rightarrow> bytes \<Rightarrow> bytes \<Rightarrow> bool"

definition VerifyChallenge ::
  "'k verifier \<Rightarrow> gotime \<Rightarrow> address \<Rightarrow> string \<Rightarrow> bytes \<Rightarrow> nonces \<Rightarrow> auth_error option \<times> nonces" where
  "VerifyChallenge v now addr nonce sig s =
     (case consume now addr nonce s of
        (Some e, s') \<Rightarrow> (Some e, s')
      | (None, s') \<Rightarrow>
          (case SignBytes (sign_bytes_of v) (NewChallengeTx addr nonce) of
             None \<Rightarrow> (Some SignBytesFailed, s')
           | Some signBytes \<Rightarrow>
               (case lookup_key v addr of
                  None \<Rightarrow> (Some PubKeyFailed, s')
                | Some pubKey \<Rightarrow>
                    if \<not> verify_bytes v pubKey signBytes sig then (Some (BadSignature addr), s')
                    else (None, s'))))"

section \<open>Sessions\<close>

type_synonym mac = "bytes \<Rightarrow> bytes"

definition put_uint64 :: "int \<Rightarrow> bytes" where
  "put_uint64 v = put_be 8 (nat (v mod 2 ^ 64))"

text \<open>\<open>int64(binary.BigEndian.Uint64(...))\<close> of the first eight bytes.\<close>

definition get_int64 :: "bytes \<Rightarrow> int" where
  "get_int64 p = wrap64 (int (get_be (take 8 p)))"

text \<open>\<open>copy(payload, operatorAddr.Bytes())\<close> into a zeroed buffer.\<close>

definition address_bytes :: "address \<Rightarrow> bytes" where
  "address_bytes a = take AddressSize (a @ replicate AddressSize (CHR 0x00))"

definition SessionSigner_Issue :: "mac \<Rightarrow> int \<Rightarrow> gotime \<Rightarrow> address \<Rightarrow> string" where
  "SessionSigner_Issue mac ttl now addr =
     (let payload = address_bytes addr @ put_uint64 (unix_time (time_add now ttl)) in
      encode_raw url_alphabet (payload @ mac payload))"

definition SessionSigner_Verify :: "mac \<Rightarrow> gotime \<Rightarrow> string \<Rightarrow> auth_error + address" where
  "SessionSigner_Verify mac now token =
     (case decode_raw url_alphabet token of
        None \<Rightarrow> Inl ErrInvalidSession
      | Some raw \<Rightarrow>
          if length raw \<noteq> AddressSize + expiryLen + macLen then Inl ErrInvalidSession
          else
            (let payload = take (AddressSize + expiryLen) raw; gotMAC = drop (AddressSize + expiryLen) raw in
             if gotMAC \<noteq> mac payload then Inl ErrInvalidSession
             else
               (let expiry = get_int64 (drop AddressSize payload) in
                if expiry < unix_time now then Inl ErrInvalidSession
                else Inr (take AddressSize payload))))"

section \<open>Handlers\<close>

record challengeRequest =
  cr_operator :: string

record verifyRequest =
  vr_operator :: string
  vr_nonce :: string
  vr_signature :: string

definition challenge_fields :: "challengeRequest field list" where
  "challenge_fields = [(''operator_address'', set_string (\<lambda>s r. r\<lparr>cr_operator := s\<rparr>))]"

definition verify_fields :: "verifyRequest field list" where
  "verify_fields =
     [(''operator_address'', set_string (\<lambda>s r. r\<lparr>vr_operator := s\<rparr>)),
      (''nonce'', set_string (\<lambda>s r. r\<lparr>vr_nonce := s\<rparr>)),
      (''signature'', set_string (\<lambda>s r. r\<lparr>vr_signature := s\<rparr>))]"

record challengeResponse =
  chal_nonce :: string
  chal_tx :: string
  chal_chain_id :: string
  chal_account_number :: nat
  chal_account_sequence :: nat

text \<open>\<open>body\<close> is what \<open>json.Decoder\<close> reads from the request; \<open>marshal\<close> renders the challenge for the client.\<close>

definition ChallengeHandler ::
  "(string \<Rightarrow> address option) \<Rightarrow> (challenge_tx \<Rightarrow> string option) \<Rightarrow> bytes option \<Rightarrow> gotime
   \<Rightarrow> string \<Rightarrow> json option \<Rightarrow> nonces \<Rightarrow> (nat \<times> challengeResponse option) \<times> nonces" where
  "ChallengeHandler from_bech32 marshal rand now meth body s =
     (if meth \<noteq> ''POST'' then ((405, None), s)
      else case body of
        None \<Rightarrow> ((400, None), s)
      | Some j \<Rightarrow>
          (case decode_struct False challenge_fields j \<lparr>cr_operator = []\<rparr> of
             Inl _ \<Rightarrow> ((400, None), s)
           | Inr req \<Rightarrow>
               (case from_bech32 (cr_operator req) of
                  None \<Rightarrow> ((400, None), s)
                | Some addr \<Rightarrow>
                    (case NonceStore_Issue rand now addr s of
                       (Inl _, s') \<Rightarrow> ((500, None), s')
                     | (Inr nonce, s') \<Rightarrow>
                         (case marshal (NewChallengeTx addr nonce) of
                            None \<Rightarrow> ((500, None), s')
                          | Some txJSON \<Rightarrow>
                              ((200, Some \<lparr>chal_nonce = nonce, chal_tx = txJSON,
                                           chal_chain_id = SentinelChainID,
                                           chal_account_number = SentinelAccountNumber,
                                           chal_account_sequence = SentinelAccountSequence\<rparr>), s'))))))"

definition VerifyHandler ::
  "(string \<Rightarrow> address option) \<Rightarrow> 'k verifier \<Rightarrow> mac \<Rightarrow> int \<Rightarrow> gotime
   \<Rightarrow> string \<Rightarrow> json option \<Rightarrow> nonces \<Rightarrow> (nat \<times> string option) \<times> nonces" where
  "VerifyHandler from_bech32 v mac ttl now meth body s =
     (if meth \<noteq> ''POST'' then ((405, None), s)
      else case body of
        None \<Rightarrow> ((400, None), s)
      | Some j \<Rightarrow>
          (case decode_struct False verify_fields j \<lparr>vr_operator = [], vr_nonce = [], vr_signature = []\<rparr> of
             Inl _ \<Rightarrow> ((400, None), s)
           | Inr req \<Rightarrow>
               (case from_bech32 (vr_operator req) of
                  None \<Rightarrow> ((400, None), s)
                | Some addr \<Rightarrow>
                    (case decode_std (vr_signature req) of
                       None \<Rightarrow> ((400, None), s)
                     | Some sig \<Rightarrow>
                         (case VerifyChallenge v now addr (vr_nonce req) sig s of
                            (Some _, s') \<Rightarrow> ((401, None), s')
                          | (None, s') \<Rightarrow> ((200, Some (SessionSigner_Issue mac ttl now addr)), s'))))))"

text \<open>\<open>h\<close> is the value of the \<^verbatim>\<open>Authorization\<close> header, empty when there is none.\<close>

definition RequireSession :: "mac \<Rightarrow> gotime \<Rightarrow> string \<Rightarrow> auth_error + address" where
  "RequireSession mac now h =
     (if \<not> has_prefix h ''Bearer '' then Inl ErrInvalidSession
      else SessionSigner_Verify mac now (trim_prefix h ''Bearer ''))"

section \<open>Nonces are single use\<close>

text \<open>A history of the store: challenges issued and nonces presented, in any order.\<close>

datatype nonce_op = IssueOp "bytes option" gotime address | ConsumeOp gotime address string

fun nonce_step :: "nonce_op \<Rightarrow> nonces \<Rightarrow> nonces" where
  "nonce_step (IssueOp rand now addr) s = snd (NonceStore_Issue rand now addr s)"
| "nonce_step (ConsumeOp now addr nonce) s = snd (consume now addr nonce s)"

fun issued :: "string \<Rightarrow> nonce_op list \<Rightarrow> nat" where
  "issued n [] = 0"
| "issued n (IssueOp rand now addr # ops) = (if map_option encode_hex rand = Some n then 1 else 0) + issued n ops"
| "issued n (ConsumeOp now addr nonce # ops) = issued n ops"

fun accepted :: "string \<Rightarrow> nonce_op list \<Rightarrow> nonces \<Rightarrow> nat" where
  "accepted n [] s = 0"
| "accepted n (IssueOp rand now addr # ops) s = accepted n ops (nonce_step (IssueOp rand now addr) s)"
| "accepted n (ConsumeOp now addr nonce # ops) s =
     (if nonce = n \<and> fst (consume now addr nonce s) = None then 1 else 0)
     + accepted n ops (nonce_step (ConsumeOp now addr nonce) s)"

lemma consume_None_iff:
  "fst (consume now addr nonce s) = None \<longleftrightarrow>
     (\<exists>e. s nonce = Some e \<and> operatorAddr e = addr \<and> \<not> after now (expiresAt e))"
  by (auto simp: consume_def split: option.splits)

lemma consume_state [simp]: "snd (consume now addr nonce s) = s(nonce := None)"
  by (auto simp: consume_def fun_eq_iff split: option.splits)

text \<open>C10: over any history of challenges and verifications, a nonce is accepted at most as often as it was
  issued: presenting it burns it, whatever the outcome.\<close>

theorem nonce_single_use: "accepted n ops NewNonceStore \<le> issued n ops"
proof -
  have "accepted n ops s \<le> issued n ops + (if s n = None then 0 else 1)" for s
  proof (induction n ops s rule: accepted.induct)
    case (2 n rand now addr ops s)
    have "(if nonce_step (IssueOp rand now addr) s n = None then 0 else 1) \<le>
        (if map_option encode_hex rand = Some n then 1 else 0) + (if s n = None then 0 else 1 :: nat)"
      by (cases rand) (auto simp: NonceStore_Issue_def Let_def)
    with 2 show ?case by (simp del: nonce_step.simps)
  next
    case (3 n now addr nonce ops s)
    have "(if nonce = n \<and> fst (consume now addr nonce s) = None then 1 else 0)
        + (if nonce_step (ConsumeOp now addr nonce) s n = None then 0 else 1) \<le> (if s n = None then 0 else 1 :: nat)"
      by (auto simp: consume_None_iff)
    with 3 show ?case by (simp del: nonce_step.simps)
  qed simp
  from this [of NewNonceStore] show ?thesis by (simp add: NewNonceStore_def)
qed

section \<open>Sessions\<close>

lemma get_put_int64: "in_int64 v \<Longrightarrow> get_int64 (put_uint64 v) = v"
proof -
  assume v: "in_int64 v"
  have "int (nat (v mod 2 ^ 64) mod 256 ^ 8) = v mod 2 ^ 64"
    by (simp add: nat_less_iff)
  then show ?thesis
    using v by (simp add: get_int64_def put_uint64_def get_put_be wrap64_def in_int64_def mod_add_left_eq)
qed

lemma address_bytes_id [simp]: "length a = AddressSize \<Longrightarrow> address_bytes a = a"
  by (simp add: address_bytes_def)

lemma length_address_bytes [simp]: "length (address_bytes a) = AddressSize"
  by (simp add: address_bytes_def)

lemma length_put_uint64 [simp]: "length (put_uint64 v) = expiryLen"
  by (simp add: put_uint64_def expiryLen_def)

lemma session_accepts:
  assumes "length addr = AddressSize" and "\<And>p. length (mac p) = macLen"
    and "in_int64 (unix_time (time_add issued_at ttl))"
  shows "SessionSigner_Verify mac now (SessionSigner_Issue mac ttl issued_at addr) =
     (if unix_time now \<le> unix_time (time_add issued_at ttl) then Inr addr else Inl ErrInvalidSession)"
proof -
  let ?payload = "addr @ put_uint64 (unix_time (time_add issued_at ttl))"
  have "length ?payload = AddressSize + expiryLen" using assms(1) by simp
  then have "take (AddressSize + expiryLen) (?payload @ mac ?payload) = ?payload"
    "drop (AddressSize + expiryLen) (?payload @ mac ?payload) = mac ?payload"
    "length (?payload @ mac ?payload) = AddressSize + expiryLen + macLen"
    using assms(2) by (auto simp del: append_assoc)
  moreover have "drop AddressSize ?payload = put_uint64 (unix_time (time_add issued_at ttl))"
    "take AddressSize ?payload = addr" using assms(1) by simp_all
  ultimately show ?thesis
    using assms(1,3)
    by (simp add: SessionSigner_Verify_def SessionSigner_Issue_def Let_def decode_encode_raw get_put_int64
        del: append_assoc)
qed

text \<open>A token of one signer is refused by another whose authentication codes differ.\<close>

lemma session_foreign:
  assumes "\<And>p. length p = AddressSize + expiryLen \<Longrightarrow> mac p \<noteq> mac' p"
  shows "SessionSigner_Verify mac' now (SessionSigner_Issue mac ttl issued_at addr) = Inl ErrInvalidSession"
proof -
  let ?payload = "address_bytes addr @ put_uint64 (unix_time (time_add issued_at ttl))"
  have l: "length ?payload = AddressSize + expiryLen" by simp
  then have "take (AddressSize + expiryLen) (?payload @ mac ?payload) = ?payload"
    "drop (AddressSize + expiryLen) (?payload @ mac ?payload) = mac ?payload" by (auto simp del: append_assoc)
  with assms [OF l] show ?thesis
    by (simp add: SessionSigner_Verify_def SessionSigner_Issue_def Let_def decode_encode_raw del: append_assoc)
qed

text \<open>A session token is accepted up to and including the second it expires in, and then names the operator
  it was issued for; after that it is refused.\<close>

theorem session_roundtrip:
  assumes "length addr = AddressSize" and "\<And>p. length (mac p) = macLen"
    and "in_int64 (unix_time (time_add issued_at ttl))"
  shows "SessionSigner_Verify mac now (SessionSigner_Issue mac ttl issued_at addr) =
     (if unix_time now \<le> unix_time (time_add issued_at ttl) then Inr addr else Inl ErrInvalidSession)"
  using assms by (rule session_accepts)

text \<open>The only tokens accepted are those that decode to a twenty-byte address, an expiry that has not passed
  and the authentication code of exactly these bytes; the address returned is the one covered by it.\<close>

theorem SessionSigner_Verify_iff:
  "SessionSigner_Verify mac now token = Inr addr \<longleftrightarrow>
     (\<exists>expiry. decode_raw url_alphabet token = Some (addr @ expiry @ mac (addr @ expiry))
        \<and> length addr = AddressSize \<and> length expiry = expiryLen \<and> length (mac (addr @ expiry)) = macLen
        \<and> unix_time now \<le> get_int64 expiry)" (is "?L \<longleftrightarrow> ?R")
proof
  assume ?L
  then obtain raw where raw: "decode_raw url_alphabet token = Some raw"
    "length raw = AddressSize + expiryLen + macLen"
    "drop (AddressSize + expiryLen) raw = mac (take (AddressSize + expiryLen) raw)"
    "unix_time now \<le> get_int64 (drop AddressSize (take (AddressSize + expiryLen) raw))"
    "addr = take AddressSize (take (AddressSize + expiryLen) raw)"
    by (auto simp: SessionSigner_Verify_def Let_def split: option.splits if_splits)
  let ?e = "drop AddressSize (take (AddressSize + expiryLen) raw)"
  have pl: "addr @ ?e = take (AddressSize + expiryLen) raw" unfolding raw(5) by (rule append_take_drop_id)
  have "length ?e = expiryLen" "length addr = AddressSize" using raw(2) by (simp_all add: raw(5))
  moreover have "length (mac (addr @ ?e)) = macLen" unfolding pl raw(3) [symmetric] using raw(2) by simp
  moreover have "raw = addr @ ?e @ mac (addr @ ?e)"
    unfolding append_assoc [symmetric] pl raw(3) [symmetric] by simp
  ultimately show ?R using raw(1,4) by metis
next
  assume ?R
  then obtain e where e: "decode_raw url_alphabet token = Some ((addr @ e) @ mac (addr @ e))"
    "length addr = AddressSize" "length e = expiryLen" "length (mac (addr @ e)) = macLen" "unix_time now \<le> get_int64 e"
    by auto
  have "take (AddressSize + expiryLen) ((addr @ e) @ mac (addr @ e)) = addr @ e"
    "drop (AddressSize + expiryLen) ((addr @ e) @ mac (addr @ e)) = mac (addr @ e)"
    using e(2,3) by (auto simp del: append_assoc)
  with e show ?L
    by (simp add: SessionSigner_Verify_def Let_def del: append_assoc)
qed

section \<open>Handlers\<close>

lemma VerifyChallenge_None:
  "VerifyChallenge v now addr nonce sig s = (None, s') \<longleftrightarrow>
     s' = s(nonce := None)
     \<and> (\<exists>e. s nonce = Some e \<and> operatorAddr e = addr \<and> \<not> after now (expiresAt e))
     \<and> (\<exists>bs key. SignBytes (sign_bytes_of v) (NewChallengeTx addr nonce) = Some bs
          \<and> lookup_key v addr = Some key \<and> verify_bytes v key bs sig)"
proof (cases "consume now addr nonce s")
  case (Pair e t)
  have "t = s(nonce := None)" using consume_state [of now addr nonce s] Pair by simp
  with Pair show ?thesis
    using consume_None_iff [of now addr nonce s]
    by (cases e) (auto simp: VerifyChallenge_def split: option.splits)
qed

lemma VerifyHandler_issues:
  assumes "VerifyHandler from_bech32 v mac ttl now meth body s = ((status, Some token), s')"
  obtains addr nonce sig where "VerifyChallenge v now addr nonce sig s = (None, s')" "status = 200"
    "token = SessionSigner_Issue mac ttl now addr"
  using assms that by (auto simp: VerifyHandler_def split: if_splits option.splits sum.splits prod.splits)

text \<open>A session token leaves the verification handler only for an operator whose live nonce was presented with
  a signature that verifies, under that operator's key, over the challenge transaction of this very operator
  and nonce; and that nonce is gone afterwards.\<close>

theorem VerifyHandler_token:
  assumes "VerifyHandler from_bech32 v mac ttl now meth body s = ((status, Some token), s')"
  shows "status = 200 \<and> (\<exists>addr nonce sig e bs key.
      s nonce = Some e \<and> operatorAddr e = addr \<and> \<not> after now (expiresAt e) \<and> s' = s(nonce := None)
      \<and> SignBytes (sign_bytes_of v) (NewChallengeTx addr nonce) = Some bs
      \<and> lookup_key v addr = Some key \<and> verify_bytes v key bs sig
      \<and> token = SessionSigner_Issue mac ttl now addr)"
proof -
  obtain addr nonce sig where
    "VerifyChallenge v now addr nonce sig s = (None, s')" "status = 200" "token = SessionSigner_Issue mac ttl now addr"
    using assms by (rule VerifyHandler_issues)
  then show ?thesis unfolding VerifyChallenge_None by blast
qed

definition challenge_doc :: "string \<Rightarrow> json" where
  "challenge_doc a = JObj [(''operator_address'', JStr a)]"

definition verify_doc :: "string \<Rightarrow> string \<Rightarrow> string \<Rightarrow> json" where
  "verify_doc a n sg = JObj [(''operator_address'', JStr a), (''nonce'', JStr n), (''signature'', JStr sg)]"

lemma auth_docs_decode:
  "decode_struct False challenge_fields (challenge_doc a) \<lparr>cr_operator = []\<rparr> = Inr \<lparr>cr_operator = a\<rparr>"
  "decode_struct False verify_fields (verify_doc a n sg) \<lparr>vr_operator = [], vr_nonce = [], vr_signature = []\<rparr>
     = Inr \<lparr>vr_operator = a, vr_nonce = n, vr_signature = sg\<rparr>"
  by (simp_all add: decode_struct_def challenge_doc_def verify_doc_def find_field_def challenge_fields_def
      verify_fields_def set_string_def)

text \<open>C26: the login an honest operator goes through works: a challenge answered within its five minutes with a
  signature that verifies yields a token, and the token opens a session until it expires.\<close>

theorem login_succeeds:
  assumes "from_bech32 a = Some addr" "length addr = AddressSize" "\<And>p. length (mac p) = macLen"
    and "marshal (NewChallengeTx addr (encode_hex raw)) = Some txJSON"
    and "SignBytes (sign_bytes_of v) (NewChallengeTx addr (encode_hex raw)) = Some bs"
    and "lookup_key v addr = Some key" "decode_std sg = Some sig" "verify_bytes v key bs sig"
    and "instant t1 \<le> instant t0 + 5 * minute"
    and "in_int64 (unix_time (time_add t1 ttl))" "unix_time t2 \<le> unix_time (time_add t1 ttl)"
  shows "\<exists>resp s1 token s2.
     ChallengeHandler from_bech32 marshal (Some raw) t0 ''POST'' (Some (challenge_doc a)) s = ((200, Some resp), s1)
     \<and> VerifyHandler from_bech32 v mac ttl t1 ''POST'' (Some (verify_doc a (chal_nonce resp) sg)) s1
         = ((200, Some token), s2)
     \<and> RequireSession mac t2 (''Bearer '' @ token) = Inr addr"
proof -
  let ?n = "encode_hex raw" and ?tok = "SessionSigner_Issue mac ttl t1 addr"
  let ?s1 = "s(?n \<mapsto> \<lparr>operatorAddr = addr, expiresAt = time_add t0 NonceTTL\<rparr>)"
  obtain resp where c: "ChallengeHandler from_bech32 marshal (Some raw) t0 ''POST'' (Some (challenge_doc a)) s
      = ((200, Some resp), ?s1)" and n: "chal_nonce resp = ?n"
    using assms(1,4) by (simp add: ChallengeHandler_def auth_docs_decode NonceStore_Issue_def Let_def)
  have "VerifyChallenge v t1 addr ?n sig ?s1 = (None, ?s1(?n := None))"
    using assms(5-9) unfolding VerifyChallenge_None by (simp add: after_def NonceTTL_def)
  then have "VerifyHandler from_bech32 v mac ttl t1 ''POST'' (Some (verify_doc a (chal_nonce resp) sg)) ?s1
      = ((200, Some ?tok), ?s1(?n := None))"
    using assms(1,7) by (simp add: VerifyHandler_def auth_docs_decode n)
  moreover have "RequireSession mac t2 (''Bearer '' @ ?tok) = Inr addr"
    using session_accepts [of addr mac t1 ttl t2, OF assms(2,3,10)] assms(11)
      has_prefix_append [of "''Bearer ''" ?tok] trim_prefix_append [of "''Bearer ''" ?tok]
    unfolding RequireSession_def by simp
  ultimately show ?thesis using c by blast
qed

section \<open>Concrete instances\<close>

definition sample_mac :: "char \<Rightarrow> bytes \<Rightarrow> bytes" where
  "sample_mac c p = replicate macLen c"

lemma length_sample_mac: "length (sample_mac c p) = macLen"
  by (simp add: sample_mac_def)

definition sample_address :: address where
  "sample_address = replicate AddressSize (CHR ''o'')"

lemma length_sample_address: "length sample_address = AddressSize"
  by (simp add: sample_address_def)

theorem session_roundtrip_witness:
  "SessionSigner_Verify (sample_mac (CHR ''k'')) (Time 0 0) (SessionSigner_Issue (sample_mac (CHR ''k'')) (5 * minute) (Time 0 0) sample_address)
     = Inr sample_address"
proof -
  have "in_int64 (unix_time (time_add (Time 0 0) (5 * minute)))" "unix_time (Time 0 0) \<le> unix_time (time_add (Time 0 0) (5 * minute))"
    by code_simp+
  with session_roundtrip [OF length_sample_address, of "sample_mac (CHR ''k'')" "Time 0 0" "5 * minute" "Time 0 0"] length_sample_mac show ?thesis by simp
qed

definition sample_verifier :: "unit verifier" where
  "sample_verifier = \<lparr>sign_bytes_of = (\<lambda>tx c n s. Some (tx_memo tx)), lookup_key = (\<lambda>_. Some ()), verify_bytes = (\<lambda>_ bs sig. True)\<rparr>"

theorem login_succeeds_witness:
  "\<exists>resp s1 token s2.
     ChallengeHandler (\<lambda>_. Some sample_address) (\<lambda>_. Some []) (Some ''n'') (Time 0 0) ''POST'' (Some (challenge_doc ''g1'')) NewNonceStore
       = ((200, Some resp), s1)
     \<and> VerifyHandler (\<lambda>_. Some sample_address) sample_verifier (sample_mac (CHR ''k'')) (5 * minute) (Time 1 0) ''POST''
         (Some (verify_doc ''g1'' (chal_nonce resp) [])) s1 = ((200, Some token), s2)
     \<and> RequireSession (sample_mac (CHR ''k'')) (Time 2 0) (''Bearer '' @ token) = Inr sample_address"
  by (rule login_succeeds [where bs = "MemoPrefix @ encode_hex ''n''" and key = "()" and sig = "[]"])
     (simp_all add: length_sample_address length_sample_mac sample_verifier_def SignBytes_def NewChallengeTx_def
       decode_std_def minute_def second_def, code_simp+)

end
