(* ===== verification/Portal_Progress.thy ===== *)
theory Portal_Progress
  imports Auth
begin

text \<open>
  \<^verbatim>\<open>src/portal/progress.go\<close>: the tracker of submissions in flight, the handles that publish into it, the handler
  that reports it, and the readers that count bytes. A nil tracker and a nil handle are \<open>None\<close>. The generation
  token is a 64-bit word, as in the source.
\<close>

section \<open>Data\<close>

datatype phase = NoPhase | PhaseValidating | PhaseScanning | PhaseStoring | PhaseScoring

text \<open>The phases in the order a submission goes through them.\<close>

fun phase_rank :: "phase \<Rightarrow> nat" where
  "phase_rank NoPhase = 0"
| "phase_rank PhaseValidating = 1"
| "phase_rank PhaseScanning = 2"
| "phase_rank PhaseStoring = 3"
| "phase_rank PhaseScoring = 4"

lemma phase_rank_inj: "phase_rank p = phase_rank q \<Longrightarrow> p = q"
  by (cases p; cases q) auto

instantiation phase :: linorder
begin

definition less_eq_phase :: "phase \<Rightarrow> phase \<Rightarrow> bool" where
  "less_eq_phase p q \<longleftrightarrow> phase_rank p \<le> phase_rank q"

definition less_phase :: "phase \<Rightarrow> phase \<Rightarrow> bool" where
  "less_phase p q \<longleftrightarrow> phase_rank p < phase_rank q"

instance
  by standard (auto simp: less_eq_phase_def less_phase_def intro: phase_rank_inj)

end

record progress =
  CurrentPhase :: phase
  PhaseBytes :: int
  PhaseTotal :: int
  PhaseStartedAt :: gotime

definition fresh_progress :: "gotime \<Rightarrow> progress" where
  "fresh_progress now = \<lparr>CurrentPhase = NoPhase, PhaseBytes = 0, PhaseTotal = 0, PhaseStartedAt = now\<rparr>"

record progressEntry =
  pe_progress :: progress
  lastUpdate :: gotime
  gen :: "64 word"

record tracker =
  inflight :: "string \<rightharpoonup> progressEntry"
  nextGen :: "64 word"

record handle =
  h_operator :: string
  h_gen :: "64 word"

definition progressTTL :: int where "progressTTL = 5 * minute"

definition NewProgressTracker :: tracker where
  "NewProgressTracker = \<lparr>inflight = Map.empty, nextGen = 0\<rparr>"

section \<open>Operations\<close>

definition Tracker_Begin :: "gotime \<Rightarrow> string \<Rightarrow> tracker option \<Rightarrow> handle option \<times> tracker option" where
  "Tracker_Begin now op trk =
     (case trk of
        None \<Rightarrow> (None, None)
      | Some t \<Rightarrow>
          (let g = nextGen t + 1;
               e = \<lparr>pe_progress = fresh_progress now, lastUpdate = now, gen = g\<rparr> in
           (Some \<lparr>h_operator = op, h_gen = g\<rparr>,
            Some (t\<lparr>inflight := (inflight t)(op \<mapsto> e), nextGen := g\<rparr>))))"

definition Tracker_Get :: "gotime \<Rightarrow> string \<Rightarrow> tracker option \<Rightarrow> progress option \<times> tracker option" where
  "Tracker_Get now op trk =
     (case trk of
        None \<Rightarrow> (None, None)
      | Some t \<Rightarrow>
          (case inflight t op of
             None \<Rightarrow> (None, Some t)
           | Some e \<Rightarrow>
               if progressTTL < time_sub now (lastUpdate e)
               then (None, Some (t\<lparr>inflight := (inflight t)(op := None)\<rparr>))
               else (Some (pe_progress e), Some t)))"

text \<open>\<open>update\<close> on a handle; the tracker is the one the handle was created from.\<close>

definition handle_update ::
  "(gotime \<Rightarrow> progress \<Rightarrow> progress) \<Rightarrow> gotime \<Rightarrow> handle option \<Rightarrow> tracker option \<Rightarrow> tracker option" where
  "handle_update f now hnd trk =
     (case (hnd, trk) of
        (Some h, Some t) \<Rightarrow>
          (case inflight t (h_operator h) of
             None \<Rightarrow> Some t
           | Some e \<Rightarrow>
               if gen e \<noteq> h_gen h then Some t
               else Some (t\<lparr>inflight := (inflight t)(h_operator h \<mapsto>
                            e\<lparr>pe_progress := f now (pe_progress e), lastUpdate := now\<rparr>)\<rparr>))
      | _ \<Rightarrow> trk)"

definition Handle_Phase :: "phase \<Rightarrow> int \<Rightarrow> gotime \<Rightarrow> handle option \<Rightarrow> tracker option \<Rightarrow> tracker option" where
  "Handle_Phase p tot =
     handle_update (\<lambda>now _. \<lparr>CurrentPhase = p, PhaseBytes = 0, PhaseTotal = tot, PhaseStartedAt = now\<rparr>)"

definition Handle_Add :: "int \<Rightarrow> gotime \<Rightarrow> handle option \<Rightarrow> tracker option \<Rightarrow> tracker option" where
  "Handle_Add n = handle_update (\<lambda>now p. p\<lparr>PhaseBytes := wrap64 (PhaseBytes p + n)\<rparr>)"

definition Handle_Done :: "handle option \<Rightarrow> tracker option \<Rightarrow> tracker option" where
  "Handle_Done hnd trk =
     (case (hnd, trk) of
        (Some h, Some t) \<Rightarrow>
          (case inflight t (h_operator h) of
             Some e \<Rightarrow> if gen e = h_gen h then Some (t\<lparr>inflight := (inflight t)(h_operator h := None)\<rparr>) else Some t
           | None \<Rightarrow> Some t)
      | _ \<Rightarrow> trk)"

text \<open>\<open>addr_string\<close> is \<open>Address.String\<close>, the bech32 form.\<close>

definition ProgressHandler ::
  "mac \<Rightarrow> (address \<Rightarrow> string) \<Rightarrow> gotime \<Rightarrow> string \<Rightarrow> string \<Rightarrow> tracker option
   \<Rightarrow> (nat \<times> progress option) \<times> tracker option" where
  "ProgressHandler mac addr_string now meth auth_header trk =
     (if meth \<noteq> ''GET'' then ((405, None), trk)
      else case RequireSession mac now auth_header of
        Inl _ \<Rightarrow> ((401, None), trk)
      | Inr addr \<Rightarrow>
          (case Tracker_Get now (addr_string addr) trk of
             (None, trk') \<Rightarrow> ((404, None), trk')
           | (Some p, trk') \<Rightarrow> ((200, Some p), trk')))"

section \<open>Counting readers\<close>

text \<open>
  The calls made on a \<open>countingSeeker\<close>: a read that delivers \<open>n\<close> bytes, and a seek, with what the wrapped seeker
  answers (\<open>None\<close>: an error). The result is the list of amounts reported through \<open>add\<close> and the offset.
\<close>

datatype seek_call = ReadCall nat | SeekCall "int option"

fun seeker_step :: "seek_call \<Rightarrow> int list \<times> int \<Rightarrow> int list \<times> int" where
  "seeker_step (ReadCall n) (adds, off) =
     (if 0 < n then (adds @ [int n], wrap64 (off + int n)) else (adds, off))"
| "seeker_step (SeekCall None) (adds, off) = (adds, off)"
| "seeker_step (SeekCall (Some new)) (adds, off) = (adds @ [wrap64 (new - off)], new)"

text \<open>\<open>countingReader\<close>: what its reads report, over the counts the wrapped reader delivers.\<close>

fun reader_adds :: "nat list \<Rightarrow> int list" where
  "reader_adds [] = []"
| "reader_adds (n # ns) = (if 0 < n then int n # reader_adds ns else reader_adds ns)"

lemma wrap64_sum: "wrap64 (wrap64 a + b) = wrap64 (a + b)"
proof -
  have "wrap64 a + b + 2 ^ 63 = (a + 2 ^ 63) mod 2 ^ 64 + b" by (simp add: wrap64_def)
  then have "(wrap64 a + b + 2 ^ 63) mod 2 ^ 64 = (a + 2 ^ 63 + b) mod 2 ^ 64" by (simp only: mod_add_left_eq)
  moreover have "a + 2 ^ 63 + b = a + b + 2 ^ 63" by simp
  ultimately show ?thesis unfolding wrap64_def [of "wrap64 a + b"] wrap64_def [of "a + b"] by (simp only:)
qed

lemma fold_add_wrap: "fold (\<lambda>n s. wrap64 (s + n)) adds (wrap64 s) = wrap64 (s + sum_list adds)"
proof (induction adds arbitrary: s)
  case (Cons a adds)
  then show ?case by (simp add: wrap64_sum add.assoc)
qed simp

definition seek_ok :: "seek_call \<Rightarrow> bool" where
  "seek_ok c \<longleftrightarrow> (case c of SeekCall (Some new) \<Rightarrow> in_int64 new | _ \<Rightarrow> True)"

definition published :: "int list \<times> int \<Rightarrow> bool" where
  "published st \<longleftrightarrow> wrap64 (sum_list (fst st)) = snd st"

lemma seeker_step_published: "published st \<Longrightarrow> seek_ok c \<Longrightarrow> published (seeker_step c st)"
proof -
  obtain adds off where st: "st = (adds, off)" by (cases st)
  assume "published st" "seek_ok c"
  then have off: "off = wrap64 (sum_list adds)" by (simp add: published_def st)
  show ?thesis
  proof (cases c)
    case (ReadCall n)
    then show ?thesis by (simp add: published_def st off wrap64_sum)
  next
    case (SeekCall r)
    then show ?thesis
      using \<open>seek_ok c\<close> wrap64_sum [of "new - off" "sum_list adds" for new]
        wrap64_sum [of "sum_list adds" "new - off" for new]
      by (cases r) (simp_all add: published_def st off seek_ok_def add.commute)
  qed
qed

text \<open>Whatever mix of reads, rewinds and failed seeks the store makes of the upload, the progress published for it
  is the current offset of the upload, retried bytes not counted twice.\<close>

theorem countingSeeker_offset:
  assumes "list_all seek_ok calls"
  shows "fold (\<lambda>n s. wrap64 (s + n)) (fst (fold seeker_step calls ([], 0))) 0 = snd (fold seeker_step calls ([], 0))"
proof -
  have "published (fold seeker_step calls st)" if "published st" for st
    using that assms by (induction calls arbitrary: st) (auto simp: seeker_step_published)
  from this [of "([], 0)"] fold_add_wrap [of _ 0] show ?thesis
    by (simp add: published_def in_int64_def)
qed

section \<open>Superseded handles are inert\<close>

text \<open>What happens to a tracker: every operation of the tracker and of any handle, at any time.\<close>

datatype tracker_op =
    OpBegin gotime string
  | OpGet gotime string
  | OpPhase phase int gotime handle
  | OpAdd int gotime handle
  | OpDone handle

fun tracker_step :: "tracker_op \<Rightarrow> tracker \<Rightarrow> tracker" where
  "tracker_step (OpBegin now op) t = the (snd (Tracker_Begin now op (Some t)))"
| "tracker_step (OpGet now op) t = the (snd (Tracker_Get now op (Some t)))"
| "tracker_step (OpPhase p tot now h) t = the (Handle_Phase p tot now (Some h) (Some t))"
| "tracker_step (OpAdd n now h) t = the (Handle_Add n now (Some h) (Some t))"
| "tracker_step (OpDone h) t = the (Handle_Done (Some h) (Some t))"

fun begins :: "tracker_op list \<Rightarrow> nat" where
  "begins [] = 0"
| "begins (OpBegin now op # ops) = Suc (begins ops)"
| "begins (_ # ops) = begins ops"

definition begun :: "string \<Rightarrow> tracker_op list \<Rightarrow> bool" where
  "begun op ops \<longleftrightarrow> (\<exists>now. OpBegin now op \<in> set ops)"

text \<open>One step: a new entry carries the next token, any other entry keeps its own.\<close>

lemma tracker_step_entry:
  assumes "inflight (tracker_step x t) op = Some e"
  shows "(\<exists>now. x = OpBegin now op) \<and> gen e = nextGen t + 1
     \<or> \<not> (\<exists>now. x = OpBegin now op) \<and> (\<exists>e0. inflight t op = Some e0 \<and> gen e = gen e0)"
  using assms
  by (cases x) (auto simp: Tracker_Begin_def Tracker_Get_def Handle_Phase_def Handle_Add_def Handle_Done_def
      handle_update_def Let_def split: option.splits if_splits)

lemma tracker_step_nextGen:
  "nextGen (tracker_step x t) = nextGen t + (case x of OpBegin now op \<Rightarrow> 1 | _ \<Rightarrow> 0)"
  by (cases x) (auto simp: Tracker_Begin_def Tracker_Get_def Handle_Phase_def Handle_Add_def Handle_Done_def
      handle_update_def Let_def split: option.splits)

lemma tracker_run_entry:
  assumes "inflight (fold tracker_step ops t) op = Some e"
  shows "\<not> begun op ops \<and> (\<exists>e0. inflight t op = Some e0 \<and> gen e = gen e0)
     \<or> (\<exists>i. 1 \<le> i \<and> i \<le> begins ops \<and> gen e = nextGen t + of_nat i)"
  using assms
proof (induction ops arbitrary: t)
  case (Cons x ops)
  from Cons.IH [of "tracker_step x t"] Cons.prems
  consider e0 where "\<not> begun op ops" "inflight (tracker_step x t) op = Some e0" "gen e = gen e0"
    | i where "1 \<le> i" "i \<le> begins ops" "gen e = nextGen (tracker_step x t) + of_nat i" by auto
  then show ?case
  proof cases
    case 1
    from tracker_step_entry [OF 1(2)] show ?thesis
    proof (elim disjE conjE exE)
      fix now assume "x = OpBegin now op" "gen e0 = nextGen t + 1"
      with 1(3) show ?thesis by (intro disjI2 exI [of _ 1]) simp
    next
      fix e1 assume "\<not> (\<exists>now. x = OpBegin now op)" "inflight t op = Some e1" "gen e0 = gen e1"
      with 1 show ?thesis by (auto simp: begun_def)
    qed
  next
    case 2
    show ?thesis
    proof (cases "\<exists>now o'. x = OpBegin now o'")
      case True
      with 2 show ?thesis
        by (intro disjI2 exI [of _ "Suc i"]) (auto simp: tracker_step_nextGen simp del: tracker_step.simps)
    next
      case False
      with 2 show ?thesis
        by (intro disjI2 exI [of _ i]) (cases x; auto simp: tracker_step_nextGen simp del: tracker_step.simps)
    qed
  qed
qed (auto simp: begun_def)

lemma of_nat_word64_ne_0: "1 \<le> i \<Longrightarrow> i < 2 ^ 64 \<Longrightarrow> (of_nat i :: 64 word) \<noteq> 0"
  by (simp add: word_of_nat_eq_0_iff nat_dvd_not_less)

text \<open>C40: once an operator starts a second submission, the handle of the first one is inert for good: after any further
  operations of any handles, fewer than \<open>2 ^ 64\<close> submissions later, none of its calls changes what is published.\<close>

theorem superseded_handle_inert:
  assumes "Tracker_Begin now op (Some t) = (Some h, Some t1)"
    and "begun op ops" "begins ops < 2 ^ 64"
  shows "Handle_Phase p tot now' (Some h) (Some (fold tracker_step ops t1)) = Some (fold tracker_step ops t1)
     \<and> Handle_Add n now' (Some h) (Some (fold tracker_step ops t1)) = Some (fold tracker_step ops t1)
     \<and> Handle_Done (Some h) (Some (fold tracker_step ops t1)) = Some (fold tracker_step ops t1)"
proof -
  have h: "h_operator h = op" "h_gen h = nextGen t1"
    using assms(1) by (auto simp: Tracker_Begin_def Let_def)
  have "gen e \<noteq> h_gen h" if e: "inflight (fold tracker_step ops t1) op = Some e" for e
  proof -
    obtain i where "1 \<le> i" "i \<le> begins ops" "gen e = nextGen t1 + of_nat i"
      using tracker_run_entry [OF e] assms(2) by blast
    with of_nat_word64_ne_0 [of i] assms(3) show ?thesis by (simp add: h)
  qed
  then show ?thesis
    by (auto simp: Handle_Phase_def Handle_Add_def Handle_Done_def handle_update_def h(1) split: option.splits)
qed

section \<open>What is reported\<close>

text \<open>The progress handler reports to the operator its session names, and only that operator's entry, only while it
  is at most five minutes old; it never changes another operator's entry.\<close>

theorem ProgressHandler_own:
  assumes "ProgressHandler mac addr_string now meth auth_header (Some t) = ((status, out), Some t')"
  shows "(status = 200 \<longrightarrow> (\<exists>addr e. RequireSession mac now auth_header = Inr addr
            \<and> inflight t (addr_string addr) = Some e \<and> out = Some (pe_progress e)
            \<and> time_sub now (lastUpdate e) \<le> 5 * minute \<and> t' = t))
     \<and> (status \<noteq> 200 \<longrightarrow> out = None)
     \<and> (\<forall>op. RequireSession mac now auth_header = Inr a \<longrightarrow> op \<noteq> addr_string a \<longrightarrow> inflight t' op = inflight t op)"
  using assms
  by (auto simp: ProgressHandler_def Tracker_Get_def progressTTL_def split: if_splits sum.splits option.splits)

text \<open>A live handle's own calls are what the tracker reports next: a phase change shows that phase with its
  total and no bytes, and the bytes added in it accumulate.\<close>

theorem handle_publishes:
  assumes "Tracker_Begin now0 op (Some t) = (h, trk)" and "0 \<le> n" "n < 2 ^ 63"
    and "time_sub now3 now2 \<le> 5 * minute"
  shows "fst (Tracker_Get now3 op (Handle_Add n now2 h (Handle_Phase p tot now1 h trk))) =
     Some \<lparr>CurrentPhase = p, PhaseBytes = n, PhaseTotal = tot, PhaseStartedAt = now1\<rparr>"
  using assms
  by (auto simp: Tracker_Begin_def Handle_Add_def Handle_Phase_def handle_update_def Tracker_Get_def Let_def
      progressTTL_def in_int64_def)

section \<open>Concrete instances\<close>

theorem superseded_handle_inert_witness:
  "\<exists>h t1 t2. Tracker_Begin (Time 0 0) ''g1'' (Some NewProgressTracker) = (Some h, Some t1)
     \<and> t2 = fold tracker_step [OpBegin (Time 1 0) ''g1'', OpAdd 5 (Time 2 0) h] t1 \<and> Handle_Done (Some h) (Some t2) = Some t2"
proof -
  obtain h t1 where b: "Tracker_Begin (Time 0 0) ''g1'' (Some NewProgressTracker) = (Some h, Some t1)"
    by (simp add: Tracker_Begin_def Let_def)
  from superseded_handle_inert [OF b, of "[OpBegin (Time 1 0) ''g1'', OpAdd 5 (Time 2 0) h]"] b show ?thesis
    by (simp add: begun_def del: fold_simps)
qed

end
