(* ===== verification/Phase_Timer.thy ===== *)
theory Phase_Timer
  imports Portal_Progress
begin

text \<open>
  The \<open>phaseTimer\<close> of \<^verbatim>\<open>src/portal/submit.go\<close>: the span of time each server-side phase of a submission took, kept next to
  the progress it publishes. A span is a phase with its duration, rounded to milliseconds; the text it is
  formatted to is not modelled. A transition with no phase is the empty phase of the source.
\<close>

section \<open>Operations\<close>

record phaseTimer =
  pt_current :: phase
  pt_since :: gotime
  pt_spans :: "(phase \<times> int) list"

definition millisecond :: int where "millisecond = 1000000"

text \<open>\<open>Duration.Round\<close>: to the nearest multiple of a positive \<open>m\<close>, halves away from zero, within the range of a duration.\<close>

definition duration_round :: "int \<Rightarrow> int \<Rightarrow> int" where
  "duration_round m d =
     (let r = d - quot d m * m in
      if d < 0 then
        (if - r + - r < m then d - r else max min_int64 (d - (m + r)))
      else if r + r < m then d - r else min max_int64 (d + (m - r)))"

definition newPhaseTimer :: phaseTimer where
  "newPhaseTimer = \<lparr>pt_current = NoPhase, pt_since = zero_time, pt_spans = []\<rparr>"

definition closeSpan :: "gotime \<Rightarrow> phaseTimer \<Rightarrow> phaseTimer" where
  "closeSpan now t =
     (if pt_current t = NoPhase then t
      else t\<lparr>pt_spans := pt_spans t @ [(pt_current t, duration_round millisecond (time_sub now (pt_since t)))],
             pt_current := NoPhase\<rparr>)"

text \<open>\<open>now\<close> closes the span, \<open>now'\<close> opens the next one and \<open>now''\<close> is the time the progress is published with.\<close>

definition phaseTimer_phase ::
  "gotime \<Rightarrow> gotime \<Rightarrow> gotime \<Rightarrow> handle option \<Rightarrow> phase \<Rightarrow> int \<Rightarrow> phaseTimer \<times> tracker option \<Rightarrow> phaseTimer \<times> tracker option" where
  "phaseTimer_phase now now' now'' hnd p tot s =
     (case s of (t, trk) \<Rightarrow>
        ((closeSpan now t)\<lparr>pt_current := p, pt_since := now'\<rparr>, Handle_Phase p tot now'' hnd trk))"

text \<open>The line \<open>log\<close> prints: none when no phase was entered.\<close>

definition phaseTimer_log :: "gotime \<Rightarrow> string \<Rightarrow> phaseTimer \<Rightarrow> (string \<times> (phase \<times> int) list) option" where
  "phaseTimer_log now fname t =
     (let spans = pt_spans (closeSpan now t) in if length spans = 0 then None else Some (fname, spans))"

section \<open>The report covers the phases\<close>

text \<open>A run of transitions, each with its three readings of the clock.\<close>

fun time_phases ::
  "handle option \<Rightarrow> (gotime \<times> gotime \<times> gotime \<times> phase \<times> int) list \<Rightarrow> phaseTimer \<times> tracker option
   \<Rightarrow> phaseTimer \<times> tracker option" where
  "time_phases hnd [] s = s"
| "time_phases hnd ((now, now', now'', p, tot) # cs) s =
     time_phases hnd cs (phaseTimer_phase now now' now'' hnd p tot s)"

definition timed :: "phaseTimer \<Rightarrow> phase list" where
  "timed t = map fst (pt_spans t) @ (if pt_current t = NoPhase then [] else [pt_current t])"

lemma closeSpan_timed: "map fst (pt_spans (closeSpan now t)) = timed t"
  by (simp add: closeSpan_def timed_def)

lemma time_phases_timed:
  "NoPhase \<notin> (\<lambda>c. fst (snd (snd (snd c)))) ` set cs \<Longrightarrow>
     timed (fst (time_phases hnd cs (t, trk))) = timed t @ map (\<lambda>c. fst (snd (snd (snd c)))) cs"
proof (induction cs arbitrary: t trk)
  case (Cons c cs)
  obtain now now' now'' p tot where c: "c = (now, now', now'', p, tot)" by (cases c)
  let ?t = "(closeSpan now t)\<lparr>pt_current := p, pt_since := now'\<rparr>"
  have "timed ?t = timed t @ [p]"
    using Cons.prems closeSpan_timed [of now t] by (auto simp: timed_def c)
  with Cons.IH [of ?t "Handle_Phase p tot now'' hnd trk"] Cons.prems show ?case
    by (simp add: c phaseTimer_phase_def)
qed simp

text \<open>
  However a submission ends, the line printed for it lists one span for each phase it went through, in order, the
  last one included; nothing is printed for a submission that entered none.
\<close>

theorem phaseTimer_reports:
  assumes "NoPhase \<notin> (\<lambda>c. fst (snd (snd (snd c)))) ` set cs"
  shows "map_option (map fst \<circ> snd) (phaseTimer_log now fname (fst (time_phases hnd cs (newPhaseTimer, trk)))) =
     (if cs = [] then None else Some (map (\<lambda>c. fst (snd (snd (snd c)))) cs))"
proof -
  let ?t = "fst (time_phases hnd cs (newPhaseTimer, trk))"
  have spans: "map fst (pt_spans (closeSpan now ?t)) = map (\<lambda>c. fst (snd (snd (snd c)))) cs"
    using time_phases_timed [OF assms, of hnd newPhaseTimer trk]
    by (simp add: closeSpan_timed timed_def newPhaseTimer_def)
  then have "pt_spans (closeSpan now ?t) = [] \<longleftrightarrow> cs = []" by (metis map_is_Nil_conv)
  with spans show ?thesis by (cases "cs = []") (simp_all add: phaseTimer_log_def Let_def)
qed

end
