(* ===== verification/Storage.thy ===== *)
theory Storage
  imports Streams Submission_Name
begin

text \<open>
  \<^verbatim>\<open>src/storage\<close>: the interface of an archive store (\<^verbatim>\<open>store.go\<close>), as the locale \<open>archive_store\<close>, the store
  in a local directory (\<^verbatim>\<open>local.go\<close>) and the one in an S3 bucket (\<^verbatim>\<open>s3.go\<close>), whose client is a parameter.

  A local directory maps paths below it, lists of components, to contents; the empty path is the
  directory itself.
\<close>

section \<open>The local store\<close>

definition separator :: char where "separator = CHR ''/''"

definition validKey :: "string \<Rightarrow> bool" where
  "validKey key \<longleftrightarrow> key \<noteq> [] \<and> key \<noteq> ''.'' \<and> key \<noteq> ''..'' \<and> separator \<notin> set key"

text \<open>\<open>filepath.Clean\<close> of the separator followed by the key, as the components it leaves.\<close>

fun split_path :: "string \<Rightarrow> string \<Rightarrow> string list" where
  "split_path cur [] = [rev cur]"
| "split_path cur (c # s) = (if c = separator then rev cur # split_path [] s else split_path (c # cur) s)"

fun clean_components :: "string list \<Rightarrow> string list \<Rightarrow> string list" where
  "clean_components st [] = rev st"
| "clean_components st (c # cs) =
     (if c = [] \<or> c = ''.'' then clean_components st cs
      else if c = ''..'' then clean_components (drop 1 st) cs
      else clean_components (c # st) cs)"

definition dest_of :: "string \<Rightarrow> string list" where
  "dest_of key = clean_components [] (split_path [] key)"

type_synonym upload_dir = "string list \<rightharpoonup> bytes"

datatype storage_error = InvalidKey | CreateFailed | CopyFailed | DeleteFailed | UploadFailed string

text \<open>
  The faults of one call: whether opening the file fails, after how many bytes the disk is full
  (\<open>None\<close>: never), and whether removing the file fails.
\<close>

record file_faults =
  open_fails :: bool
  room :: "nat option"
  remove_fails :: bool

definition no_faults :: file_faults where
  "no_faults = \<lparr>open_fails = False, room = None, remove_fails = False\<rparr>"

definition LocalStore_Save ::
  "file_faults \<Rightarrow> string \<Rightarrow> stream \<Rightarrow> upload_dir \<Rightarrow> storage_error option \<times> upload_dir" where
  "LocalStore_Save flt key src d =
     (if \<not> validKey key then (Some InvalidKey, d)
      else
        (let dest = dest_of key in
         if open_fails flt \<or> dest = [] \<or> d dest \<noteq> None then (Some CreateFailed, d)
         else
           (let full = (case room flt of None \<Rightarrow> False | Some k \<Rightarrow> k < length (sdata src));
                written = (case room flt of None \<Rightarrow> sdata src | Some k \<Rightarrow> take k (sdata src))
            in (if full \<or> sbroken src then Some CopyFailed else None, d(dest \<mapsto> written)))))"

definition LocalStore_Delete ::
  "file_faults \<Rightarrow> string \<Rightarrow> upload_dir \<Rightarrow> storage_error option \<times> upload_dir" where
  "LocalStore_Delete flt key d =
     (if \<not> validKey key then (Some InvalidKey, d)
      else if remove_fails flt then (Some DeleteFailed, d)
      else (None, d(dest_of key := None)))"

section \<open>The S3 store\<close>

record 'b s3_client =
  put_object :: "string \<Rightarrow> string \<Rightarrow> stream \<Rightarrow> int \<Rightarrow> 'b \<Rightarrow> bool \<times> 'b"
  delete_object :: "string \<Rightarrow> string \<Rightarrow> 'b \<Rightarrow> bool \<times> 'b"

definition S3Store_Save ::
  "'b s3_client \<Rightarrow> string \<Rightarrow> string \<Rightarrow> stream \<Rightarrow> int \<Rightarrow> 'b \<Rightarrow> storage_error option \<times> 'b" where
  "S3Store_Save client bucket key src sz b =
     (case put_object client bucket key src sz b of
        (failed, b') \<Rightarrow> (if failed then Some (UploadFailed key) else None, b'))"

definition S3Store_Delete ::
  "'b s3_client \<Rightarrow> string \<Rightarrow> string \<Rightarrow> 'b \<Rightarrow> storage_error option \<times> 'b" where
  "S3Store_Delete client bucket key b =
     (case delete_object client bucket key b of
        (failed, b') \<Rightarrow> (if failed then Some DeleteFailed else None, b'))"

section \<open>The interface\<close>

text \<open>
  What a client of a store relies on: a save that succeeds makes the whole body readable under its
  key, a delete that succeeds removes it, and no call touches another key.
\<close>

datatype 'w store_op = SaveOp 'w string stream | DeleteOp 'w string

text \<open>A history of calls and the keys it touches.\<close>

fun run_ops ::
  "('w \<Rightarrow> string \<Rightarrow> stream \<Rightarrow> 's \<Rightarrow> 'x \<times> 's) \<Rightarrow> ('w \<Rightarrow> string \<Rightarrow> 's \<Rightarrow> 'x \<times> 's)
   \<Rightarrow> 'w store_op list \<Rightarrow> 's \<Rightarrow> 's" where
  "run_ops save del [] s = s"
| "run_ops save del (SaveOp w k b # ops) s = run_ops save del ops (snd (save w k b s))"
| "run_ops save del (DeleteOp w k # ops) s = run_ops save del ops (snd (del w k s))"

fun keys_of :: "'w store_op list \<Rightarrow> string set" where
  "keys_of [] = {}"
| "keys_of (SaveOp w k b # ops) = insert k (keys_of ops)"
| "keys_of (DeleteOp w k # ops) = insert k (keys_of ops)"

locale archive_store =
  fixes save :: "'w \<Rightarrow> string \<Rightarrow> stream \<Rightarrow> 's \<Rightarrow> 'x option \<times> 's"
    and del :: "'w \<Rightarrow> string \<Rightarrow> 's \<Rightarrow> 'x option \<times> 's"
    and content :: "'s \<Rightarrow> string \<Rightarrow> bytes option"
  assumes save_ok: "save w k b s = (None, s') \<Longrightarrow> content s' k = Some (sdata b) \<and> \<not> sbroken b"
    and save_frame: "j \<noteq> k \<Longrightarrow> content (snd (save w k b s)) j = content s j"
    and del_ok: "del w k s = (None, s') \<Longrightarrow> content s' k = None"
    and del_frame: "j \<noteq> k \<Longrightarrow> content (snd (del w k s)) j = content s j"
begin

lemma run_ops_frame: "j \<notin> keys_of ops \<Longrightarrow> content (run_ops save del ops s) j = content s j"
proof (induction ops arbitrary: s)
  case (Cons x ops)
  then show ?case by (cases x) (auto simp: save_frame del_frame)
qed simp

lemma save_then_others:
  "save w k b s = (None, s') \<Longrightarrow> k \<notin> keys_of ops \<Longrightarrow> content (run_ops save del ops s') k = Some (sdata b)"
  using run_ops_frame [of k ops s'] save_ok by simp

end

section \<open>Paths\<close>

lemma split_path_plain: "separator \<notin> set s \<Longrightarrow> split_path cur s = [rev cur @ s]"
  by (induction cur s rule: split_path.induct) auto

lemma dest_of_valid [simp]: "validKey key \<Longrightarrow> dest_of key = [key]"
  by (simp add: validKey_def dest_of_def split_path_plain)

definition plain_component :: "string \<Rightarrow> bool" where
  "plain_component c \<longleftrightarrow> c \<noteq> [] \<and> c \<noteq> ''.'' \<and> c \<noteq> ''..'' \<and> separator \<notin> set c"

lemma split_path_no_separator:
  "separator \<notin> set cur \<Longrightarrow> c \<in> set (split_path cur s) \<Longrightarrow> separator \<notin> set c"
  by (induction cur s rule: split_path.induct) (auto split: if_splits)

lemma clean_components_plain:
  "\<forall>c\<in>set st. plain_component c \<Longrightarrow> \<forall>c\<in>set cs. separator \<notin> set c \<Longrightarrow>
   c \<in> set (clean_components st cs) \<Longrightarrow> plain_component c"
proof (induction st cs rule: clean_components.induct)
  case (2 st c cs)
  then show ?case by (auto simp: plain_component_def split: if_splits dest: in_set_dropD)
qed auto

text \<open>No key, however it is built, names a path outside the upload directory: what remains of it after cleaning
  are plain components below the directory. A call with a degenerate key, one that could name the directory
  itself, changes nothing.\<close>

theorem LocalStore_confined:
  "list_all plain_component (dest_of key)
   \<and> (validKey key \<or> snd (LocalStore_Save flt key src d) = d \<and> snd (LocalStore_Delete flt key d) = d)"
proof -
  have "list_all plain_component (dest_of key)"
    using clean_components_plain [of "[]" "split_path [] key"] split_path_no_separator [of "[]" _ key]
    by (auto simp: dest_of_def list_all_iff)
  then show ?thesis by (simp add: LocalStore_Save_def LocalStore_Delete_def)
qed

lemma digit_not_separator: "is_digit c \<Longrightarrow> c \<noteq> separator"
  by (auto simp: is_digit_def separator_def)

lemma pad_no_separator: "separator \<notin> set (pad k n)"
  using pad_digits [of k n] digit_not_separator by (auto simp: list_all_iff simp del: pad_digits)

lemma moniker_no_separator: "monikerCharsRe m \<Longrightarrow> separator \<notin> set m"
  by (auto simp: monikerCharsRe_def separator_def list_all_iff is_alnum_def Let_def split: list.splits)

lemma archive_name_key: "monikerCharsRe m \<Longrightarrow> validKey (archive_name m t)"
proof -
  assume m: "monikerCharsRe m"
  have "length (archive_name m t) \<ge> 24" by (simp add: archive_name_def stamp_text_def)
  then have "archive_name m t \<noteq> []" "archive_name m t \<noteq> ''.''" "archive_name m t \<noteq> ''..''" by auto
  moreover have "separator \<notin> set (archive_name m t)"
    using m pad_no_separator moniker_no_separator [OF m]
    by (simp add: archive_name_def stamp_text_def separator_def)
  ultimately show ?thesis by (simp add: validKey_def)
qed

text \<open>Every file name the validation accepts is a usable key: the local store keeps the archive under
  exactly that name in its directory.\<close>

theorem accepted_name_is_key:
  assumes "ValidateFilename name = Inr r"
  shows "validKey name \<and> dest_of name = [name]"
proof -
  obtain m t where "r = (m, t)" by (cases r)
  then have "monikerCharsRe m" "name = archive_name m t" using assms by (auto simp: ValidateFilename_exact)
  then show ?thesis using archive_name_key dest_of_valid by blast
qed

section \<open>The local store implements the interface\<close>

definition local_content :: "upload_dir \<Rightarrow> string \<Rightarrow> bytes option" where
  "local_content d key = (if validKey key then d (dest_of key) else None)"

interpretation local_store: archive_store LocalStore_Save LocalStore_Delete local_content
  by unfold_locales
     (auto simp: LocalStore_Save_def LocalStore_Delete_def local_content_def Let_def
       split: if_splits option.splits)

text \<open>An archive that is already stored is never overwritten: a second save under its key is refused and
  changes nothing. The same holds after a save that broke off, whose partial file stays behind.\<close>

theorem LocalStore_no_overwrite:
  assumes "validKey key"
  shows "(local_content d key \<noteq> None \<longrightarrow> LocalStore_Save flt key src d = (Some CreateFailed, d))
     \<and> (fst (LocalStore_Save flt key src d) = Some CopyFailed \<longrightarrow>
          fst (LocalStore_Save flt' key src' (snd (LocalStore_Save flt key src d))) = Some CreateFailed)"
  using assms by (auto simp: local_content_def LocalStore_Save_def Let_def split: if_splits)

text \<open>An archive saved without an error can be read back whole as long as no operation on its own key
  follows, whatever happens to the others and whatever faults they meet.\<close>

theorem LocalStore_durable:
  assumes "LocalStore_Save flt key src d = (None, d')" and "key \<notin> keys_of ops"
  shows "local_content (run_ops LocalStore_Save LocalStore_Delete ops d') key = Some (sdata src)"
  using assms by (rule local_store.save_then_others)

end
