(* ===== verification/Portal_Submit.thy ===== *)
theory Portal_Submit
  imports Archive_Scan Submission_Name Score_Store Portal_Log Phase_Timer Storage
begin

text \<open>
  \<^verbatim>\<open>src/portal/submit.go\<close>: the upload endpoint. \<open>SubmitHandler_ServeHTTP\<close> is the whole handler: the session, the
  size limit, the checks of the upload (\<open>check_upload\<close>), the store, the score, the log and the progress it
  publishes on the way.

  The handler's fields and the libraries it calls are the record \<open>handler\<close>; what the environment decides in one
  request, the clock, the random source, failing seeks, disks and contexts, is the record \<open>weather\<close>. The
  store is an interface: \<open>save\<close> is the call of \<open>Store.Save\<close> on the state \<open>'s\<close>.
\<close>

section \<open>Data\<close>

record 's handler =
  h_mac :: mac
  addr_string :: "address \<Rightarrow> string"
  h_untar :: untar
  h_gunzip :: gunzip
  h_json_ts :: json_ts
  h_read_json :: read_json
  h_enc :: encoder
  save :: "string \<Rightarrow> stream \<Rightarrow> int \<Rightarrow> 's \<Rightarrow> storage_error option \<times> 's"
  AVScanner :: "scanner option"
  ExerciseWired :: bool
  ScoresWired :: bool
  LogWired :: bool
  ArchiveOptions :: options
  MaxUploadSize :: int
  AVScanBudget :: int

record weather =
  t_auth :: gotime
  t_begin :: gotime
  t_phase :: "phase \<Rightarrow> gotime"
  t_recorded :: gotime
  id_rand :: "bytes option"
  ctx_validate :: ctx
  ctx_scan :: ctx
  ctx_windows :: scan_ctx
  scan_seek_fails :: bool
  store_seek_fails :: bool
  check_seek_fails :: bool
  scan_adds :: "int list"
  store_adds :: "int list"
  cfg_unreadable :: bool
  scores_unreadable :: bool
  scores_disk :: "stage \<Rightarrow> bool"
  log_faults :: append_faults

text \<open>
  A request: the size of its body as \<open>http.MaxBytesReader\<close> counts it, that is, the bytes the multipart reader takes from it, and the form it holds (\<open>None\<close>: malformed) with the uploaded file's name and
  content (\<open>None\<close>: no such field).
\<close>

record upload_request =
  up_method :: string
  up_auth :: string
  up_size :: int
  up_form :: "(string \<times> bytes) option option"

record 's portal =
  archives :: 's
  exercise_file :: config_file
  scores_of :: scores_file
  log_of :: log_file
  tracker_of :: "tracker option"

record submitResponse =
  sr_ok :: bool
  sr_moniker :: string
  sr_submitted_at :: string

definition defaultMaxUploadSize :: int where "defaultMaxUploadSize = 4294967296"

definition refused :: submitResponse where
  "refused = \<lparr>sr_ok = False, sr_moniker = [], sr_submitted_at = []\<rparr>"

section \<open>The checks of the upload\<close>

record accepted_upload =
  au_moniker :: string
  au_stamp :: stamp
  au_meta :: metadata
  au_sentry :: bool
  au_scan :: "coverage option"

text \<open>The antivirus step: the status to refuse with, or the coverage to record.\<close>

definition antivirus_step :: "'s handler \<Rightarrow> weather \<Rightarrow> bytes \<Rightarrow> bytes \<Rightarrow> nat + coverage option" where
  "antivirus_step h w data md =
     (case AVScanner h of
        None \<Rightarrow> Inr None
      | Some scan \<Rightarrow>
          (case scanArchive (h_untar h) (h_gunzip h) scan (ctx_windows w) (ctx_scan w) (scan_seek_fails w)
                  data (ArchiveOptions h) md (AVScanBudget h) of
             Inl (UnreadableLog _) \<Rightarrow> Inl 400
           | Inl _ \<Rightarrow> Inl 503
           | Inr (v, c) \<Rightarrow> if Infected v then Inl 422 else Inr (Some c)))"

text \<open>
  From the file name to the antivirus: the status to refuse with or the accepted upload, and the phases
  announced on the way.
\<close>

definition check_upload ::
  "'s handler \<Rightarrow> weather \<Rightarrow> address \<Rightarrow> string \<Rightarrow> bytes \<Rightarrow> phase list \<times> (nat + accepted_upload)" where
  "check_upload h w addr fname data =
     (case ValidateFilename fname of
        Inl _ \<Rightarrow> ([], Inl 400)
      | Inr (moniker, stamp) \<Rightarrow>
          (case ValidateArchive (h_untar h) (ctx_validate w) data (ArchiveOptions h) of
             Inl _ \<Rightarrow> ([PhaseValidating], Inl 400)
           | Inr ar \<Rightarrow>
               (case ValidateMetadata (h_read_json h) (Metadata ar) of
                  Inl _ \<Rightarrow> ([PhaseValidating], Inl 400)
                | Inr meta \<Rightarrow>
                    if ValidatorAddress meta \<noteq> addr_string h addr then ([PhaseValidating], Inl 403)
                    else if Moniker meta \<noteq> moniker then ([PhaseValidating], Inl 400)
                    else
                      (PhaseValidating # (if AVScanner h = None then [] else [PhaseScanning]),
                       case antivirus_step h w data (Metadata ar) of
                         Inl status \<Rightarrow> Inl status
                       | Inr scan \<Rightarrow>
                           Inr \<lparr>au_moniker = moniker, au_stamp = stamp, au_meta = meta,
                                au_sentry = SentryLogPresent ar, au_scan = scan\<rparr>))))"

section \<open>Scoring and logging\<close>

definition automatic_result ::
  "string \<Rightarrow> bool \<Rightarrow> bool \<Rightarrow> logWindows \<Rightarrow> bool \<Rightarrow> gotime \<Rightarrow> config \<Rightarrow> result" where
  "automatic_result i genesisMatch versionSupported ws sentryPresent recordedAt cfg =
     (blank_result i)
       \<lparr>Scored := True, GenesisMatch := genesisMatch, VersionSupported := versionSupported,
        LogWindow := validator_window ws, HasSentryLog := sentryPresent, SentryLogWindow := sentry_window ws,
        UploadTimeScore := TieredTimeScore recordedAt cfg, MetadataScore := 25,
        LogScore := LogQualityScore (validator_window ws) (sentry_window ws)\<rparr>"

definition score_record :: "'s handler \<Rightarrow> weather \<Rightarrow> string \<Rightarrow> accepted_upload \<Rightarrow> bytes \<Rightarrow> config \<Rightarrow> result" where
  "score_record h w i au data cfg =
     (if Configured cfg then
        (case autoChecks (h_untar h) (h_gunzip h) (h_json_ts h) (\<lambda>_. False) (check_seek_fails w) data
                (ArchiveOptions h) (au_meta au) cfg of
           None \<Rightarrow> blank_result i
         | Some (gm, vs, ws) \<Rightarrow> automatic_result i gm vs ws (au_sentry au) (t_recorded w) cfg)
      else blank_result i)"

text \<open>Failures here are only logged: the archive is already stored.\<close>

definition score_step ::
  "'s handler \<Rightarrow> weather \<Rightarrow> string \<Rightarrow> accepted_upload \<Rightarrow> bytes \<Rightarrow> 's portal \<Rightarrow> 's portal" where
  "score_step h w i au data p =
     (if \<not> ExerciseWired h then p
      else case FileStore_Get (cfg_unreadable w) (exercise_file p) of
        Inl _ \<Rightarrow> p
      | Inr cfg \<Rightarrow>
          if \<not> ScoresWired h then p
          else p\<lparr>scores_of := snd (Store_Set (scores_unreadable w) (scores_disk w)
                                     (score_record h w i au data cfg) (scores_of p))\<rparr>)"

definition submission_entry :: "'s handler \<Rightarrow> weather \<Rightarrow> address \<Rightarrow> string \<Rightarrow> string \<Rightarrow> accepted_upload \<Rightarrow> entry" where
  "submission_entry h w addr i fname au =
     \<lparr>ID = i, EntryMoniker = au_moniker au, OperatorAddress = addr_string h addr, Filename = fname,
      SubmittedAt = t_recorded w, EntrySentryEnabled = SentryEnabled (au_meta au), Scan = au_scan au\<rparr>"

definition log_step ::
  "'s handler \<Rightarrow> weather \<Rightarrow> address \<Rightarrow> string \<Rightarrow> string \<Rightarrow> accepted_upload \<Rightarrow> 's portal \<Rightarrow> 's portal" where
  "log_step h w addr i fname au p =
     (if \<not> LogWired h then p
      else p\<lparr>log_of := snd (FileLog_Record (h_enc h) (log_faults w) (submission_entry h w addr i fname au) (log_of p))\<rparr>)"

section \<open>The handler\<close>

definition publish_phases :: "weather \<Rightarrow> int \<Rightarrow> handle option \<Rightarrow> phase list \<Rightarrow> tracker option \<Rightarrow> tracker option" where
  "publish_phases w sz hnd ps trk =
     fold (\<lambda>ph t. Handle_Phase ph (if ph = PhaseStoring then sz else 0) (t_phase w ph) hnd t) ps trk"

definition publish_adds :: "gotime \<Rightarrow> int list \<Rightarrow> handle option \<Rightarrow> tracker option \<Rightarrow> tracker option" where
  "publish_adds now adds hnd trk = fold (\<lambda>n t. Handle_Add n now hnd t) adds trk"

text \<open>
  From the accepted upload to the response: the status with the response, the phases announced, and the
  state. \<open>i\<close> is the identifier, drawn before anything is stored.
\<close>

definition keep_upload ::
  "'s handler \<Rightarrow> weather \<Rightarrow> address \<Rightarrow> string \<Rightarrow> bytes \<Rightarrow> accepted_upload \<Rightarrow> 's portal
   \<Rightarrow> (nat \<times> submitResponse) \<times> phase list \<times> 's portal" where
  "keep_upload h w addr fname data au p =
     (case NewSubmissionID (id_rand w) of
        None \<Rightarrow> ((500, refused), [], p)
      | Some i \<Rightarrow>
          if store_seek_fails w then ((500, refused), [], p)
          else
            (case save h fname (whole data) (int (length data)) (archives p) of
               (Some _, a) \<Rightarrow> ((500, refused), [PhaseStoring], p\<lparr>archives := a\<rparr>)
             | (None, a) \<Rightarrow>
                 ((200, \<lparr>sr_ok = True, sr_moniker = au_moniker au, sr_submitted_at = format_stamp (au_stamp au)\<rparr>),
                  PhaseStoring # (if ExerciseWired h then [PhaseScoring] else []),
                  log_step h w addr i fname au (score_step h w i au data (p\<lparr>archives := a\<rparr>)))))"

definition submit_file ::
  "'s handler \<Rightarrow> weather \<Rightarrow> address \<Rightarrow> string \<Rightarrow> bytes \<Rightarrow> 's portal
   \<Rightarrow> (nat \<times> submitResponse) \<times> phase list \<times> 's portal" where
  "submit_file h w addr fname data p =
     (case check_upload h w addr fname data of
        (ps, Inl status) \<Rightarrow> ((status, refused), ps, p)
      | (ps, Inr au) \<Rightarrow> (case keep_upload h w addr fname data au p of (r, qs, p') \<Rightarrow> (r, ps @ qs, p')))"

text \<open>The tracker over one tracked submission: begin, the phases with the bytes counted in them, done.\<close>

definition track ::
  "weather \<Rightarrow> string \<Rightarrow> int \<Rightarrow> phase list \<Rightarrow> tracker option \<Rightarrow> tracker option" where
  "track w op sz ps trk =
     (case Tracker_Begin (t_begin w) op trk of
        (hnd, trk1) \<Rightarrow>
          Handle_Done hnd
            (fold (\<lambda>ph t. let t' = publish_phases w sz hnd [ph] t in
                     case ph of
                       PhaseScanning \<Rightarrow> publish_adds (t_phase w ph) (scan_adds w) hnd t'
                     | PhaseStoring \<Rightarrow> publish_adds (t_phase w ph) (store_adds w) hnd t'
                     | _ \<Rightarrow> t') ps trk1))"

definition effective_max_upload :: "'s handler \<Rightarrow> int" where
  "effective_max_upload h = (if MaxUploadSize h \<le> 0 then defaultMaxUploadSize else MaxUploadSize h)"

definition SubmitHandler_ServeHTTP ::
  "'s handler \<Rightarrow> weather \<Rightarrow> upload_request \<Rightarrow> 's portal \<Rightarrow> (nat \<times> submitResponse) \<times> 's portal" where
  "SubmitHandler_ServeHTTP h w r p =
     (if up_method r \<noteq> ''POST'' then ((405, refused), p)
      else case RequireSession (h_mac h) (t_auth w) (up_auth r) of
        Inl _ \<Rightarrow> ((401, refused), p)
      | Inr addr \<Rightarrow>
          if effective_max_upload h < up_size r then ((400, refused), p)
          else case up_form r of
            None \<Rightarrow> ((400, refused), p)
          | Some None \<Rightarrow>
              ((400, refused), p\<lparr>tracker_of := track w (addr_string h addr) 0 [] (tracker_of p)\<rparr>)
          | Some (Some (fname, data)) \<Rightarrow>
              (case submit_file h w addr fname data p of
                 (res, ps, p') \<Rightarrow>
                   (res, p'\<lparr>tracker_of :=
                        track w (addr_string h addr) (int (length data)) ps (tracker_of p)\<rparr>)))"

section \<open>Nothing is stored before every check has passed\<close>

text \<open>The checks an upload has to pass.\<close>

definition upload_ok ::
  "'s handler \<Rightarrow> weather \<Rightarrow> address \<Rightarrow> string \<Rightarrow> bytes \<Rightarrow> accepted_upload \<Rightarrow> bool" where
  "upload_ok h w addr fname data au \<longleftrightarrow>
     (\<exists>ar. ValidateFilename fname = Inr (au_moniker au, au_stamp au)
        \<and> ValidateArchive (h_untar h) (ctx_validate w) data (ArchiveOptions h) = Inr ar
        \<and> ValidateMetadata (h_read_json h) (Metadata ar) = Inr (au_meta au)
        \<and> ValidatorAddress (au_meta au) = addr_string h addr \<and> Moniker (au_meta au) = au_moniker au
        \<and> au_sentry au = SentryLogPresent ar
        \<and> (case AVScanner h of
             None \<Rightarrow> au_scan au = None
           | Some scan \<Rightarrow> \<exists>v c. scanArchive (h_untar h) (h_gunzip h) scan (ctx_windows w) (ctx_scan w)
                 (scan_seek_fails w) data (ArchiveOptions h) (Metadata ar) (AVScanBudget h) = Inr (v, c)
               \<and> \<not> Infected v \<and> au_scan au = Some c))"

lemma antivirus_step_Inr:
  "antivirus_step h w data md = Inr x \<longleftrightarrow>
     (case AVScanner h of
        None \<Rightarrow> x = None
      | Some scan \<Rightarrow> \<exists>v c. scanArchive (h_untar h) (h_gunzip h) scan (ctx_windows w) (ctx_scan w)
            (scan_seek_fails w) data (ArchiveOptions h) md (AVScanBudget h) = Inr (v, c)
          \<and> \<not> Infected v \<and> x = Some c)"
  by (auto simp: antivirus_step_def split: option.splits sum.splits archive_scan_error.splits if_splits)

lemma check_upload_Inr: "snd (check_upload h w addr fname data) = Inr au \<Longrightarrow> upload_ok h w addr fname data au"
  unfolding check_upload_def upload_ok_def
  by (auto simp: antivirus_step_Inr split: sum.splits prod.splits if_splits option.splits)

lemma antivirus_step_Inl: "antivirus_step h w data md = Inl s \<Longrightarrow> s \<in> {400, 422, 503}"
  by (auto simp: antivirus_step_def split: option.splits sum.splits archive_scan_error.splits if_splits)

lemma check_upload_Inl: "snd (check_upload h w addr fname data) = Inl s \<Longrightarrow> s \<in> {400, 403, 422, 503}"
  unfolding check_upload_def
  by (auto split: sum.splits prod.splits if_splits dest: antivirus_step_Inl)

lemma step_frames [simp]:
  "archives (score_step h w i au data p) = archives p" "archives (log_step h w addr i fname au p) = archives p"
  "exercise_file (score_step h w i au data p) = exercise_file p"
  "exercise_file (log_step h w addr i fname au p) = exercise_file p"
  "log_of (score_step h w i au data p) = log_of p" "scores_of (log_step h w addr i fname au p) = scores_of p"
  by (auto simp: score_step_def log_step_def split: sum.splits)

lemma keep_upload_cases:
  assumes "keep_upload h w addr fname data au p = ((status, resp), ps, p')"
  obtains (early) "status = 500" "ps = []" "p' = p"
  | (unsaved) e a where "status = 500" "ps = [PhaseStoring]" "p' = p\<lparr>archives := a\<rparr>"
      "save h fname (whole data) (int (length data)) (archives p) = (Some e, a)"
  | (kept) i a where "status = 200" "ps = PhaseStoring # (if ExerciseWired h then [PhaseScoring] else [])"
      "NewSubmissionID (id_rand w) = Some i"
      "save h fname (whole data) (int (length data)) (archives p) = (None, a)"
      "resp = \<lparr>sr_ok = True, sr_moniker = au_moniker au, sr_submitted_at = format_stamp (au_stamp au)\<rparr>"
      "p' = log_step h w addr i fname au (score_step h w i au data (p\<lparr>archives := a\<rparr>))"
proof (cases "NewSubmissionID (id_rand w)")
  case None
  with assms show thesis by (intro early) (simp_all add: keep_upload_def)
next
  case (Some i)
  obtain x a where s: "save h fname (whole data) (int (length data)) (archives p) = (x, a)" by fastforce
  show thesis
  proof (cases "store_seek_fails w")
    case True
    with Some assms show thesis by (intro early) (simp_all add: keep_upload_def)
  next
    case False
    show thesis
    proof (cases x)
      case None
      with False Some assms s show thesis by (intro kept [of i a]) (simp_all add: keep_upload_def)
    next
      case e: (Some e)
      with False Some assms s show thesis by (intro unsaved [of a e]) (simp_all add: keep_upload_def)
    qed
  qed
qed

text \<open>
  What a request that got past the session and the form did: it was refused by a check, or kept.
\<close>

lemma ServeHTTP_cases:
  assumes "SubmitHandler_ServeHTTP h w r p = ((status, resp), p')"
  obtains (refused) "status \<in> {400, 401, 403, 405, 422, 503}" "archives p' = archives p" "scores_of p' = scores_of p"
      "log_of p' = log_of p" "exercise_file p' = exercise_file p"
  | (passed) addr fname data au ps q where "up_method r = ''POST''" "up_size r \<le> effective_max_upload h"
      "RequireSession (h_mac h) (t_auth w) (up_auth r) = Inr addr" "up_form r = Some (Some (fname, data))"
      "upload_ok h w addr fname data au" "keep_upload h w addr fname data au p = ((status, resp), ps, q)"
      "archives p' = archives q" "scores_of p' = scores_of q" "log_of p' = log_of q" "exercise_file p' = exercise_file q"
proof -
  show thesis
  proof (cases "\<exists>addr fname data. up_method r = ''POST'' \<and> up_size r \<le> effective_max_upload h
      \<and> RequireSession (h_mac h) (t_auth w) (up_auth r) = Inr addr \<and> up_form r = Some (Some (fname, data))")
    case False
    with assms have "status \<in> {400, 401, 405} \<and> archives p' = archives p \<and> scores_of p' = scores_of p
        \<and> log_of p' = log_of p \<and> exercise_file p' = exercise_file p"
      by (auto simp: SubmitHandler_ServeHTTP_def split: if_splits sum.splits option.splits)
    then show thesis using refused by blast
  next
    case True
    then obtain addr fname data where t: "up_method r = ''POST''" "up_size r \<le> effective_max_upload h"
      "RequireSession (h_mac h) (t_auth w) (up_auth r) = Inr addr" "up_form r = Some (Some (fname, data))" by blast
    obtain ps c where c: "check_upload h w addr fname data = (ps, c)" by fastforce
    show thesis
    proof (cases c)
      case (Inl s)
      then have "s \<in> {400, 403, 422, 503}" using check_upload_Inl [of h w addr fname data s] c by simp
      with Inl c t assms show thesis
        by (intro refused) (auto simp: SubmitHandler_ServeHTTP_def submit_file_def)
    next
      case (Inr au)
      then have "upload_ok h w addr fname data au" using check_upload_Inr [of h w addr fname data au] c by simp
      moreover obtain res qs q where k: "keep_upload h w addr fname data au p = (res, qs, q)"
        by (cases "keep_upload h w addr fname data au p")
      ultimately show thesis
        using Inr c t assms by (intro passed [of addr fname data au qs q]) (auto simp: SubmitHandler_ServeHTTP_def submit_file_def)
    qed
  qed
qed

text \<open>C4: the store is touched, and a submission answered with success, only for an upload that passed every check: a
  session of the operator named in its metadata, a body within the limit, a canonical file name whose moniker
  is the one declared, a valid archive and metadata, and, when a scanner is wired, a scan of the extracted content
  that found nothing. Without a scanner, the default of the server's flags, nothing is scanned, and no scan is claimed: the upload
  carries a scan's coverage exactly when there is a scanner. What is then stored is the uploaded file, unchanged, under its own
  name.\<close>

theorem SubmitHandler_gate:
  assumes "SubmitHandler_ServeHTTP h w r p = ((status, resp), p')"
    and "status = 200 \<or> archives p' \<noteq> archives p"
  shows "\<exists>addr fname data au. RequireSession (h_mac h) (t_auth w) (up_auth r) = Inr addr
     \<and> up_method r = ''POST'' \<and> up_size r \<le> effective_max_upload h \<and> up_form r = Some (Some (fname, data))
     \<and> upload_ok h w addr fname data au \<and> (au_scan au = None \<longleftrightarrow> AVScanner h = None)
     \<and> archives p' = snd (save h fname (whole data) (int (length data)) (archives p))
     \<and> (status = 200 \<longleftrightarrow> fst (save h fname (whole data) (int (length data)) (archives p)) = None)"
  using assms(1)
proof (cases rule: ServeHTTP_cases)
  case refused
  with assms(2) show ?thesis by auto
next
  case (passed addr fname data au ps q)
  have scan: "au_scan au = None \<longleftrightarrow> AVScanner h = None" using passed(5) by (auto simp: upload_ok_def split: option.splits)
  from passed(6) show ?thesis
  proof (cases rule: keep_upload_cases)
    case early
    with assms(2) passed show ?thesis by simp
  next
    case (unsaved e a)
    with passed scan show ?thesis by auto
  next
    case (kept i a)
    with passed scan show ?thesis by auto
  qed
qed

text \<open>C22: a submission that is refused leaves the archives, the scores and the log as they were; one that fails in the
  store leaves the scores and the log alone, so nothing is recorded that is not stored.\<close>

theorem SubmitHandler_refusal:
  assumes "SubmitHandler_ServeHTTP h w r p = ((status, resp), p')" and "status \<noteq> 200"
  shows "scores_of p' = scores_of p \<and> log_of p' = log_of p \<and> exercise_file p' = exercise_file p
     \<and> (status \<noteq> 500 \<longrightarrow> archives p' = archives p)"
  using assms(1)
proof (cases rule: ServeHTTP_cases)
  case refused
  then show ?thesis by auto
next
  case (passed addr fname data au ps q)
  from passed(6) show ?thesis
    by (cases rule: keep_upload_cases) (use passed assms(2) in auto)
qed

section \<open>What an accepted submission records\<close>

lemma automatic_result_ok: "result_ok (automatic_result i gm vs ws sp t cfg)"
  using TieredTimeScore_bounds [of t cfg] LogQualityScore_bounds [of "validator_window ws" "sentry_window ws"]
  by (simp add: automatic_result_def result_ok_def blank_result_def)

lemma score_record_ok: "result_ok (score_record h w i au data cfg)" "SubmissionID (score_record h w i au data cfg) = i"
proof -
  show "result_ok (score_record h w i au data cfg)"
    by (auto simp: score_record_def automatic_result_ok split: option.split)
  show "SubmissionID (score_record h w i au data cfg) = i"
    by (auto simp: score_record_def automatic_result_def blank_result_def split: option.split)
qed

lemma SubmitHandler_scores_ok:
  assumes "SubmitHandler_ServeHTTP h w r p = (out, p')" "scores_file_ok (scores_of p)"
  shows "scores_file_ok (scores_of p')"
proof -
  obtain status resp where out: "out = (status, resp)" by (cases out)
  have step: "scores_file_ok (scores_of (score_step h w i au data q))" if "scores_file_ok (scores_of q)" for i au data q
    using that by (auto simp: score_step_def Store_Set_ok score_record_ok(1) split: sum.splits)
  from assms(1) [unfolded out] show ?thesis
  proof (cases rule: ServeHTTP_cases)
    case refused
    with assms(2) show ?thesis by simp
  next
    case (passed addr fname data au ps q)
    from passed(6) show ?thesis
      by (cases rule: keep_upload_cases) (use passed assms(2) step in auto)
  qed
qed

lemma SubmitHandler_exercise:
  assumes "SubmitHandler_ServeHTTP h w r p = (out, p')"
  shows "exercise_file p' = exercise_file p"
proof -
  obtain status resp where out: "out = (status, resp)" by (cases out)
  from assms [unfolded out] show ?thesis
  proof (cases rule: ServeHTTP_cases)
    case (passed addr fname data au ps q)
    from passed(6) show ?thesis by (cases rule: keep_upload_cases) (use passed in auto)
  qed
qed

lemma SubmitHandler_logs:
  assumes "SubmitHandler_ServeHTTP h w r p = ((200, resp), p')" "LogWired h"
  obtains addr fname data e where "RequireSession (h_mac h) (t_auth w) (up_auth r) = Inr addr"
    "up_form r = Some (Some (fname, data))" "Filename e = fname" "OperatorAddress e = addr_string h addr"
    "SubmittedAt e = t_recorded w" "log_of p' = snd (FileLog_Record (h_enc h) (log_faults w) e (log_of p))"
  using assms(1)
proof (cases rule: ServeHTTP_cases)
  case (passed addr fname data au ps q)
  from passed(6) show thesis
  proof (cases rule: keep_upload_cases)
    case (kept i a)
    show thesis
      by (rule that [of addr fname data "submission_entry h w addr i fname au"])
         (use kept passed assms(2) in \<open>simp_all add: submission_entry_def log_step_def\<close>)
  qed simp_all
qed simp

text \<open>C16: one accepted submission is one event: its log entry and its score carry the same identifier and the same
  server time, so the upload score recorded is the one the recorded time justifies; the entry claims a scan
  exactly when a scanner was wired; and the score is that of the archive's own logs. This is for a server with exercise, scores
  and log wired, an exercise that is configured and can be read, and an archive that can be read once more; otherwise the score step is
  skipped or records an unscored submission.\<close>

theorem SubmitHandler_records:
  assumes "SubmitHandler_ServeHTTP h w r p = ((200, resp), p')"
    and "ExerciseWired h" "ScoresWired h" "LogWired h" "sane (ArchiveOptions h)" "\<not> check_seek_fails w"
    and "FileStore_Get (cfg_unreadable w) (exercise_file p) = Inr cfg" "Configured cfg"
  shows "\<exists>e gm vs ts data. up_form r = Some (Some (Filename e, data)) \<and> h_untar h data = Some ts
     \<and> log_of p' = snd (FileLog_Record (h_enc h) (log_faults w) e (log_of p))
     \<and> scores_of p' = snd (Store_Set (scores_unreadable w) (scores_disk w)
          (automatic_result (ID e) gm vs (archive_windows (h_gunzip h) (h_json_ts h) cfg (members ts))
             (SentryLogFileName \<in> hdr_name ` set (members ts)) (SubmittedAt e) cfg) (scores_of p))
     \<and> (Scan e = None \<longleftrightarrow> AVScanner h = None)"
  using assms(1)
proof (cases rule: ServeHTTP_cases)
  case (passed addr fname data au ps q)
  from passed(6) show ?thesis
  proof (cases rule: keep_upload_cases)
    case (kept i a)
    obtain ar where ar: "ValidateArchive (h_untar h) (ctx_validate w) data (ArchiveOptions h) = Inr ar"
      and sentry: "au_sentry au = SentryLogPresent ar"
      and av: "au_scan au = None \<longleftrightarrow> AVScanner h = None"
      using passed(5) by (auto simp: upload_ok_def split: option.splits)
    obtain ts where ts: "h_untar h data = Some ts" and sp: "archive_spec (withDefaults (ArchiveOptions h)) ts ar"
      using ValidateArchive_sound [OF assms(5) ar] by blast
    let ?e = "submission_entry h w addr i fname au" and ?m = "MetadataChecks (au_meta au) cfg"
    have "score_record h w i au data cfg = automatic_result i (fst ?m) (snd ?m)
        (archive_windows (h_gunzip h) (h_json_ts h) cfg (members ts)) (au_sentry au) (t_recorded w) cfg"
      using assms(6,8) autoChecks_accepted [OF assms(5) ar ts, of "\<lambda>_. False" "h_gunzip h" "h_json_ts h" "au_meta au" cfg]
      by (simp add: score_record_def)
    moreover have "au_sentry au = (SentryLogFileName \<in> hdr_name ` set (members ts))"
      using sp sentry by (simp add: archive_spec_def)
    ultimately have "scores_of p' = snd (Store_Set (scores_unreadable w) (scores_disk w)
          (automatic_result (ID ?e) (fst ?m) (snd ?m) (archive_windows (h_gunzip h) (h_json_ts h) cfg (members ts))
             (SentryLogFileName \<in> hdr_name ` set (members ts)) (SubmittedAt ?e) cfg) (scores_of p))"
      using kept passed assms(2,3,7) by (simp add: score_step_def submission_entry_def)
    moreover have "log_of p' = snd (FileLog_Record (h_enc h) (log_faults w) ?e (log_of p))"
      using kept passed assms(4) by (simp add: log_step_def)
    moreover have "Filename ?e = fname" "Scan ?e = au_scan au" by (simp_all add: submission_entry_def)
    ultimately show ?thesis using passed(4) ts av by metis
  qed simp_all
qed simp

text \<open>A time a day or more past the year 9999 is refused by the encoder in every zone.\<close>

lemma far_not_marshalable: "date_instant 10000 1 1 0 0 0 0 + 24 * hour \<le> instant t \<Longrightarrow> \<not> marshalable t"
  by (auto simp: marshalable_def Let_def hour_def minute_def second_def abs_less_iff)

text \<open>C36: one log line with a timestamp a day or more past the year 9999 is enough to leave an accepted submission without any
  score: it is answered with success and stored, but its record cannot be encoded, and the score file stays as it was.\<close>

theorem SubmitHandler_far_timestamp:
  assumes "SubmitHandler_ServeHTTP h w r p = ((200, resp), p')" "up_form r = Some (Some (fname, data))"
    and "sane (ArchiveOptions h)" "\<not> check_seek_fails w"
    and "FileStore_Get (cfg_unreadable w) (exercise_file p) = Inr cfg" "Configured cfg"
    and "h_untar h data = Some ts" "entry_named n (members ts) = Some e" "n = ValidatorLogFileName \<or> n = SentryLogFileName"
    and "h_gunzip h (body e) = Some gz" "t \<in> set (seen_times (h_json_ts h) maxLogLineBytes gz maxLogWindowBytes)"
    and "date_instant 10000 1 1 0 0 0 0 + 24 * hour \<le> instant t"
  shows "scores_of p' = scores_of p"
  using assms(1)
proof (cases rule: ServeHTTP_cases)
  case (passed addr fname' data' au ps q)
  from passed(6) show ?thesis
  proof (cases rule: keep_upload_cases)
    case (kept i a)
    have data: "data' = data" using passed(4) assms(2) by simp
    obtain ar where ar: "ValidateArchive (h_untar h) (ctx_validate w) data (ArchiveOptions h) = Inr ar"
      using passed(5) by (auto simp: upload_ok_def data)
    let ?ws = "archive_windows (h_gunzip h) (h_json_ts h) cfg (members ts)"
    let ?w = "ScanLogWindow (h_gunzip h) (h_json_ts h) (body e) cfg"
    have "\<not> check_encodable ?w"
      using far_not_marshalable [of "LastSeen ?w"] scanLogWindow_last [where gunzip = "h_gunzip h" and logGz = "body e" and cfg = cfg, OF assms(10,11)] assms(12)
      by (simp add: check_encodable_def ScanLogWindow_def)
    moreover have "?w = validator_window ?ws \<or> ?w = sentry_window ?ws"
      using assms(8,9) by (auto simp: archive_windows_def)
    moreover have "LogWindow (score_record h w i au data cfg) = validator_window ?ws"
      "SentryLogWindow (score_record h w i au data cfg) = sentry_window ?ws"
      using assms(4,6) autoChecks_accepted [OF assms(3) ar assms(7), of "\<lambda>_. False" "h_gunzip h" "h_json_ts h" "au_meta au" cfg]
      by (simp_all add: score_record_def automatic_result_def)
    ultimately have "\<not> result_encodable (score_record h w i au data cfg)" by (auto simp: result_encodable_def)
    then show ?thesis
      using kept passed assms(5) by (simp add: data score_step_def log_step_def Store_Set_unencodable(1))
  qed simp_all
qed simp

section \<open>Progress\<close>

lemma Handle_update_frame:
  "op \<noteq> h_operator h \<Longrightarrow> handle_update f now (Some h) (Some t) = Some t' \<Longrightarrow> inflight t' op = inflight t op"
  by (auto simp: handle_update_def split: option.splits if_splits)

text \<open>A handle's operations keep its own entry, with its token, in place.\<close>

definition owns :: "handle \<Rightarrow> tracker \<Rightarrow> tracker option \<Rightarrow> bool" where
  "owns h t0 trk \<longleftrightarrow> (\<exists>t e. trk = Some t \<and> inflight t (h_operator h) = Some e \<and> gen e = h_gen h
     \<and> (\<forall>op. op \<noteq> h_operator h \<longrightarrow> inflight t op = inflight t0 op))"

lemma owns_update: "owns h t0 trk \<Longrightarrow> owns h t0 (handle_update f now (Some h) trk)"
  by (auto simp: owns_def handle_update_def)

lemma owns_phase: "owns h t0 trk \<Longrightarrow> owns h t0 (publish_phases w sz (Some h) ps trk)"
  unfolding publish_phases_def Handle_Phase_def by (induction ps arbitrary: trk) (simp_all add: owns_update)

lemma owns_adds: "owns h t0 trk \<Longrightarrow> owns h t0 (publish_adds now adds (Some h) trk)"
  unfolding publish_adds_def Handle_Add_def by (induction adds arbitrary: trk) (simp_all add: owns_update)

lemma track_clears:
  assumes "track w op sz ps (Some t) = trk"
  shows "\<exists>t'. trk = Some t' \<and> inflight t' op = None \<and> (\<forall>o'. o' \<noteq> op \<longrightarrow> inflight t' o' = inflight t o')"
proof -
  obtain h t1 where b: "Tracker_Begin (t_begin w) op (Some t) = (Some h, Some t1)" and op: "h_operator h = op"
    by (simp add: Tracker_Begin_def Let_def)
  have "owns h t (Some t1)" using b by (auto simp: owns_def Tracker_Begin_def Let_def)
  moreover define f where "f = (\<lambda>ph trk. let t' = publish_phases w sz (Some h) [ph] trk in
                     case ph of
                       PhaseScanning \<Rightarrow> publish_adds (t_phase w ph) (scan_adds w) (Some h) t'
                     | PhaseStoring \<Rightarrow> publish_adds (t_phase w ph) (store_adds w) (Some h) t'
                     | _ \<Rightarrow> t')"
  have "owns h t (f ph trk)" if "owns h t trk" for ph trk
    using that by (auto simp: f_def Let_def owns_phase owns_adds split: phase.split)
  then have "owns h t (fold f ps trk)" if "owns h t trk" for trk
    using that by (induction ps arbitrary: trk) auto
  ultimately have o: "owns h t (fold f ps (Some t1))" by blast
  have "trk = Handle_Done (Some h) (fold f ps (Some t1))" using assms b by (simp add: track_def f_def)
  with o show ?thesis by (auto simp: owns_def Handle_Done_def op)
qed

lemma SubmitHandler_tracker:
  assumes "SubmitHandler_ServeHTTP h w r p = (out, p')" and "tracker_of p = Some t"
  shows "tracker_of p' = Some t \<or>
     (\<exists>addr t'. RequireSession (h_mac h) (t_auth w) (up_auth r) = Inr addr \<and> tracker_of p' = Some t'
        \<and> inflight t' (addr_string h addr) = None
        \<and> (\<forall>op. op \<noteq> addr_string h addr \<longrightarrow> inflight t' op = inflight t op))"
proof -
  have "tracker_of p' = tracker_of p \<or> (\<exists>addr trk sz ps. RequireSession (h_mac h) (t_auth w) (up_auth r) = Inr addr
      \<and> tracker_of p' = trk \<and> track w (addr_string h addr) sz ps (tracker_of p) = trk)"
    using assms(1) unfolding SubmitHandler_ServeHTTP_def
    by (fastforce split: if_splits sum.splits option.splits prod.splits)
  with track_clears [of w _ _ _ t] assms(2) show ?thesis by metis
qed

text \<open>When the handler returns, on whatever path, the operator's entry is gone from the tracker and every other
  operator's is untouched; a request without a valid session never reaches the tracker.\<close>

theorem SubmitHandler_progress:
  assumes "SubmitHandler_ServeHTTP h w r p = (out, p')" and "tracker_of p = Some t"
  shows "tracker_of p' = Some t \<or>
     (\<exists>addr t'. RequireSession (h_mac h) (t_auth w) (up_auth r) = Inr addr \<and> tracker_of p' = Some t'
        \<and> inflight t' (addr_string h addr) = None
        \<and> (\<forall>op. op \<noteq> addr_string h addr \<longrightarrow> inflight t' op = inflight t op))"
  using assms by (rule SubmitHandler_tracker)

text \<open>The phases a submission announces are strictly increasing, so the page never sees it go backwards: validating,
  then scanning, storing and scoring, each at most once.\<close>

theorem submit_phases_increase:
  "sorted_wrt (<) (fst (snd (submit_file h w addr fname data p)))"
proof -
  obtain ps c where c: "check_upload h w addr fname data = (ps, c)" by fastforce
  have ps: "ps \<in> {[], [PhaseValidating], [PhaseValidating, PhaseScanning]}"
    using c by (auto simp: check_upload_def split: sum.splits prod.splits if_splits)
  show ?thesis
  proof (cases c)
    case (Inl s)
    with c ps show ?thesis by (auto simp: submit_file_def less_phase_def)
  next
    case (Inr au)
    obtain res qs q where k: "keep_upload h w addr fname data au p = (res, qs, q)"
      by (cases "keep_upload h w addr fname data au p")
    then have "qs \<in> {[], [PhaseStoring], [PhaseStoring, PhaseScoring]}"
      by (auto simp: keep_upload_def split: option.splits prod.splits if_splits)
    with Inr c ps k show ?thesis by (auto simp: submit_file_def less_phase_def)
  qed
qed

section \<open>Concrete instances\<close>

text \<open>One submission that goes through: an operator with a session uploads a small archive under its canonical name.\<close>

definition sample_metadata :: metadata where
  "sample_metadata =
     \<lparr>ValidatorAddress = ''g1'', Moniker = ''node'', ChainID = ''test'', GnolandVersion = ''v1'', GenesisSHA256 = ''ab'',
      OperatingSystem = ''linux'', Architecture = ''amd64'', SentryEnabled = False, BackupNode = False,
      HostingProvider = ''own'', DeploymentMethod = ''docker'', RecentOperations = []\<rparr>"

definition sample_name :: string where "sample_name = ''node-20240101-0000UTC.tar.gz''"

definition sample_logged :: entry where
  "sample_logged =
     \<lparr>ID = ''00'', EntryMoniker = ''node'', OperatorAddress = ''g1'', Filename = sample_name, SubmittedAt = Time 600 0,
      EntrySentryEnabled = False, Scan = Some \<lparr>Complete = True, Bytes = 2\<rparr>\<rparr>"

definition sample_handler :: "upload_dir handler" where
  "sample_handler =
     \<lparr>h_mac = sample_mac (CHR ''k''), addr_string = (\<lambda>_. ''g1''), h_untar = (\<lambda>_. Some (sample_tar ''ok'')),
      h_gunzip = sample_gunzip, h_json_ts = (\<lambda>_. None), h_read_json = (\<lambda>_. Some (metadata_doc sample_metadata)),
      h_enc = one_enc sample_logged, save = (\<lambda>k src sz. LocalStore_Save no_faults k src),
      AVScanner = Some (\<lambda>_. finds_x), ExerciseWired = True, ScoresWired = True, LogWired = True,
      ArchiveOptions = sample_options, MaxUploadSize = 0, AVScanBudget = 10\<rparr>"

definition sample_weather :: weather where
  "sample_weather =
     \<lparr>t_auth = Time 0 0, t_begin = Time 0 0, t_phase = (\<lambda>_. Time 0 0), t_recorded = Time 600 0,
      id_rand = Some [CHR 0x00], ctx_validate = (\<lambda>_. False), ctx_scan = (\<lambda>_. False), ctx_windows = (\<lambda>_ _. None),
      scan_seek_fails = False, store_seek_fails = False, check_seek_fails = False, scan_adds = [2], store_adds = [3],
      cfg_unreadable = False, scores_unreadable = False, scores_disk = (\<lambda>_. False),
      log_faults = \<lparr>open_err = False, written = None\<rparr>\<rparr>"

definition sample_token :: string where
  "sample_token = SessionSigner_Issue (sample_mac (CHR ''k'')) (5 * minute) (Time 0 0) sample_address"

definition sample_request :: upload_request where
  "sample_request =
     \<lparr>up_method = ''POST'', up_auth = ''Bearer '' @ sample_token, up_size = 100, up_form = Some (Some (sample_name, ''tar''))\<rparr>"

definition sample_portal :: "upload_dir portal" where
  "sample_portal =
     \<lparr>archives = Map.empty, exercise_file = Some (Doc sample_config), scores_of = None, log_of = None,
      tracker_of = Some NewProgressTracker\<rparr>"

lemma sample_fields [simp]:
  "h_mac sample_handler = sample_mac (CHR ''k'')" "addr_string sample_handler = (\<lambda>_. ''g1'')"
  "h_untar sample_handler = (\<lambda>_. Some (sample_tar ''ok''))" "h_gunzip sample_handler = sample_gunzip"
  "h_json_ts sample_handler = (\<lambda>_. None)" "h_read_json sample_handler = (\<lambda>_. Some (metadata_doc sample_metadata))"
  "h_enc sample_handler = one_enc sample_logged" "save sample_handler = (\<lambda>k src sz. LocalStore_Save no_faults k src)"
  "AVScanner sample_handler = Some (\<lambda>_. finds_x)" "ExerciseWired sample_handler" "ScoresWired sample_handler"
  "LogWired sample_handler" "ArchiveOptions sample_handler = sample_options" "MaxUploadSize sample_handler = 0"
  "AVScanBudget sample_handler = 10"
  by (simp_all add: sample_handler_def)

lemma sample_weather_fields [simp]:
  "t_auth sample_weather = Time 0 0" "t_recorded sample_weather = Time 600 0" "id_rand sample_weather = Some [CHR 0x00]"
  "ctx_validate sample_weather = (\<lambda>_. False)" "ctx_scan sample_weather = (\<lambda>_. False)"
  "ctx_windows sample_weather = (\<lambda>_ _. None)" "\<not> scan_seek_fails sample_weather" "\<not> store_seek_fails sample_weather"
  "\<not> check_seek_fails sample_weather" "\<not> cfg_unreadable sample_weather" "\<not> scores_unreadable sample_weather"
  "scores_disk sample_weather = (\<lambda>_. False)" "log_faults sample_weather = \<lparr>open_err = False, written = None\<rparr>"
  by (simp_all add: sample_weather_def)

definition sample_upload :: accepted_upload where
  "sample_upload =
     \<lparr>au_moniker = ''node'', au_stamp = the (parse_stamp ''20240101-0000UTC''), au_meta = sample_metadata, au_sentry = False,
      au_scan = Some \<lparr>Complete = True, Bytes = 2\<rparr>\<rparr>"

lemma sample_session: "RequireSession (sample_mac (CHR ''k'')) (Time 0 0) (''Bearer '' @ sample_token) = Inr sample_address"
proof -
  have t: "in_int64 (unix_time (time_add (Time 0 0) (5 * minute)))"
    "unix_time (Time 0 0) \<le> unix_time (time_add (Time 0 0) (5 * minute))" by code_simp+
  have "SessionSigner_Verify (sample_mac (CHR ''k'')) (Time 0 0) sample_token = Inr sample_address"
    unfolding sample_token_def using t session_accepts [OF length_sample_address length_sample_mac t(1)] by simp
  then show ?thesis
    using has_prefix_append [of "''Bearer ''" sample_token] trim_prefix_append [of "''Bearer ''" sample_token]
    by (simp add: RequireSession_def)
qed

lemma sample_check:
  "check_upload sample_handler sample_weather sample_address sample_name ''tar'' =
     ([PhaseValidating, PhaseScanning], Inr sample_upload)"
proof -
  have n: "ValidateFilename sample_name = Inr (''node'', the (parse_stamp ''20240101-0000UTC''))" by code_simp
  have m: "ValidateMetadata (\<lambda>_. Some (metadata_doc sample_metadata)) b = Inr sample_metadata" for b
    by (simp add: ValidateMetadata_def metadata_doc_decodes missing_fields_Nil allowedArchitectures_def
        allowedDeploymentMethods_def) (simp add: sample_metadata_def)
  have "antivirus_step sample_handler sample_weather ''tar'' ''{}'' = Inr (Some \<lparr>Complete = True, Bytes = 2\<rparr>)"
    using sample_scan_ok
    by (simp add: antivirus_step_def sample_scan_def clean_def)
  moreover have "ValidatorAddress sample_metadata = ''g1''" "Moniker sample_metadata = ''node''"
    by (simp_all add: sample_metadata_def)
  ultimately show ?thesis
    by (simp add: check_upload_def n m sample_accepted sample_result_def sample_upload_def)
qed

lemma sample_upload_ok: "upload_ok sample_handler sample_weather sample_address sample_name ''tar'' sample_upload"
  using check_upload_Inr [of sample_handler sample_weather sample_address sample_name "''tar''"] by (simp add: sample_check)

definition sample_scored :: result where
  "sample_scored = score_record sample_handler sample_weather ''00'' sample_upload ''tar'' sample_config"

definition sample_response :: submitResponse where
  "sample_response = \<lparr>sr_ok = True, sr_moniker = ''node'', sr_submitted_at = format_stamp (au_stamp sample_upload)\<rparr>"

lemma sample_submits:
  obtains p' where "SubmitHandler_ServeHTTP sample_handler sample_weather sample_request sample_portal = ((200, sample_response), p')"
    "archives p' = [[sample_name] \<mapsto> ''tar'']"
    "scores_of p' = snd (Store_Set False (\<lambda>_. False) sample_scored None)"
    "log_of p' = snd (FileLog_Record (one_enc sample_logged) \<lparr>open_err = False, written = None\<rparr> sample_logged None)"
proof -
  have i: "NewSubmissionID (Some [CHR 0x00]) = Some ''00''" by code_simp
  have k: "validKey sample_name \<and> dest_of sample_name = [sample_name]" by code_simp
  have "save sample_handler sample_name (whole ''tar'') 3 Map.empty = (None, [[sample_name] \<mapsto> ''tar''])"
    using k by (simp add: LocalStore_Save_def no_faults_def)
  then have kept: "keep_upload sample_handler sample_weather sample_address sample_name ''tar'' sample_upload sample_portal =
      ((200, sample_response), [PhaseStoring, PhaseScoring],
       log_step sample_handler sample_weather sample_address ''00'' sample_name sample_upload
         (score_step sample_handler sample_weather ''00'' sample_upload ''tar''
            (sample_portal\<lparr>archives := [[sample_name] \<mapsto> ''tar'']\<rparr>)))" (is "_ = (_, _, ?p)")
    using i by (simp add: keep_upload_def sample_portal_def sample_response_def del: sample_fields(8))
       (simp add: sample_upload_def)
  have scores: "scores_of ?p = snd (Store_Set False (\<lambda>_. False) sample_scored None)"
    by (simp add: score_step_def sample_scored_def sample_portal_def FileStore_Get_def load_file_def)
  have "submission_entry sample_handler sample_weather sample_address ''00'' sample_name sample_upload = sample_logged"
    by (simp add: submission_entry_def sample_upload_def sample_logged_def sample_metadata_def)
  then have logged: "log_of ?p = snd (FileLog_Record (one_enc sample_logged) \<lparr>open_err = False, written = None\<rparr> sample_logged None)"
    by (simp add: log_step_def) (simp add: sample_portal_def)
  show thesis
  proof (rule that)
    show "SubmitHandler_ServeHTTP sample_handler sample_weather sample_request sample_portal =
        ((200, sample_response), ?p\<lparr>tracker_of := track sample_weather ''g1'' 3
          [PhaseValidating, PhaseScanning, PhaseStoring, PhaseScoring] (tracker_of sample_portal)\<rparr>)"
      using sample_session
      by (simp add: SubmitHandler_ServeHTTP_def sample_request_def submit_file_def sample_check kept effective_max_upload_def
          defaultMaxUploadSize_def)
  qed (use scores logged in simp_all)
qed

theorem SubmitHandler_gate_witness:
  "\<exists>p'. SubmitHandler_ServeHTTP sample_handler sample_weather sample_request sample_portal = ((200, sample_response), p')
     \<and> archives p' = snd (save sample_handler sample_name (whole ''tar'') 3 (archives sample_portal))
     \<and> fst (save sample_handler sample_name (whole ''tar'') 3 (archives sample_portal)) = None"
proof (rule sample_submits)
  fix p'
  assume s: "SubmitHandler_ServeHTTP sample_handler sample_weather sample_request sample_portal = ((200, sample_response), p')"
  from SubmitHandler_gate [OF s] s show ?thesis by (auto simp: sample_request_def)
qed

theorem SubmitHandler_refusal_witness:
  "\<exists>status resp p'. SubmitHandler_ServeHTTP sample_handler sample_weather (sample_request\<lparr>up_form := Some None\<rparr>) sample_portal
       = ((status, resp), p')
     \<and> status = 400 \<and> scores_of p' = None \<and> log_of p' = None \<and> archives p' = Map.empty"
proof -
  obtain resp p' where s: "SubmitHandler_ServeHTTP sample_handler sample_weather (sample_request\<lparr>up_form := Some None\<rparr>) sample_portal
       = ((400, resp), p')"
    using sample_session
    by (simp add: SubmitHandler_ServeHTTP_def sample_request_def effective_max_upload_def defaultMaxUploadSize_def)
  from SubmitHandler_refusal [OF s] s show ?thesis by (simp add: sample_portal_def)
qed

theorem SubmitHandler_records_witness:
  "\<exists>p' e gm vs. SubmitHandler_ServeHTTP sample_handler sample_weather sample_request sample_portal = ((200, sample_response), p')
     \<and> log_of p' = snd (FileLog_Record (one_enc sample_logged) \<lparr>open_err = False, written = None\<rparr> e None)
     \<and> scores_of p' = snd (Store_Set False (\<lambda>_. False)
          (automatic_result (ID e) gm vs (archive_windows sample_gunzip (\<lambda>_. None) sample_config (members (sample_tar ''ok'')))
             False (SubmittedAt e) sample_config) None)
     \<and> Scan e \<noteq> None"
proof (rule sample_submits)
  fix p'
  assume s: "SubmitHandler_ServeHTTP sample_handler sample_weather sample_request sample_portal = ((200, sample_response), p')"
  have cfg: "FileStore_Get (cfg_unreadable sample_weather) (exercise_file sample_portal) = Inr sample_config" "Configured sample_config"
    using Validate_Configured sample_config_valid by (simp_all add: sample_portal_def FileStore_Get_def load_file_def)
  have "SentryLogFileName \<notin> hdr_name ` set (members (sample_tar ''ok''))"
    by (simp add: sample_tar_def entry_names)
  with SubmitHandler_records [OF s _ _ _ _ _ cfg] s show ?thesis
    by (auto simp: sample_sane sample_portal_def)
qed

text \<open>The same upload on a portal without a scanner, its log one line with a time in the year 33658.\<close>

definition far_handler :: "upload_dir handler" where
  "far_handler = sample_handler\<lparr>h_gunzip := \<lambda>_. Some (whole ''{}''), h_json_ts := \<lambda>_. Some (10 ^ 12, 0), AVScanner := None\<rparr>"

lemma far_submits:
  obtains p' where "SubmitHandler_ServeHTTP far_handler sample_weather sample_request sample_portal = ((200, sample_response), p')"
proof -
  have n: "ValidateFilename sample_name = Inr (''node'', the (parse_stamp ''20240101-0000UTC''))" by code_simp
  have m: "ValidateMetadata (\<lambda>_. Some (metadata_doc sample_metadata)) b = Inr sample_metadata" for b
    by (rule ValidateMetadata_roundtrip) (simp_all add: metadata_ok_def sample_metadata_def)
  have f: "ValidatorAddress sample_metadata = ''g1''" "Moniker sample_metadata = ''node''" by (simp_all add: sample_metadata_def)
  have c: "check_upload far_handler sample_weather sample_address sample_name ''tar'' =
      ([PhaseValidating], Inr (sample_upload\<lparr>au_scan := None\<rparr>))"
    by (simp add: far_handler_def check_upload_def n m f sample_accepted sample_result_def sample_upload_def antivirus_step_def)
  have i: "NewSubmissionID (Some [CHR 0x00]) = Some ''00''" by code_simp
  have k: "validKey sample_name \<and> dest_of sample_name = [sample_name]" by code_simp
  obtain ps q where kept: "keep_upload far_handler sample_weather sample_address sample_name ''tar'' (sample_upload\<lparr>au_scan := None\<rparr>)
      sample_portal = ((200, sample_response), ps, q)"
    using i k by (simp add: keep_upload_def far_handler_def LocalStore_Save_def no_faults_def sample_portal_def sample_response_def
        sample_upload_def whole_def)
  show thesis
    by (rule that) (use sample_session c kept in \<open>simp add: SubmitHandler_ServeHTTP_def sample_request_def submit_file_def
        effective_max_upload_def defaultMaxUploadSize_def far_handler_def\<close>)
qed

theorem SubmitHandler_far_timestamp_witness:
  "\<exists>p'. SubmitHandler_ServeHTTP far_handler sample_weather sample_request sample_portal = ((200, sample_response), p')
     \<and> scores_of p' = None"
proof (rule far_submits)
  fix p'
  assume s: "SubmitHandler_ServeHTTP far_handler sample_weather sample_request sample_portal = ((200, sample_response), p')"
  have cfg: "FileStore_Get (cfg_unreadable sample_weather) (exercise_file sample_portal) = Inr sample_config" "Configured sample_config"
    using Validate_Configured sample_config_valid by (simp_all add: sample_portal_def FileStore_Get_def load_file_def)
  obtain e where e: "entry_named ValidatorLogFileName (members (sample_tar ''ok'')) = Some e"
    by (simp add: sample_tar_def entry_named_def)
  have "parseLeadingTimestamp (\<lambda>_. Some (10 ^ 12, 0)) ''{}'' = Some (time_unix (10 ^ 12) 0)" by code_simp
  then have t: "time_unix (10 ^ 12) 0 \<in> set (seen_times (h_json_ts far_handler) maxLogLineBytes (whole ''{}'') maxLogWindowBytes)"
    by (simp add: far_handler_def seen_times_def limit_reader_simps maxLogWindowBytes_def whole_def scan_lines.simps nl_def
        drop_cr_def cr_def maxLogLineBytes_def line_times_def List.map_filter_simps)
  have far: "date_instant 10000 1 1 0 0 0 0 + 24 * hour \<le> instant (time_unix (10 ^ 12) 0)" by code_simp
  have "scores_of p' = scores_of sample_portal"
    by (rule SubmitHandler_far_timestamp [OF s _ _ _ cfg _ e _ _ t far])
       (simp_all add: far_handler_def sample_request_def sample_sane)
  with s show ?thesis by (simp add: sample_portal_def)
qed

end
