(* ===== verification/Portal_Admin.thy ===== *)
theory Portal_Admin
  imports Portal_Submit "HOL-Library.List_Lexorder" "HOL-Library.Char_ord" "HOL-Library.Multiset"
begin

text \<open>
  The organisers' side of \<^verbatim>\<open>src/portal\<close>: the session gate and the list of submissions (\<^verbatim>\<open>admin.go\<close>), the manual score
  (\<^verbatim>\<open>score.go\<close>), the deletion of a submission (\<^verbatim>\<open>delete.go\<close>) and the summary (\<^verbatim>\<open>summary.go\<close>). The rows of the
  summary are computed here, each note a constructor for a line of the report; its text is in \<^verbatim>\<open>Portal_Summary\<close>.
  \<open>sort.Slice\<close> does not promise an order among equal monikers, so the sorting function is a
  parameter \<open>srt\<close>, of which only \<open>sorts_entries\<close> is used.
\<close>

section \<open>The gate\<close>

text \<open>The answer is the text of an \<open>http.Error\<close> or that of the handler behind the gate.\<close>

definition RequireAdminSession ::
  "mac \<Rightarrow> (address \<Rightarrow> string) \<Rightarrow> (string \<Rightarrow> bool) \<Rightarrow> gotime \<Rightarrow> string
   \<Rightarrow> ('s \<Rightarrow> (nat \<times> 'o) \<times> 's) \<Rightarrow> 's \<Rightarrow> (nat \<times> (string + 'o)) \<times> 's" where
  "RequireAdminSession mac addr_str allowlist now auth_header next s =
     (case RequireSession mac now auth_header of
        Inl _ \<Rightarrow> ((401, Inl ''unauthorized''), s)
      | Inr addr \<Rightarrow>
          if \<not> allowlist (addr_str addr) then ((403, Inl ''forbidden''), s)
          else (case next s of ((status, out), s') \<Rightarrow> ((status, Inr out), s')))"

section \<open>The list of submissions\<close>

record admin_submission =
  row_entry :: entry
  row_score :: "result option"
  row_total :: int
  row_pending :: bool

definition admin_row :: "scores \<Rightarrow> entry \<Rightarrow> admin_submission" where
  "admin_row results e =
     (case map_of results (ID e) of
        None \<Rightarrow> \<lparr>row_entry = e, row_score = None, row_total = 0, row_pending = True\<rparr>
      | Some r \<Rightarrow>
          if Scored r
          then \<lparr>row_entry = e, row_score = Some r, row_total = TotalScore r, row_pending = Pending r\<rparr>
          else \<lparr>row_entry = e, row_score = Some r, row_total = 0, row_pending = True\<rparr>)"

definition AdminSubmissionsHandler ::
  "decoder \<Rightarrow> bool \<Rightarrow> bool \<Rightarrow> string \<Rightarrow> log_file \<Rightarrow> scores_file \<Rightarrow> nat \<times> admin_submission list option" where
  "AdminSubmissionsHandler dec log_bad scores_bad meth lf sf =
     (if meth \<noteq> ''GET'' then (405, None)
      else case FileLog_Entries dec log_bad lf of
        Inl _ \<Rightarrow> (500, None)
      | Inr entries \<Rightarrow>
          (case Store_ByID scores_bad sf of
             Inl _ \<Rightarrow> (500, None)
           | Inr results \<Rightarrow> (200, Some (map (admin_row results) entries))))"

section \<open>The manual score\<close>

record scoreRequest =
  sq_irq :: "int option"

definition score_fields :: "scoreRequest field list" where
  "score_fields = [(''incident_response_quality_score'', set_int_ptr (\<lambda>v r. r\<lparr>sq_irq := v\<rparr>))]"

definition save_manual_score ::
  "bool \<Rightarrow> (stage \<Rightarrow> bool) \<Rightarrow> string \<Rightarrow> int \<Rightarrow> result \<Rightarrow> scores_file \<Rightarrow> (nat \<times> result option) \<times> scores_file" where
  "save_manual_score scores_bad disk i irq res sf =
     (let res' = res\<lparr>SubmissionID := i, IncidentScore := Some irq\<rparr> in
      case Store_Set scores_bad disk res' sf of
        (Some _, sf') \<Rightarrow> ((500, None), sf')
      | (None, sf') \<Rightarrow> ((200, Some res'), sf'))"

definition AdminScoreHandler ::
  "decoder \<Rightarrow> bool \<Rightarrow> bool \<Rightarrow> (stage \<Rightarrow> bool) \<Rightarrow> string \<Rightarrow> json_request \<Rightarrow> log_file \<Rightarrow> scores_file
   \<Rightarrow> (nat \<times> result option) \<times> scores_file" where
  "AdminScoreHandler dec log_bad scores_bad disk i r lf sf =
     (if i = [] then ((400, None), sf)
      else if rq_media r \<noteq> Some ''application/json'' then ((415, None), sf)
      else case rq_json r of
        None \<Rightarrow> ((400, None), sf)
      | Some j \<Rightarrow>
          (case decode_struct True score_fields j \<lparr>sq_irq = None\<rparr> of
             Inl _ \<Rightarrow> ((400, None), sf)
           | Inr req \<Rightarrow>
               (case sq_irq req of
                  None \<Rightarrow> ((400, None), sf)
                | Some irq \<Rightarrow>
                    if irq < 0 \<or> 25 < irq then ((400, None), sf)
                    else case FileLog_Entries dec log_bad lf of
                      Inl _ \<Rightarrow> ((500, None), sf)
                    | Inr entries \<Rightarrow>
                        if \<not> list_ex (\<lambda>e. ID e = i) entries then ((404, None), sf)
                        else case Store_Get scores_bad i sf of
                          Inl _ \<Rightarrow> ((500, None), sf)
                        | Inr None \<Rightarrow> ((409, None), sf)
                        | Inr (Some res) \<Rightarrow>
                            if \<not> Scored res then ((409, None), sf)
                            else save_manual_score scores_bad disk i irq res sf)))"

section \<open>Deleting a submission\<close>

definition AdminDeleteSubmissionHandler ::
  "encoder \<Rightarrow> decoder \<Rightarrow> bool \<Rightarrow> bool \<Rightarrow> (stage \<Rightarrow> bool) \<Rightarrow> (stage \<Rightarrow> bool) \<Rightarrow> (string \<Rightarrow> 's \<Rightarrow> 'x option \<times> 's)
   \<Rightarrow> string \<Rightarrow> 's \<times> scores_file \<times> log_file \<Rightarrow> nat \<times> ('s \<times> scores_file \<times> log_file)" where
  "AdminDeleteSubmissionHandler enc dec log_bad scores_bad scores_disk' log_disk store_delete i st =
     (case st of (a, sf, lf) \<Rightarrow>
        if i = [] then (400, st)
        else case FileLog_Entries dec log_bad lf of
          Inl _ \<Rightarrow> (500, st)
        | Inr entries \<Rightarrow>
            (case find (\<lambda>e. ID e = i) entries of
               None \<Rightarrow> (404, st)
             | Some entry \<Rightarrow>
                 (case store_delete (Filename entry) a of
                    (Some _, a') \<Rightarrow> (502, (a', sf, lf))
                  | (None, a') \<Rightarrow>
                      (case Store_Delete scores_bad scores_disk' i sf of
                         (Some _, sf') \<Rightarrow> (500, (a', sf', lf))
                       | (None, sf') \<Rightarrow>
                           (case FileLog_Delete enc dec log_bad log_disk i lf of
                              ((_, Some _), lf') \<Rightarrow> (500, (a', sf', lf'))
                            | ((_, None), lf') \<Rightarrow> (204, (a', sf', lf')))))))"

section \<open>The summary\<close>

datatype remark =
    GenesisMismatch
  | VersionUnsupported
  | LogEmpty
  | LogWithoutTimestamps
  | LogUnverified
  | LogNotCovering
  | SentryMissing
  | SentryEmpty
  | SentryWithoutTimestamps
  | SentryUnverified
  | SentryNotCovering

datatype summary_line = NotYetScored | ScoredLine int bool "remark list"

definition validator_notes :: "log_window_check \<Rightarrow> remark list" where
  "validator_notes w =
     (if \<not> Detected w \<and> ScannedBytes w = 0 then [LogEmpty]
      else if \<not> Detected w then [LogWithoutTimestamps]
      else if Truncated w then [LogUnverified]
      else if \<not> Covered w then [LogNotCovering]
      else [])"

definition sentry_notes :: "bool \<Rightarrow> bool \<Rightarrow> log_window_check \<Rightarrow> remark list" where
  "sentry_notes present declared w =
     (if \<not> present then (if declared then [SentryMissing] else [])
      else if \<not> Detected w \<and> ScannedBytes w = 0 then [SentryEmpty]
      else if \<not> Detected w then [SentryWithoutTimestamps]
      else if Truncated w then [SentryUnverified]
      else if \<not> Covered w then [SentryNotCovering]
      else [])"

definition summary_of :: "scores \<Rightarrow> entry \<Rightarrow> string \<times> string \<times> summary_line" where
  "summary_of results e =
     (EntryMoniker e, OperatorAddress e,
      case map_of results (ID e) of
        None \<Rightarrow> NotYetScored
      | Some r \<Rightarrow>
          if \<not> Scored r then NotYetScored
          else ScoredLine (TotalScore r) (Pending r)
                 ((if GenesisMatch r then [] else [GenesisMismatch])
                  @ (if VersionSupported r then [] else [VersionUnsupported])
                  @ validator_notes (LogWindow r)
                  @ sentry_notes (HasSentryLog r) (EntrySentryEnabled e) (SentryLogWindow r)))"

record summary =
  participation :: nat
  summary_rows :: "(string \<times> string \<times> summary_line) list"
  observations :: "string option"

definition sorts_entries :: "(entry list \<Rightarrow> entry list) \<Rightarrow> bool" where
  "sorts_entries srt \<longleftrightarrow> (\<forall>es. mset (srt es) = mset es \<and> sorted (map EntryMoniker (srt es)))"

lemma sort_key_sorts_entries: "sorts_entries (sort_key EntryMoniker)"
  by (simp add: sorts_entries_def)

definition AdminSummaryHandler ::
  "(entry list \<Rightarrow> entry list) \<Rightarrow> decoder \<Rightarrow> bool \<Rightarrow> bool \<Rightarrow> bool \<Rightarrow> string \<Rightarrow> log_file \<Rightarrow> config_file \<Rightarrow> scores_file \<Rightarrow> nat \<times> summary option" where
  "AdminSummaryHandler srt dec log_bad cfg_bad scores_bad meth lf cf sf =
     (if meth \<noteq> ''GET'' then (405, None)
      else case FileLog_Entries dec log_bad lf of
        Inl _ \<Rightarrow> (500, None)
      | Inr entries \<Rightarrow>
          (case FileStore_Get cfg_bad cf of
             Inl _ \<Rightarrow> (500, None)
           | Inr cfg \<Rightarrow>
               (case Store_ByID scores_bad sf of
                  Inl _ \<Rightarrow> (500, None)
                | Inr results \<Rightarrow>
                    (200, Some \<lparr>participation = length entries,
                                summary_rows = map (summary_of results) (srt entries),
                                observations = (if Observations cfg \<noteq> [] then Some (Observations cfg) else None)\<rparr>))))"

section \<open>Only administrators get through\<close>

text \<open>A request reaches an organisers' handler only with a valid session of an operator on the allow list; any other
  request is answered 401 or 403 with nothing but the text of the error, and changes nothing.\<close>

theorem RequireAdminSession_gate:
  "RequireAdminSession mac addr_str allowlist now hdr nxt s =
     (if \<exists>addr. RequireSession mac now hdr = Inr addr \<and> allowlist (addr_str addr)
      then ((fst (fst (nxt s)), Inr (snd (fst (nxt s)))), snd (nxt s))
      else (if \<exists>addr. RequireSession mac now hdr = Inr addr then (403, Inl ''forbidden'') else (401, Inl ''unauthorized''), s))"
  by (auto simp: RequireAdminSession_def split: sum.split prod.split)

section \<open>The manual score\<close>

lemma Store_Get_bad: "Store_Get True i f = Inl ReadError"
  by (simp add: Store_Get_def Store_all_def load_file_def)

text \<open>
  The ways the handler ends: it is refused, or the record is rewritten with the score in place.
\<close>

lemma AdminScore_cases:
  assumes "AdminScoreHandler dec lb sb disk i r lf sf = ((status, out), sf')"
  obtains (refused) "status \<noteq> 200" "out = None" "sf' = sf"
  | (set) irq res x where "0 \<le> irq" "irq \<le> 25" "Store_Get sb i sf = Inr (Some res)" "Scored res"
      "\<exists>es. FileLog_Entries dec lb lf = Inr es \<and> (\<exists>e\<in>set es. ID e = i)"
      "Store_Set sb disk (res\<lparr>SubmissionID := i, IncidentScore := Some irq\<rparr>) sf = (x, sf')"
      "status = (if x = None then 200 else 500)"
      "out = (if x = None then Some (res\<lparr>SubmissionID := i, IncidentScore := Some irq\<rparr>) else None)"
proof -
  show thesis
  proof (cases "\<exists>irq res es. 0 \<le> irq \<and> irq \<le> 25 \<and> Store_Get sb i sf = Inr (Some res) \<and> Scored res
      \<and> FileLog_Entries dec lb lf = Inr es \<and> list_ex (\<lambda>e. ID e = i) es
      \<and> AdminScoreHandler dec lb sb disk i r lf sf =
          save_manual_score sb disk i irq res sf")
    case True
    then obtain irq res es where t: "0 \<le> irq" "irq \<le> 25" "Store_Get sb i sf = Inr (Some res)" "Scored res"
      "FileLog_Entries dec lb lf = Inr es" "list_ex (\<lambda>e. ID e = i) es"
      "AdminScoreHandler dec lb sb disk i r lf sf =
          save_manual_score sb disk i irq res sf" by blast
    obtain x f where "Store_Set sb disk (res\<lparr>SubmissionID := i, IncidentScore := Some irq\<rparr>) sf = (x, f)" by fastforce
    with t assms show thesis
      by (intro set [of irq res x]) (auto simp: save_manual_score_def Let_def list_ex_iff split: option.splits)
  next
    case False
    then have "fst (fst (AdminScoreHandler dec lb sb disk i r lf sf)) \<noteq> 200
        \<and> snd (fst (AdminScoreHandler dec lb sb disk i r lf sf)) = None \<and> snd (AdminScoreHandler dec lb sb disk i r lf sf) = sf"
      unfolding AdminScoreHandler_def
      by (auto split: if_splits option.splits sum.splits) (metis not_less)+
    with assms show thesis by (intro refused) auto
  qed
qed

lemma AdminScore_ok:
  assumes "AdminScoreHandler dec lb sb disk i r lf sf = (out, sf')" "scores_file_ok sf"
  shows "scores_file_ok sf'"
proof -
  obtain status o' where "out = (status, o')" by (cases out)
  with assms(1) have "AdminScoreHandler dec lb sb disk i r lf sf = ((status, o'), sf')" by simp
  then show ?thesis
  proof (cases rule: AdminScore_cases)
    case refused
    with assms(2) show ?thesis by simp
  next
    case (set irq res x)
    have "result_ok (res\<lparr>SubmissionID := i, IncidentScore := Some irq\<rparr>)"
      using Store_Get_ok [OF assms(2) set(3)] set(1,2,4) by (auto simp: result_ok_def)
    with Store_Set_ok [OF assms(2)] set(6) show ?thesis by (metis snd_conv)
  qed
qed

text \<open>C38: a manual score answered 200 completes an automatic score and nothing else: the submission is in the log, its
  record was scored automatically, the points lie between 0 and 25, and afterwards the record differs only
  in them, is no longer pending, and every other record is what it was. A request answered with an error
  other than 500 changes nothing.\<close>

theorem AdminScoreHandler_outcomes:
  assumes "AdminScoreHandler dec lb False disk i r lf sf = ((status, out), sf')"
  shows "(status = 200 \<longrightarrow> (\<exists>res irq es. Store_Get False i sf = Inr (Some res) \<and> Scored res \<and> 0 \<le> irq \<and> irq \<le> 25
            \<and> FileLog_Entries dec lb lf = Inr es \<and> i \<in> ID ` set es
            \<and> out = Some (res\<lparr>SubmissionID := i, IncidentScore := Some irq\<rparr>)
            \<and> (\<forall>k. Store_Get False k sf' = (if k = i then Inr out else Store_Get False k sf))))
     \<and> (status \<noteq> 200 \<and> status \<noteq> 500 \<longrightarrow> sf' = sf)"
  using assms
proof (cases rule: AdminScore_cases)
  case refused
  then show ?thesis by simp
next
  case (set irq res x)
  show ?thesis
  proof (cases x)
    case None
    with set(6) have "\<forall>k. Store_Get False k sf' =
        (if k = i then Inr (Some (res\<lparr>SubmissionID := i, IncidentScore := Some irq\<rparr>)) else Store_Get False k sf)"
      using scores.get_put [of disk "res\<lparr>SubmissionID := i, IncidentScore := Some irq\<rparr>" sf sf'] by simp
    with None set show ?thesis by auto
  next
    case (Some y)
    with set show ?thesis by simp
  qed
qed

section \<open>Deleting\<close>

text \<open>C37: a deletion answered 204 removes the submission everywhere: the archive under its file name was deleted from the store, its
  score and its log entry are gone, and every other entry, every other score and every archive under another file name is kept.
  When the archive cannot be deleted the answer is 502, log and scores are untouched, so the row stays and the deletion can be
  tried again, and no archive under another name is touched either; 400 and 404 change nothing. \<open>content\<close> reads the store, and the hypothesis on \<open>store_delete\<close> is the frame law of
  the contract \<open>archive_store\<close>. An archive that two submissions share by name goes with the first of them.\<close>

theorem AdminDelete_outcomes:
  assumes "represents enc dec lf es"
    and "AdminDeleteSubmissionHandler enc dec False False sd ld store_delete i (a, sf, lf) = (status, (a', sf', lf'))"
    and "\<And>k j s. j \<noteq> k \<Longrightarrow> content (snd (store_delete k s)) j = content s j"
  shows "(status = 204 \<longrightarrow> (\<exists>e\<in>set es. ID e = i \<and> store_delete (Filename e) a = (None, a')
                \<and> (\<forall>j. j \<noteq> Filename e \<longrightarrow> content a' j = content a j))
            \<and> FileLog_Entries dec False lf' = Inr (filter (\<lambda>e. ID e \<noteq> i) es)
            \<and> (\<forall>k. Store_Get False k sf' = (if k = i then Inr None else Store_Get False k sf)))
     \<and> (status = 502 \<longrightarrow> sf' = sf \<and> lf' = lf
          \<and> (\<exists>e\<in>set es. ID e = i \<and> (\<forall>j. j \<noteq> Filename e \<longrightarrow> content a' j = content a j)))
     \<and> (status \<in> {400, 404} \<longrightarrow> a' = a \<and> sf' = sf \<and> lf' = lf)"
proof -
  have es: "FileLog_Entries dec False lf = Inr es" using represents_entries [OF assms(1)] by (simp add: FileLog_Entries_def)
  have frame: "content a1 j = content a j" if "store_delete k a = (x, a1)" "j \<noteq> k" for x a1 k j
    using assms(3) [OF that(2), of a] that(1) by simp
  show ?thesis
  proof (cases "status = 204 \<or> status = 502")
    case True
    then have i: "i \<noteq> []" using assms(2) by (auto simp: AdminDeleteSubmissionHandler_def)
    obtain e where find: "find (\<lambda>e. ID e = i) es = Some e"
      using assms(2) es i True by (cases "find (\<lambda>e. ID e = i) es") (auto simp: AdminDeleteSubmissionHandler_def)
    obtain x a1 where del: "store_delete (Filename e) a = (x, a1)" by fastforce
    note run = assms(2) [unfolded AdminDeleteSubmissionHandler_def, simplified es find del i prod.case if_False sum.case option.case]
    have a1: "a' = a1"
      using run by (cases x) (simp_all split: prod.splits option.splits)
    have gone: "x = None \<and> Store_Delete False sd i sf = (None, sf') \<and> (\<exists>b. FileLog_Delete enc dec False ld i lf = ((b, None), lf'))"
      if "status = 204"
      using run that by (cases x) (simp_all split: prod.splits option.splits)
    have kept: "sf' = sf \<and> lf' = lf" if "status = 502"
      using run that by (cases x) (simp_all split: prod.splits option.splits)
    note e = find del [folded a1]
    have ie: "e \<in> set es" "ID e = i" using e(1) by (auto simp: find_Some_iff)
    have others: "\<forall>j. j \<noteq> Filename e \<longrightarrow> content a' j = content a j" using frame [OF e(2)] by blast
    have "FileLog_Entries dec False lf' = Inr (filter (\<lambda>e. ID e \<noteq> i) es)" if "status = 204"
      using gone [OF that] file_log.del_ok [OF assms(1)] represents_entries unfolding FileLog_Entries_def by blast
    moreover have "\<forall>k. Store_Get False k sf' = (if k = i then Inr None else Store_Get False k sf)" if "status = 204"
      using gone [OF that] scores.get_del [of sd i sf sf'] by simp
    ultimately show ?thesis using True gone kept e(2) ie others by auto
  next
    case False
    with assms(2) es show ?thesis
      by (auto simp: AdminDeleteSubmissionHandler_def split: if_splits option.splits prod.splits)
  qed
qed

lemma AdminDelete_scores_ok:
  assumes "AdminDeleteSubmissionHandler enc dec lb sb sd ld store_delete i (a, sf, lf) = (status, (a', sf', lf'))"
    and "scores_file_ok sf"
  shows "scores_file_ok sf'"
proof -
  have "sf' = sf \<or> sf' = snd (Store_Delete sb sd i sf)"
    using assms(1) by (auto simp: AdminDeleteSubmissionHandler_def split: if_splits option.splits prod.splits sum.splits)
  with assms(2) Store_Delete_ok [OF assms(2)] show ?thesis by auto
qed

text \<open>Deleting one of two submissions that share a file name takes the archive of both: the other one stays in the log
  while its archive is gone from the store.\<close>

theorem AdminDelete_shared_archive:
  assumes "represents enc dec lf es" "e \<in> set es" "ID e \<noteq> i" "Filename e = Filename f"
    and "find (\<lambda>e. ID e = i) es = Some f"
    and "AdminDeleteSubmissionHandler enc dec False False sd ld (LocalStore_Delete no_faults) i (a, sf, lf) = (204, (a', sf', lf'))"
  shows "local_content a' (Filename e) = None
     \<and> (\<exists>es'. FileLog_Entries dec False lf' = Inr es' \<and> e \<in> set es')"
proof -
  have es: "FileLog_Entries dec False lf = Inr es" using represents_entries [OF assms(1)] by (simp add: FileLog_Entries_def)
  then obtain b where d: "LocalStore_Delete no_faults (Filename f) a = (None, a')"
    "FileLog_Delete enc dec False ld i lf = ((b, None), lf')"
    using assms(5,6) by (auto simp: AdminDeleteSubmissionHandler_def split: if_splits option.splits prod.splits)
  have "local_content a' (Filename f) = None" using local_store.del_ok [OF d(1)] .
  moreover have "FileLog_Entries dec False lf' = Inr (filter (\<lambda>e. ID e \<noteq> i) es)"
    using file_log.del_ok [OF assms(1) d(2)] represents_entries unfolding FileLog_Entries_def by blast
  ultimately show ?thesis using assms(2,3,4) by auto
qed

section \<open>The dashboard and the summary\<close>

text \<open>The dashboard lists every logged submission once and in order; a row shows points only for a record with an
  automatic half, between 38 and 100 of them, and says it is pending exactly while the manual part is missing.\<close>

theorem AdminSubmissions_rows:
  assumes "AdminSubmissionsHandler dec False False ''GET'' lf sf = (200, Some rows)" and "scores_file_ok sf"
  shows "FileLog_Entries dec False lf = Inr (map row_entry rows)
     \<and> list_all (\<lambda>row. row_total row = 0 \<and> row_pending row
          \<or> 38 \<le> row_total row \<and> row_total row \<le> (if row_pending row then 75 else 100)
            \<and> (\<exists>r. row_score row = Some r \<and> Scored r \<and> SubmissionID r = ID (row_entry row) \<and> TotalScore r = row_total row)) rows"
proof -
  obtain es m where es: "FileLog_Entries dec False lf = Inr es" and m: "Store_all False sf = Inr m"
    and rows: "rows = map (admin_row m) es"
    using assms(1) by (auto simp: AdminSubmissionsHandler_def Store_ByID_def split: sum.splits)
  have ent: "row_entry (admin_row m e) = e" for e by (simp add: admin_row_def split: option.split)
  have row: "row_total (admin_row m e) = 0 \<and> row_pending (admin_row m e)
      \<or> 38 \<le> row_total (admin_row m e) \<and> row_total (admin_row m e) \<le> (if row_pending (admin_row m e) then 75 else 100)
        \<and> (\<exists>r. row_score (admin_row m e) = Some r \<and> Scored r \<and> SubmissionID r = ID e \<and> TotalScore r = row_total (admin_row m e))"
    for e
  proof (cases "map_of m (ID e)")
    case (Some r)
    then have "Store_Get False (ID e) sf = Inr (Some r)" by (simp add: Store_Get_def m)
    from Store_Get_ok [OF assms(2) this] have "SubmissionID r = ID e" "result_ok r" by auto
    with Some result_ok_total [of r] result_ok_scored_total [of r] show ?thesis
      by (auto simp: admin_row_def)
  qed (simp add: admin_row_def)
  from row ent es show ?thesis by (simp add: rows list_all_iff comp_def)
qed

text \<open>The summary has one row per logged submission, in the order of the monikers, and the remark of a log is empty
  exactly when its window is covered by a scan that ran to the end; a truncated scan is reported as unverified
  even when its window counts as covered.\<close>

theorem AdminSummary_rows:
  assumes "AdminSummaryHandler srt dec False False False ''GET'' lf cf sf = (200, Some s)" and "sorts_entries srt"
  shows "\<exists>es m. FileLog_Entries dec False lf = Inr es \<and> Store_all False sf = Inr m
     \<and> participation s = length es \<and> mset (summary_rows s) = image_mset (summary_of m) (mset es)
     \<and> sorted (map fst (summary_rows s))
     \<and> (\<forall>w. validator_notes w = [] \<longleftrightarrow> Detected w \<and> Covered w \<and> \<not> Truncated w)
     \<and> (\<forall>w. Detected w \<and> Truncated w \<longrightarrow> validator_notes w = [LogUnverified])"
proof -
  obtain es m where es: "FileLog_Entries dec False lf = Inr es" and m: "Store_all False sf = Inr m"
    and s: "participation s = length es" "summary_rows s = map (summary_of m) (srt es)"
    using assms(1) by (auto simp: AdminSummaryHandler_def Store_ByID_def split: sum.splits)
  have "map fst (summary_rows s) = map EntryMoniker (srt es)"
    by (simp add: s summary_of_def)
  then have "sorted (map fst (summary_rows s))" using assms(2) by (simp add: sorts_entries_def)
  moreover have "mset (summary_rows s) = image_mset (summary_of m) (mset es)"
    using assms(2) by (simp add: s sorts_entries_def)
  ultimately show ?thesis using es m s by (auto simp: validator_notes_def)
qed

section \<open>Concrete instances\<close>

text \<open>A log with one entry, its score, and the request that completes it.\<close>

definition one_line :: log_file where "one_line = Some (''{1}'' @ [nl])"

lemma one_line_represents: "represents (one_enc e) (one_dec e) one_line [e]"
  using one_lawful [of e] by (simp add: represents_def one_line_def one_enc_def)

lemma one_line_entries: "FileLog_Entries (one_dec e) False one_line = Inr [e]"
  using represents_entries [OF one_line_represents] by (simp add: FileLog_Entries_def)

definition auto_scored :: result where
  "auto_scored = automatic_result ''a'' True True \<lparr>validator_window = zero_check, sentry_window = zero_check\<rparr> False (Time 600 0) sample_config"

definition scored_file :: scores_file where "scored_file = Some (Doc [(''a'', auto_scored)])"

definition score_form :: json_request where
  "score_form = \<lparr>rq_method = ''POST'', rq_media = Some ''application/json'',
     rq_json = Some (JObj [(''incident_response_quality_score'', JNum ''20'')])\<rparr>"

lemma auto_scored_fields:
  "SubmissionID auto_scored = ''a''" "Scored auto_scored" "result_encodable auto_scored" "result_ok auto_scored"
proof -
  show "result_ok auto_scored" by (simp add: auto_scored_def automatic_result_ok)
  have "marshalable zero_time" by code_simp
  then show "SubmissionID auto_scored = ''a''" "Scored auto_scored" "result_encodable auto_scored"
    by (simp_all add: auto_scored_def automatic_result_def blank_result_def result_encodable_def check_encodable_def zero_check_def)
qed

lemma scored_file_ok: "scores_file_ok scored_file" "Store_all False scored_file = Inr [(''a'', auto_scored)]"
  using auto_scored_fields
  by (simp_all add: scored_file_def scores_file_ok_def scores_ok_def Store_all_def load_file_def)

lemma score_form_saved:
  obtains sf' where "AdminScoreHandler (one_dec sample_entry) False False (\<lambda>_. False) ''a'' score_form one_line scored_file =
     ((200, Some (auto_scored\<lparr>SubmissionID := ''a'', IncidentScore := Some 20\<rparr>)), sf')"
proof -
  have dec: "decode_struct True score_fields (JObj [(''incident_response_quality_score'', JNum ''20'')]) \<lparr>sq_irq = None\<rparr> = Inr \<lparr>sq_irq = Some 20\<rparr>"
    by code_simp
  have "result_encodable (auto_scored\<lparr>SubmissionID := ''a'', IncidentScore := Some 20\<rparr>)"
    using auto_scored_fields(3) by (simp add: result_encodable_def)
  then show thesis
    using that auto_scored_fields scored_file_ok(2) one_line_entries [of sample_entry] dec
    by (simp add: AdminScoreHandler_def score_form_def save_manual_score_def sample_entry_def Store_Get_def Store_Set_def
        Store_save_def save_file_cases scores_encodable_def fails_def fails_early_def Let_def)
qed

theorem AdminScoreHandler_outcomes_witness:
  "\<exists>sf'. AdminScoreHandler (one_dec sample_entry) False False (\<lambda>_. False) ''a'' score_form one_line scored_file =
       ((200, Some (auto_scored\<lparr>SubmissionID := ''a'', IncidentScore := Some 20\<rparr>)), sf')
     \<and> Store_Get False ''a'' sf' = Inr (Some (auto_scored\<lparr>SubmissionID := ''a'', IncidentScore := Some 20\<rparr>))
     \<and> Store_Get False ''b'' sf' = Inr None"
proof (rule score_form_saved)
  fix sf'
  assume s: "AdminScoreHandler (one_dec sample_entry) False False (\<lambda>_. False) ''a'' score_form one_line scored_file =
     ((200, Some (auto_scored\<lparr>SubmissionID := ''a'', IncidentScore := Some 20\<rparr>)), sf')"
  from AdminScoreHandler_outcomes [OF s] have "\<forall>k. Store_Get False k sf' =
      (if k = ''a'' then Inr (Some (auto_scored\<lparr>SubmissionID := ''a'', IncidentScore := Some 20\<rparr>)) else Store_Get False k scored_file)"
    by auto
  with s scored_file_ok(2) show ?thesis by (simp add: Store_Get_def [of False "''b''" scored_file])
qed

theorem AdminDelete_outcomes_witness:
  "\<exists>a' sf' lf'. AdminDeleteSubmissionHandler (one_enc sample_entry) (one_dec sample_entry) False False (\<lambda>_. False) (\<lambda>_. False)
       (LocalStore_Delete no_faults) ''a'' ([[''z''] \<mapsto> ''x''], scored_file, one_line) = (204, (a', sf', lf'))
     \<and> FileLog_Entries (one_dec sample_entry) False lf' = Inr [] \<and> Store_Get False ''a'' sf' = Inr None
     \<and> local_content a' ''z'' = Some ''x''"
proof -
  let ?del = "AdminDeleteSubmissionHandler (one_enc sample_entry) (one_dec sample_entry) False False (\<lambda>_. False) (\<lambda>_. False)
      (LocalStore_Delete no_faults) ''a'' ([[''z''] \<mapsto> ''x''], scored_file, one_line)"
  have key: "validKey (Filename sample_entry)" "validKey ''z''" "''z'' \<noteq> Filename sample_entry" by code_simp+
  obtain a' sf' lf' where d: "?del = (204, (a', sf', lf'))"
    using key(1) scored_file_ok(2) one_line_entries [of sample_entry]
    by (simp add: AdminDeleteSubmissionHandler_def sample_entry_def LocalStore_Delete_def no_faults_def Store_Delete_def
        Store_save_def save_file_cases scores_encodable_def fails_def fails_early_def FileLog_Delete_def FileLog_Entries_def
        replace_content_eq)
  have z: "local_content [[''z''] \<mapsto> ''x''] ''z'' = Some ''x''" using key(2) by (simp add: local_content_def)
  from AdminDelete_outcomes [OF one_line_represents d, of local_content] local_store.del_frame d z key(3) show ?thesis
    by (auto simp: sample_entry_def)
qed

theorem AdminSubmissions_rows_witness:
  "\<exists>row. AdminSubmissionsHandler (one_dec sample_entry) False False ''GET'' one_line scored_file = (200, Some [row])
     \<and> row_entry row = sample_entry
     \<and> (row_total row = 0 \<and> row_pending row \<or> 38 \<le> row_total row \<and> row_total row \<le> (if row_pending row then 75 else 100))"
proof -
  obtain rows where r: "AdminSubmissionsHandler (one_dec sample_entry) False False ''GET'' one_line scored_file = (200, Some rows)"
    using scored_file_ok(2) one_line_entries [of sample_entry] by (simp add: AdminSubmissionsHandler_def Store_ByID_def)
  from AdminSubmissions_rows [OF r scored_file_ok(1)] one_line_entries [of sample_entry]
  obtain row where "rows = [row]" "row_entry row = sample_entry" by (auto simp: map_eq_Cons_conv)
  with AdminSubmissions_rows [OF r scored_file_ok(1)] r show ?thesis by auto
qed

end
