(* ===== verification/Rescore.thy ===== *)
theory Rescore
  imports Portal_Admin
begin

text \<open>
  \<^verbatim>\<open>src/cmd/rescore/main.go\<close>: recomputing the automatic half of every recorded score from the stored archives.
  \<open>open_file\<close> reads a file below the archive directory by its name (\<open>None\<close>: it cannot be opened); \<open>disk\<close> is the fate
  of the disk at the \<open>k\<close>-th entry's write.
\<close>

section \<open>Operations\<close>

record rescore_libs =
  r_untar :: untar
  r_gunzip :: gunzip
  r_json_ts :: json_ts
  r_read_json :: read_json
  open_file :: "string \<Rightarrow> bytes option"
  seek_err :: "string \<Rightarrow> bool"

datatype rescore_error =
    OpenArchive
  | BadArchive archive_error
  | BadMetadata metadata_error
  | RewindArchive
  | LogsUnreadable

definition rescoreOne :: "rescore_libs \<Rightarrow> options \<Rightarrow> entry \<Rightarrow> config \<Rightarrow> rescore_error + result" where
  "rescoreOne l opts e cfg =
     (case open_file l (Filename e) of
        None \<Rightarrow> Inl OpenArchive
      | Some data \<Rightarrow>
          (case ValidateArchive (r_untar l) (\<lambda>_. False) data opts of
             Inl err \<Rightarrow> Inl (BadArchive err)
           | Inr archive \<Rightarrow>
               (case ValidateMetadata (r_read_json l) (Metadata archive) of
                  Inl err \<Rightarrow> Inl (BadMetadata err)
                | Inr meta \<Rightarrow>
                    if seek_err l (Filename e) then Inl RewindArchive
                    else
                      (case ScanLogs (r_untar l) (\<lambda>_. False) data opts
                              (check_log_entry (r_gunzip l) (r_json_ts l) cfg)
                              \<lparr>validator_window = zero_check, sentry_window = zero_check\<rparr> of
                         (_, Some _) \<Rightarrow> Inl LogsUnreadable
                       | (ws, None) \<Rightarrow>
                           (case MetadataChecks meta cfg of
                              (genesisMatch, versionSupported) \<Rightarrow>
                                Inr \<lparr>SubmissionID = ID e, Scored = True, GenesisMatch = genesisMatch,
                                     VersionSupported = versionSupported, LogWindow = validator_window ws,
                                     HasSentryLog = SentryLogPresent archive,
                                     SentryLogWindow = sentry_window ws,
                                     UploadTimeScore = TieredTimeScore (SubmittedAt e) cfg, MetadataScore = 25,
                                     LogScore = LogQualityScore (validator_window ws) (sentry_window ws),
                                     IncidentScore = None\<rparr>)))))"

text \<open>The record written for an entry: the manual score of the previous one is carried over.\<close>

definition carry_manual :: "result option \<Rightarrow> result \<Rightarrow> result" where
  "carry_manual prior res =
     (case prior of None \<Rightarrow> res | Some b \<Rightarrow> res\<lparr>IncidentScore := IncidentScore b\<rparr>)"

record tally =
  changed :: nat
  failed :: nat

fun rescore_entries ::
  "rescore_libs \<Rightarrow> options \<Rightarrow> config \<Rightarrow> bool \<Rightarrow> scores \<Rightarrow> (nat \<Rightarrow> stage \<Rightarrow> bool) \<Rightarrow> nat \<Rightarrow> tally \<Rightarrow> entry list
   \<Rightarrow> scores_file \<Rightarrow> (store_error option \<times> tally) \<times> scores_file" where
  "rescore_entries l opts cfg apply_it previous disk k tly [] sf = ((None, tly), sf)"
| "rescore_entries l opts cfg apply_it previous disk k tly (e # es) sf =
     (case rescoreOne l opts e cfg of
        Inl _ \<Rightarrow> rescore_entries l opts cfg apply_it previous disk (Suc k) (tly\<lparr>failed := Suc (failed tly)\<rparr>) es sf
      | Inr res \<Rightarrow>
          (let prior = map_of previous (ID e);
               updated = carry_manual prior res;
               priorTotal = (case prior of Some b \<Rightarrow> if Scored b then TotalScore b else 0 | None \<Rightarrow> 0);
               tly' = (if priorTotal \<noteq> TotalScore updated then tly\<lparr>changed := Suc (changed tly)\<rparr> else tly)
           in if apply_it then
                (case Store_Set False (disk k) updated sf of
                   (Some err, sf') \<Rightarrow> ((Some err, tly'), sf')
                 | (None, sf') \<Rightarrow> rescore_entries l opts cfg apply_it previous disk (Suc k) tly' es sf')
              else rescore_entries l opts cfg apply_it previous disk (Suc k) tly' es sf))"

datatype run_error = NoConfig | NotConfigured | NoLog | NoScores | WriteScore store_error

definition rescore_run ::
  "rescore_libs \<Rightarrow> decoder \<Rightarrow> (nat \<Rightarrow> stage \<Rightarrow> bool) \<Rightarrow> int \<Rightarrow> bool \<Rightarrow> config_file \<Rightarrow> log_file \<Rightarrow> scores_file
   \<Rightarrow> (run_error + tally) \<times> scores_file" where
  "rescore_run l dec disk maxLogSize apply_it cf lf sf =
     (case FileStore_Get False cf of
        Inl _ \<Rightarrow> (Inl NoConfig, sf)
      | Inr cfg \<Rightarrow>
          if \<not> Configured cfg then (Inl NotConfigured, sf)
          else case FileLog_Entries dec False lf of
            Inl _ \<Rightarrow> (Inl NoLog, sf)
          | Inr entries \<Rightarrow>
              (case Store_ByID False sf of
                 Inl _ \<Rightarrow> (Inl NoScores, sf)
               | Inr previous \<Rightarrow>
                   (case rescore_entries l \<lparr>MaxLogSize = maxLogSize, MaxMetadataSize = 0\<rparr> cfg apply_it previous
                           disk 0 \<lparr>changed = 0, failed = 0\<rparr> entries sf of
                      ((Some err, _), sf') \<Rightarrow> (Inl (WriteScore err), sf')
                    | ((None, tly), sf') \<Rightarrow> (Inr tly, sf'))))"

text \<open>\<open>main\<close>: the flags that must be given, then the run; and the remark a run prints next to a score.\<close>

datatype rescore_exit = MissingFlag string | RunFailed run_error | RunDone tally

definition rescore_main ::
  "rescore_libs \<Rightarrow> decoder \<Rightarrow> (nat \<Rightarrow> stage \<Rightarrow> bool) \<Rightarrow> string \<Rightarrow> string \<Rightarrow> string \<Rightarrow> string \<Rightarrow> int \<Rightarrow> bool
   \<Rightarrow> config_file \<Rightarrow> log_file \<Rightarrow> scores_file \<Rightarrow> rescore_exit \<times> scores_file" where
  "rescore_main l dec disk archivesDir submissionsPath exercisePath scoresPath maxLogSize apply_it cf lf sf =
     (if archivesDir = [] then (MissingFlag ''-archives'', sf)
      else if submissionsPath = [] then (MissingFlag ''-submissions'', sf)
      else if exercisePath = [] then (MissingFlag ''-exercise'', sf)
      else if scoresPath = [] then (MissingFlag ''-scores'', sf)
      else case rescore_run l dec disk maxLogSize apply_it cf lf sf of
        (Inl e, sf') \<Rightarrow> (RunFailed e, sf')
      | (Inr tly, sf') \<Rightarrow> (RunDone tly, sf'))"

datatype outcome_note =
    UnreadableInBudget | NoTimestamps | CoverageUnverified | WindowCovered | WindowNotCovered gotime gotime

definition describe :: "result \<Rightarrow> outcome_note" where
  "describe r =
     (let w = LogWindow r in
      if \<not> Detected w \<and> Truncated w then UnreadableInBudget
      else if \<not> Detected w then NoTimestamps
      else if Truncated w then CoverageUnverified
      else if Covered w then WindowCovered
      else WindowNotCovered (FirstSeen w) (LastSeen w))"

section \<open>The same score as at upload time\<close>

lemma rescoreOne_accepted:
  assumes "sane opts" "open_file l (Filename e) = Some data" "\<not> seek_err l (Filename e)"
    and "ValidateArchive (r_untar l) (\<lambda>_. False) data opts = Inr ar"
    and "ValidateMetadata (r_read_json l) (Metadata ar) = Inr meta" "r_untar l data = Some ts"
  shows "rescoreOne l opts e cfg = Inr (automatic_result (ID e)
     (fst (MetadataChecks meta cfg)) (snd (MetadataChecks meta cfg))
     (archive_windows (r_gunzip l) (r_json_ts l) cfg (members ts)) (SentryLogPresent ar) (SubmittedAt e) cfg)"
proof -
  have "autoChecks (r_untar l) (r_gunzip l) (r_json_ts l) (\<lambda>_. False) False data opts meta cfg =
     Some (fst (MetadataChecks meta cfg), snd (MetadataChecks meta cfg),
           archive_windows (r_gunzip l) (r_json_ts l) cfg (members ts))"
    by (rule autoChecks_accepted [OF assms(1,4,6)]) simp
  then have "ScanLogs (r_untar l) (\<lambda>_. False) data opts (check_log_entry (r_gunzip l) (r_json_ts l) cfg)
      \<lparr>validator_window = zero_check, sentry_window = zero_check\<rparr> =
      (archive_windows (r_gunzip l) (r_json_ts l) cfg (members ts), None)"
    by (auto simp: autoChecks_def split: prod.splits option.splits)
  then show ?thesis
    using assms by (simp add: rescoreOne_def automatic_result_def blank_result_def split: prod.splits)
qed

lemma ValidateArchive_ctx:
  assumes "sane opts" "ValidateArchive untar ctx data opts = Inr ar"
  shows "ValidateArchive untar (\<lambda>_. False) data opts = Inr ar"
proof -
  obtain ts seen where ts: "untar data = Some ts"
    and v: "validate_entries ctx (withDefaults opts) (corrupt ts) 0 [] [] False (members ts)
              = Inr (seen, Metadata ar, SentryLogPresent ar)"
    and f: "set requiredEntries \<subseteq> set seen" using assms(2) by (rule ValidateArchive_InrE)
  note pos = withDefaults_pos [of opts] withDefaults_sane [OF assms(1)]
  have "validate_entries (\<lambda>_. False) (withDefaults opts) (corrupt ts) 0 [] [] False (members ts)
      = Inr (seen, Metadata ar, SentryLogPresent ar)"
    using v unfolding validate_entries_iff [OF pos] by simp
  moreover have "find (\<lambda>n. n \<notin> set seen) requiredEntries = None" using f by (simp add: find_required_None)
  ultimately show ?thesis using ts by (simp add: ValidateArchive_def)
qed

text \<open>C12: for an archive the portal accepted and stored, re-scoring with the same configuration and limits computes exactly
  the record the submission handler computed: the two implementations of the automatic score agree.\<close>

theorem rescore_agrees_with_submit:
  assumes "upload_ok h w addr fname data au" "sane (ArchiveOptions h)" "\<not> check_seek_fails w" "Configured cfg"
    and "r_untar l = h_untar h" "r_gunzip l = h_gunzip h" "r_json_ts l = h_json_ts h" "r_read_json l = h_read_json h"
    and "open_file l fname = Some data" "\<not> seek_err l fname"
  shows "rescoreOne l (ArchiveOptions h) (submission_entry h w addr i fname au) cfg = Inr (score_record h w i au data cfg)"
proof -
  let ?e = "submission_entry h w addr i fname au"
  obtain ar where ar: "ValidateArchive (h_untar h) (ctx_validate w) data (ArchiveOptions h) = Inr ar"
    "ValidateMetadata (h_read_json h) (Metadata ar) = Inr (au_meta au)" "au_sentry au = SentryLogPresent ar"
    using assms(1) by (auto simp: upload_ok_def)
  obtain ts where ts: "h_untar h data = Some ts" using ValidateArchive_sound [OF assms(2) ar(1)] by blast
  have e: "Filename ?e = fname" "ID ?e = i" "SubmittedAt ?e = t_recorded w" by (simp_all add: submission_entry_def)
  have "rescoreOne l (ArchiveOptions h) ?e cfg = Inr (automatic_result i
     (fst (MetadataChecks (au_meta au) cfg)) (snd (MetadataChecks (au_meta au) cfg))
     (archive_windows (h_gunzip h) (h_json_ts h) cfg (members ts)) (SentryLogPresent ar) (t_recorded w) cfg)"
    using rescoreOne_accepted [of "ArchiveOptions h" l ?e data ar "au_meta au" ts cfg] assms e ts ar
      ValidateArchive_ctx [OF assms(2) ar(1)] by simp
  moreover have "score_record h w i au data cfg = automatic_result i
     (fst (MetadataChecks (au_meta au) cfg)) (snd (MetadataChecks (au_meta au) cfg))
     (archive_windows (h_gunzip h) (h_json_ts h) cfg (members ts)) (au_sentry au) (t_recorded w) cfg"
    using assms(3,4) autoChecks_accepted [OF assms(2) ar(1) ts, of "\<lambda>_. False" "h_gunzip h" "h_json_ts h" "au_meta au" cfg]
    by (simp add: score_record_def)
  ultimately show ?thesis by (simp add: ar(3))
qed

section \<open>What a run changes\<close>

lemma rescore_entries_dry: "snd (rescore_entries l opts cfg False previous disk k tly es sf) = sf"
  by (induction es arbitrary: k tly) (auto simp: Let_def split: sum.split)

lemma rescoreOne_fields: "rescoreOne l opts e cfg = Inr r \<Longrightarrow> SubmissionID r = ID e \<and> Scored r \<and> IncidentScore r = None"
  by (auto simp: rescoreOne_def split: option.splits sum.splits if_splits prod.splits)

lemma rescoreOne_ok: "rescoreOne l opts e cfg = Inr r \<Longrightarrow> result_ok r"
  using LogQualityScore_bounds TieredTimeScore_bounds
  by (auto simp: rescoreOne_def result_ok_def split: option.splits sum.splits if_splits prod.splits)

text \<open>The manual score of every record, read through the file.\<close>

definition manual_of :: "scores_file \<Rightarrow> string \<Rightarrow> int option" where
  "manual_of sf i = (case Store_Get False i sf of Inr (Some r) \<Rightarrow> IncidentScore r | _ \<Rightarrow> None)"

lemma manual_of_put:
  assumes "IncidentScore r = manual_of sf (SubmissionID r)"
  shows "manual_of (snd (Store_Set False d r sf)) i = manual_of sf i"
proof -
  obtain x sf' where s: "Store_Set False d r sf = (x, sf')" by fastforce
  show ?thesis
  proof (cases x)
    case None
    with s scores.get_put [of d r sf sf' i] assms show ?thesis by (simp add: manual_of_def)
  next
    case (Some y)
    with s scores.get_put_error [of d r sf y sf'] assms show ?thesis
      by (cases "i = SubmissionID r") (auto simp: manual_of_def fun_eq_iff)
  qed
qed

lemma carry_manual_fields [simp]:
  "SubmissionID (carry_manual b r) = SubmissionID r"
  "IncidentScore r = None \<Longrightarrow> IncidentScore (carry_manual b r) = (case b of Some b \<Rightarrow> IncidentScore b | None \<Rightarrow> None)"
  by (simp_all add: carry_manual_def split: option.split)

lemma rescore_entries_manual:
  assumes "\<And>i. (case map_of previous i of Some b \<Rightarrow> IncidentScore b | None \<Rightarrow> None) = manual_of sf i"
  shows "manual_of (snd (rescore_entries l opts cfg a previous disk k tly es sf)) i = manual_of sf i"
  using assms
proof (induction es arbitrary: k tly sf)
  case (Cons e es)
  show ?case
  proof (cases "rescoreOne l opts e cfg")
    case (Inl x)
    with Cons show ?thesis by simp
  next
    case (Inr r)
    let ?updated = "carry_manual (map_of previous (ID e)) r"
    note f = rescoreOne_fields [OF Inr]
    have keep: "manual_of (snd (Store_Set False (disk k) ?updated sf)) j = manual_of sf j" for j
      using manual_of_put [of ?updated sf "disk k" j] f Cons.prems [of "ID e"] by simp
    obtain x sf' where s: "Store_Set False (disk k) ?updated sf = (x, sf')" by fastforce
    show ?thesis
    proof (cases "a \<and> x = None")
      case True
      with s keep Cons.prems have "(case map_of previous j of Some b \<Rightarrow> IncidentScore b | None \<Rightarrow> None) = manual_of sf' j" for j
        by simp
      with Cons.IH True s Inr keep show ?thesis by (simp add: Let_def)
    next
      case False
      with Cons s Inr keep [of i] show ?thesis by (cases a; cases x) (auto simp: Let_def)
    qed
  qed
qed simp

text \<open>A run without \<^verbatim>\<open>-apply\<close> writes nothing at all, and a run with it never changes a manual score: what an
  administrator entered is the same afterwards for every submission, whatever archives are unreadable and
  wherever the run breaks off.\<close>

theorem rescore_run_preserves:
  "snd (rescore_run l dec disk m False cf lf sf) = sf
   \<and> manual_of (snd (rescore_run l dec disk m a cf lf sf)) i = manual_of sf i"
proof -
  have dry: "snd (rescore_run l dec disk m False cf lf sf) = sf"
    using rescore_entries_dry
    by (auto simp: rescore_run_def split: sum.split prod.split option.split) (metis snd_conv)+
  have "manual_of (snd (rescore_run l dec disk m a cf lf sf)) i = manual_of sf i"
  proof (cases "Store_ByID False sf")
    case (Inr prev)
    then have all: "Store_all False sf = Inr prev" by (simp add: Store_ByID_def)
    have m: "(case map_of prev j of Some b \<Rightarrow> IncidentScore b | None \<Rightarrow> None) = manual_of sf j" for j
      by (simp add: manual_of_def Store_Get_def all split: option.split)
    note k = rescore_entries_manual [OF m, of l _ _ a disk 0 _ _ i]
    show ?thesis
      unfolding rescore_run_def using Inr k
      by (auto split: sum.split prod.split option.split) (metis snd_conv)+
  qed (auto simp: rescore_run_def split: sum.split)
  with dry show ?thesis by blast
qed

lemma carry_manual_ok:
  assumes "scores_ok prev" "rescoreOne l opts e cfg = Inr r"
  shows "result_ok (carry_manual (map_of prev (ID e)) r)"
proof -
  have "result_ok b" if "map_of prev (ID e) = Some b" for b
    using assms(1) map_of_SomeD [OF that] by (auto simp: scores_ok_def list_all_iff)
  then show ?thesis
    using rescoreOne_ok [OF assms(2)] rescoreOne_fields [OF assms(2)]
    by (auto simp: carry_manual_def result_ok_def split: option.splits if_splits)
qed

lemma rescore_entries_ok:
  assumes "scores_file_ok sf" "scores_ok previous" "distinct (map fst previous)"
  shows "scores_file_ok (snd (rescore_entries l opts cfg a previous disk k tly es sf))"
  using assms(1)
proof (induction es arbitrary: k tly sf)
  case (Cons e es)
  show ?case
  proof (cases "rescoreOne l opts e cfg")
    case (Inl x)
    with Cons show ?thesis by simp
  next
    case (Inr r)
    let ?updated = "carry_manual (map_of previous (ID e)) r"
    have "result_ok ?updated" using carry_manual_ok [OF assms(2) Inr] .
    then have "scores_file_ok (snd (Store_Set False (disk k) ?updated sf))" by (rule Store_Set_ok [OF Cons.prems])
    with Cons Inr show ?thesis by (auto simp: Let_def split: prod.split option.split)
  qed
qed simp

lemma rescore_run_ok:
  assumes "scores_file_ok sf" shows "scores_file_ok (snd (rescore_run l dec disk m a cf lf sf))"
proof (cases "Store_ByID False sf")
  case (Inr prev)
  then have "scores_ok prev" using Store_all_ok [OF assms] by (simp add: Store_ByID_def)
  then have k: "scores_file_ok (snd (rescore_entries l opts cfg a prev disk k tly es sf))" for opts cfg k tly es
    by (intro rescore_entries_ok [OF assms]) (simp_all add: scores_ok_def)
  show ?thesis
    unfolding rescore_run_def using Inr k assms
    by (auto split: sum.split prod.split option.split) (metis snd_conv)+
qed (use assms in \<open>auto simp: rescore_run_def split: sum.split\<close>)

section \<open>Concrete instances\<close>

definition sample_libs :: rescore_libs where
  "sample_libs =
     \<lparr>r_untar = (\<lambda>_. Some (sample_tar ''ok'')), r_gunzip = sample_gunzip, r_json_ts = (\<lambda>_. None),
      r_read_json = (\<lambda>_. Some (metadata_doc sample_metadata)), open_file = [sample_name \<mapsto> ''tar''], seek_err = (\<lambda>_. False)\<rparr>"

theorem rescore_agrees_with_submit_witness:
  "rescoreOne sample_libs sample_options
     (submission_entry sample_handler sample_weather sample_address ''00'' sample_name sample_upload) sample_config = Inr sample_scored"
  using rescore_agrees_with_submit [OF sample_upload_ok, of sample_config sample_libs "''00''"]
    Validate_Configured [OF sample_config_valid(1)]
  by (simp add: sample_sane sample_libs_def sample_scored_def)

end
