(* ===== verification/Portal_Summary.thy ===== *)
theory Portal_Summary
  imports Portal_Admin
begin

text \<open>
  The text of the summary (\<^verbatim>\<open>src/portal/summary.go\<close>), byte for byte: what \<^verbatim>\<open>AdminSummaryHandler\<close> writes for the rows
  \<^verbatim>\<open>Portal_Admin\<close> computes. It is published by hand, so what matters is that it can be read in one way only.
\<close>

section \<open>Printing\<close>

text \<open>\<open>%d\<close> of \<open>fmt\<close>.\<close>

function show_nat :: "nat \<Rightarrow> string" where
  "show_nat n = (if n < 10 then [] else show_nat (n div 10)) @ [digit_char (int (n mod 10))]"
  by pat_completeness auto
termination by (relation "measure id") auto

declare show_nat.simps [simp del]

definition show_int :: "int \<Rightarrow> string" where
  "show_int i = (if i < 0 then CHR ''-'' # show_nat (nat (- i)) else show_nat (nat i))"

text \<open>The characters outside ASCII, in UTF-8: a dash, a warning sign and an information sign.\<close>

definition em_dash :: string where "em_dash = [CHR 0xE2, CHR 0x80, CHR 0x94]"
definition warn_sign :: string where "warn_sign = [CHR 0xE2, CHR 0x9A, CHR 0xA0, CHR 0xEF, CHR 0xB8, CHR 0x8F]"
definition info_sign :: string where "info_sign = [CHR 0xE2, CHR 0x84, CHR 0xB9, CHR 0xEF, CHR 0xB8, CHR 0x8F]"

fun remark_text :: "remark \<Rightarrow> string" where
  "remark_text GenesisMismatch = ''  - '' @ warn_sign @ '' genesis_sha256 does not match the expected value''"
| "remark_text VersionUnsupported = ''  - '' @ warn_sign @ '' gnoland_version is not in the supported list''"
| "remark_text LogEmpty = ''  - '' @ warn_sign @ '' validator.log.gz is empty''"
| "remark_text LogWithoutTimestamps = ''  - '' @ warn_sign @ '' no recognizable timestamps found in validator.log.gz''"
| "remark_text LogUnverified = ''  - '' @ info_sign
     @ '' log coverage could not be fully verified: the scan stopped before the end of the log''"
| "remark_text LogNotCovering = ''  - '' @ warn_sign @ '' logs do not fully cover the investigation window''"
| "remark_text SentryMissing = ''  - '' @ info_sign @ '' no sentry.log.gz submitted (sentry_enabled is true)''"
| "remark_text SentryEmpty = ''  - '' @ warn_sign @ '' sentry.log.gz is empty''"
| "remark_text SentryWithoutTimestamps = ''  - '' @ warn_sign @ '' no recognizable timestamps found in sentry.log.gz''"
| "remark_text SentryUnverified = ''  - '' @ info_sign
     @ '' sentry log coverage could not be fully verified: the scan stopped before the end of the log''"
| "remark_text SentryNotCovering = ''  - '' @ warn_sign @ '' sentry logs do not fully cover the investigation window''"

definition pendingNote :: "bool \<Rightarrow> string" where
  "pendingNote pending = (if pending then '' (incident response pending)'' else [])"

fun line_text :: "summary_line \<Rightarrow> string" where
  "line_text NotYetScored = ''not yet scored'' @ [nl]"
| "line_text (ScoredLine points pending rs) =
     show_int points @ ''/100'' @ pendingNote pending @ [nl] @ concat (map (\<lambda>r. remark_text r @ [nl]) rs)"

definition row_text :: "string \<times> string \<times> summary_line \<Rightarrow> string" where
  "row_text row =
     (case row of (moniker, addr, line) \<Rightarrow>
        ''- **'' @ moniker @ ''** ('' @ addr @ '') '' @ em_dash @ '' '' @ line_text line)"

definition observations_text :: "string option \<Rightarrow> string" where
  "observations_text obs =
     (case obs of None \<Rightarrow> [] | Some t \<Rightarrow> [nl] @ ''**Observations:**'' @ [nl, nl] @ t @ [nl])"

definition summary_text :: "summary \<Rightarrow> string" where
  "summary_text s =
     ''## Validator Fire Drill '' @ em_dash @ '' Summary'' @ [nl, nl]
     @ ''**Participation:** '' @ show_int (int (participation s)) @ '' submission(s)'' @ [nl, nl]
     @ concat (map row_text (summary_rows s)) @ observations_text (observations s)"

section \<open>Reading it back\<close>

text \<open>A text up to a character that does not occur in it is determined by what it begins.\<close>

lemma cut_unique:
  assumes "a @ c # s = a' @ c # s'" "c \<notin> set a" "c \<notin> set a'"
  shows "a = a'" "s = s'"
proof -
  have "takeWhile (\<lambda>d. d \<noteq> c) (a @ c # s) = a" "takeWhile (\<lambda>d. d \<noteq> c) (a' @ c # s') = a'"
    using assms(2,3) by (auto simp: takeWhile_append)
  with assms(1) show "a = a'" "s = s'" by auto
qed

lemma show_nat_digits: "list_all is_digit (show_nat n)"
  by (induction n rule: show_nat.induct) (subst show_nat.simps, auto)

lemma show_nat_value: "num_of (show_nat n) = int n"
proof (induction n rule: show_nat.induct)
  case (1 n)
  have acc: "num_acc x (s @ [c]) = num_acc x s * 10 + digit_val c" for x s c by (induction s arbitrary: x) auto
  have d: "digit_val (digit_char (int (n mod 10))) = int (n mod 10)" by simp
  have "int (n div 10 * 10 + n mod 10) = int n" by (simp only: div_mult_mod_eq)
  then have n: "int (n div 10) * 10 + int (n mod 10) = int n" by (simp only: of_nat_add of_nat_mult of_nat_numeral)
  show ?case
  proof (cases "n < 10")
    case True
    then show ?thesis by (subst show_nat.simps) simp
  next
    case False
    with 1 have ih: "num_of (show_nat (n div 10)) = int (n div 10)" by simp
    have "show_nat n = show_nat (n div 10) @ [digit_char (int (n mod 10))]"
      using False show_nat.simps [of n] by (simp only: if_False)
    then have "num_of (show_nat n) = int (n div 10) * 10 + int (n mod 10)" by (metis acc ih d)
    with n show ?thesis by (rule back_subst [rotated])
  qed
qed

lemma show_nat_inj: "show_nat n = show_nat m \<Longrightarrow> n = m"
  by (metis show_nat_value of_nat_eq_iff)

lemma show_int_chars: "list_all (\<lambda>c. is_digit c \<or> c = CHR ''-'') (show_int i)" "show_int i \<noteq> []"
  using show_nat_digits [of "nat i"] show_nat_digits [of "nat (- i)"]
  by (auto simp: show_int_def list_all_iff show_nat.simps [of "nat i"])

lemma show_int_lacks: "\<not> is_digit c \<Longrightarrow> c \<noteq> CHR ''-'' \<Longrightarrow> c \<notin> set (show_int i)"
  using show_int_chars(1) [of i] by (auto simp: list_all_iff)

lemma show_nat_unsigned: "show_nat n \<noteq> CHR ''-'' # u"
  using show_nat_digits [of n] by (auto simp: is_digit_def)

lemma show_int_inj: "show_int i = show_int j \<Longrightarrow> i = j"
  using show_nat_unsigned show_nat_unsigned [symmetric]
  by (auto simp: show_int_def split: if_splits dest!: show_nat_inj)

lemma show_int_hd: "hd (show_int i @ u) \<noteq> CHR ''n''"
  using show_int_chars [of i] by (cases "show_int i") (auto simp: is_digit_def)

text \<open>A rest that does not begin with a remark.\<close>

abbreviation no_remark :: "string \<Rightarrow> bool" where
  "no_remark t \<equiv> t = [] \<or> hd t \<noteq> CHR '' ''"

lemma remark_text_line: "nl \<notin> set (remark_text r)" "remark_text r \<noteq> []" "hd (remark_text r @ u) = CHR '' ''"
  by (cases r; simp add: nl_def warn_sign_def info_sign_def)+

lemma remark_text_inj: "remark_text r = remark_text r' \<Longrightarrow> r = r'"
  by (cases r; cases r'; simp add: warn_sign_def info_sign_def)

lemma remarks_inj:
  assumes "concat (map (\<lambda>r. remark_text r @ [nl]) rs) @ t = concat (map (\<lambda>r. remark_text r @ [nl]) rs') @ t'"
    and "no_remark t" "no_remark t'"
  shows "rs = rs' \<and> t = t'"
  using assms(1)
proof (induction rs arbitrary: rs')
  case Nil
  then show ?case using assms(2) remark_text_line(2,3) by (cases rs') (auto simp del: hd_append)
next
  case (Cons r rs)
  show ?case
  proof (cases rs')
    case Nil
    then show ?thesis using Cons.prems [symmetric] assms(3) remark_text_line(2,3) [of r] by (auto simp del: hd_append)
  next
    case (Cons r' rs'')
    with Cons.prems have "remark_text r @ nl # concat (map (\<lambda>r. remark_text r @ [nl]) rs) @ t =
       remark_text r' @ nl # concat (map (\<lambda>r. remark_text r @ [nl]) rs'') @ t'" by simp
    from cut_unique [OF this remark_text_line(1) remark_text_line(1)] remark_text_inj Cons.IH [of rs''] Cons
    show ?thesis by auto
  qed
qed

lemma line_text_inj:
  assumes "line_text l @ t = line_text l' @ t'" "no_remark t" "no_remark t'"
  shows "l = l' \<and> t = t'"
proof -
  have unlike: "line_text NotYetScored @ t1 \<noteq> line_text (ScoredLine n p rs) @ t2" for n p rs t1 t2
  proof
    assume "line_text NotYetScored @ t1 = line_text (ScoredLine n p rs) @ t2"
    from arg_cong [OF this, of hd] show False
      using show_int_hd [of n "''/100'' @ pendingNote p @ [nl] @ concat (map (\<lambda>r. remark_text r @ [nl]) rs) @ t2"] by simp
  qed
  show ?thesis
  proof (cases l; cases l')
    fix n p rs n' p' rs'
    assume l: "l = ScoredLine n p rs" "l' = ScoredLine n' p' rs'"
    let ?u = "\<lambda>p rs t. ''100'' @ pendingNote p @ [nl] @ concat (map (\<lambda>r. remark_text r @ [nl]) rs) @ t"
    have "show_int n @ CHR ''/'' # ?u p rs t = show_int n' @ CHR ''/'' # ?u p' rs' t'" using assms(1) l by simp
    from cut_unique [OF this] have n: "n = n'" "?u p rs t = ?u p' rs' t'"
      using show_int_lacks [of "CHR ''/''"] show_int_inj by (simp_all add: is_digit_def)
    then have "pendingNote p @ nl # concat (map (\<lambda>r. remark_text r @ [nl]) rs) @ t =
        pendingNote p' @ nl # concat (map (\<lambda>r. remark_text r @ [nl]) rs') @ t'" by simp
    from cut_unique [OF this] have "pendingNote p = pendingNote p'"
      "concat (map (\<lambda>r. remark_text r @ [nl]) rs) @ t = concat (map (\<lambda>r. remark_text r @ [nl]) rs') @ t'"
      by (simp_all add: pendingNote_def nl_def)
    with remarks_inj [OF _ assms(2,3)] n l show ?thesis by (auto simp: pendingNote_def split: if_splits)
  next
    fix n p rs assume "l = NotYetScored" "l' = ScoredLine n p rs"
    then show ?thesis using assms(1) unlike by blast
  next
    fix n p rs assume "l = ScoredLine n p rs" "l' = NotYetScored"
    then show ?thesis using assms(1) unlike by metis
  qed (use assms(1) in simp)
qed

text \<open>What a moniker and an address may not hold: the characters that end them in a row.\<close>

definition row_clean :: "string \<times> string \<times> summary_line \<Rightarrow> bool" where
  "row_clean row \<longleftrightarrow> CHR ''*'' \<notin> set (fst row) \<and> CHR '')'' \<notin> set (fst (snd row))"

lemma row_text_inj:
  assumes "row_text r @ t = row_text r' @ t'" "row_clean r" "row_clean r'" "no_remark t" "no_remark t'"
  shows "r = r' \<and> t = t'"
proof -
  obtain m a l m' a' l' where r: "r = (m, a, l)" "r' = (m', a', l')" by (metis prod.collapse)
  let ?u = "\<lambda>a l t. ''* ('' @ a @ '') '' @ em_dash @ '' '' @ line_text l @ t"
  have "m @ CHR ''*'' # ?u a l t = m' @ CHR ''*'' # ?u a' l' t'" using assms(1) by (simp add: r row_text_def)
  from cut_unique [OF this] have m: "m = m'" "?u a l t = ?u a' l' t'" using assms(2,3) by (simp_all add: r row_clean_def)
  let ?v = "\<lambda>l t. CHR '' '' # em_dash @ '' '' @ line_text l @ t"
  have "a @ CHR '')'' # ?v l t = a' @ CHR '')'' # ?v l' t'" using m(2) by simp
  from cut_unique [OF this] have "a = a'" "?v l t = ?v l' t'" using assms(2,3) by (simp_all add: r row_clean_def)
  with line_text_inj [OF _ assms(4,5)] m(1) show ?thesis by (simp add: r)
qed

lemma row_text_hd: "row_text r \<noteq> []" "hd (row_text r @ t) = CHR ''-''"
  by (simp_all add: row_text_def split: prod.split)

lemma rows_text_inj:
  assumes "concat (map row_text rs) @ t = concat (map row_text rs') @ t'"
    and "list_all row_clean rs" "list_all row_clean rs'" "t = [] \<or> hd t = nl" "t' = [] \<or> hd t' = nl"
  shows "rs = rs' \<and> t = t'"
  using assms(1-3)
proof (induction rs arbitrary: rs')
  case Nil
  then show ?case using assms(4) row_text_hd by (cases rs') (auto simp: nl_def simp del: hd_append)
next
  case (Cons r rs)
  have more: "no_remark (concat (map row_text qs) @ u)" if "u = [] \<or> hd u = nl" for qs u
    using that row_text_hd by (cases qs) (auto simp: nl_def simp del: hd_append)
  show ?case
  proof (cases rs')
    case Nil
    then show ?thesis using Cons.prems(1) [symmetric] assms(5) row_text_hd by (auto simp: nl_def simp del: hd_append)
  next
    case (Cons r' rs'')
    have "row_text r @ concat (map row_text rs) @ t = row_text r' @ concat (map row_text rs'') @ t'"
      using Cons.prems(1) Cons by simp
    from row_text_inj [OF this] Cons.prems(2,3) Cons more assms(4,5) Cons.IH [of rs''] show ?thesis by auto
  qed
qed

lemma observations_text_inj: "observations_text x = observations_text y \<Longrightarrow> x = y"
  by (auto simp: observations_text_def split: option.splits)

lemma observations_text_hd: "observations_text x = [] \<or> hd (observations_text x) = nl"
  by (simp add: observations_text_def split: option.split)

lemma summary_text_inj:
  assumes "summary_text s = summary_text s'" "list_all row_clean (summary_rows s)" "list_all row_clean (summary_rows s')"
  shows "s = s'"
proof -
  let ?u = "\<lambda>s. ''submission(s)'' @ [nl, nl] @ concat (map row_text (summary_rows s)) @ observations_text (observations s)"
  have "show_int (int (participation s)) @ CHR '' '' # ?u s = show_int (int (participation s')) @ CHR '' '' # ?u s'"
    using assms(1) by (simp add: summary_text_def)
  from cut_unique [OF this] have p: "participation s = participation s'" "?u s = ?u s'"
    using show_int_lacks [of "CHR '' ''"] by (auto simp: is_digit_def dest!: show_int_inj)
  from rows_text_inj [OF _ assms(2,3) observations_text_hd observations_text_hd] p(2)
  have "summary_rows s = summary_rows s'" "observations s = observations s'" by (auto dest: observations_text_inj)
  with p(1) show ?thesis by simp
qed

section \<open>The published report\<close>

lemma moniker_clean: "monikerCharsRe m \<Longrightarrow> CHR ''*'' \<notin> set m"
  by (auto simp: monikerCharsRe_def is_alnum_def list_all_iff Let_def split: list.splits)

text \<open>C29: the published summary can be read in one way only: two summaries with the same text agree in the number of
  submissions, in every row's moniker, address, points, pending mark and remarks, and in the observations. It needs
  monikers as the upload accepts them and addresses without a closing parenthesis.\<close>

theorem summary_unambiguous:
  assumes "AdminSummaryHandler srt dec lb cb sb meth lf cf sf = (200, Some s)"
    and "AdminSummaryHandler srt' dec' lb' cb' sb' meth' lf' cf' sf' = (200, Some s')"
    and "sorts_entries srt" "sorts_entries srt'"
    and "FileLog_Entries dec lb lf = Inr es" "\<forall>e\<in>set es. monikerCharsRe (EntryMoniker e) \<and> CHR '')'' \<notin> set (OperatorAddress e)"
    and "FileLog_Entries dec' lb' lf' = Inr es'" "\<forall>e\<in>set es'. monikerCharsRe (EntryMoniker e) \<and> CHR '')'' \<notin> set (OperatorAddress e)"
  shows "summary_text s = summary_text s' \<longleftrightarrow> s = s'"
proof -
  have clean: "list_all row_clean (summary_rows t)"
    if "AdminSummaryHandler sr d b1 b2 b3 mt l c f = (200, Some t)" "sorts_entries sr" "FileLog_Entries d b1 l = Inr xs"
      "\<forall>e\<in>set xs. monikerCharsRe (EntryMoniker e) \<and> CHR '')'' \<notin> set (OperatorAddress e)" for sr d b1 b2 b3 mt l c f t xs
  proof -
    note h = that
    obtain m where "summary_rows t = map (summary_of m) (sr xs)"
      using h(1,3) by (fastforce simp: AdminSummaryHandler_def simp del: map_eq_conv split: if_splits sum.splits)
    moreover have "set (sr xs) = set xs" using h(2) by (metis sorts_entries_def set_mset_mset)
    ultimately show ?thesis using h(4) moniker_clean by (auto simp: list_all_iff row_clean_def summary_of_def)
  qed
  show ?thesis using summary_text_inj clean [OF assms(1,3,5,6)] clean [OF assms(2,4,7,8)] by blast
qed

section \<open>Concrete instances\<close>

text \<open>The report before and after the one submission has its score.\<close>

theorem summary_unambiguous_witness:
  "\<exists>s s'. AdminSummaryHandler (sort_key EntryMoniker) (one_dec sample_entry) False False False ''GET'' one_line None None = (200, Some s)
     \<and> AdminSummaryHandler (sort_key EntryMoniker) (one_dec sample_entry) False False False ''GET'' one_line None scored_file = (200, Some s')
     \<and> summary_text s \<noteq> summary_text s'"
proof -
  let ?h = "AdminSummaryHandler (sort_key EntryMoniker) (one_dec sample_entry) False False False ''GET'' one_line None"
  note e = one_line_entries [of sample_entry]
  have f: "ID sample_entry = ''a''" "EntryMoniker sample_entry = ''node''" "OperatorAddress sample_entry = ''g1''"
    by (simp_all add: sample_entry_def)
  obtain s where s: "?h None = (200, Some s)" "summary_rows s = [(''node'', ''g1'', NotYetScored)]"
    by (simp add: AdminSummaryHandler_def e FileStore_Get_def load_file_def Store_ByID_def Store_all_def summary_of_def f)
  obtain s' l where s': "?h scored_file = (200, Some s')" "summary_rows s' = [(''node'', ''g1'', l)]" "l \<noteq> NotYetScored"
    using scored_file_ok(2) auto_scored_fields
    by (simp add: AdminSummaryHandler_def e FileStore_Get_def load_file_def Store_ByID_def summary_of_def f)
  have m: "monikerCharsRe ''node''" by code_simp
  have "summary_text s = summary_text s' \<longleftrightarrow> s = s'"
    by (rule summary_unambiguous [OF s(1) s'(1) sort_key_sorts_entries sort_key_sorts_entries e _ e])
       (simp_all add: f m)
  with s s' show ?thesis by auto
qed

end
