(* ===== verification/Portal_Limit.thy ===== *)
theory Portal_Limit
  imports Go_Time
begin

text \<open>
  \<^verbatim>\<open>src/portal/limit.go\<close>: the bound on how many submissions run at once. \<open>LimitSubmissions\<close> is the wrapper around the
  submission handler as one request meets it, with the way its wait for a slot ends as an argument. What decides
  that is the other requests, so the same code is also a step relation over concurrent requests: each is in one of
  the stages of the wrapper, and \<open>sem\<close> is the number of tokens in the buffered channel. Any request may take its next step at any
  time.
\<close>

section \<open>The wrapper\<close>

text \<open>A bound that is not positive disables the limit.\<close>

definition limit_enabled :: "int \<Rightarrow> bool" where
  "limit_enabled n \<longleftrightarrow> \<not> n \<le> 0"

text \<open>
  How the \<open>select\<close> ends: the channel takes the token, the timer fires, or the client gives up. The second answers 503
  with the waiting time in whole seconds as \<open>Retry-After\<close>, the third writes nothing.
\<close>

datatype slot = SlotTaken | SlotTimeout | ClientGone

datatype 'a limited = Passed 'a | TooMany int | GaveUp

definition LimitSubmissions ::
  "int \<Rightarrow> int \<Rightarrow> slot \<Rightarrow> ('s \<Rightarrow> 'a \<times> 's) \<Rightarrow> 's \<Rightarrow> 'a limited \<times> 's" where
  "LimitSubmissions n wait sl next s =
     (if \<not> limit_enabled n then (case next s of (a, s') \<Rightarrow> (Passed a, s'))
      else case sl of
        SlotTaken \<Rightarrow> (case next s of (a, s') \<Rightarrow> (Passed a, s'))
      | SlotTimeout \<Rightarrow> (TooMany (quot wait second), s)
      | ClientGone \<Rightarrow> (GaveUp, s))"

text \<open>A request that is not passed on has changed nothing.\<close>

lemma LimitSubmissions_cases:
  assumes "LimitSubmissions n wait sl nxt s = (x, s')"
  obtains (passed) a where "nxt s = (a, s')" "x = Passed a"
  | (turned_away) "s' = s" "x = TooMany (quot wait second) \<or> x = GaveUp" "0 < n"
  using assms by (cases sl) (auto simp: LimitSubmissions_def limit_enabled_def split: if_splits prod.splits)

section \<open>Steps\<close>

datatype stage_of = Arriving | Waiting | Serving | Served | Rejected | Abandoned

record 'r limiter =
  sem :: nat
  at :: "'r \<Rightarrow> stage_of"

text \<open>
  With the limit enabled, \<open>admit\<close> is the send on the channel, possible while its buffer of \<open>n\<close> has room; \<open>time_out\<close> and
  \<open>hang_up\<close> are the other two branches of the \<open>select\<close>; \<open>finish\<close> is the return of \<open>next.ServeHTTP\<close> with the deferred receive.
  With the limit disabled the wrapper is \<open>next\<close> itself: a request goes straight in (\<open>pass\<close>) and out (\<open>pass_out\<close>).
\<close>

inductive limit_step :: "int \<Rightarrow> 'r limiter \<Rightarrow> 'r limiter \<Rightarrow> bool" for n where
  arrive: "limit_enabled n \<Longrightarrow> at s r = Arriving \<Longrightarrow> limit_step n s (s\<lparr>at := (at s)(r := Waiting)\<rparr>)"
| admit: "at s r = Waiting \<Longrightarrow> int (sem s) < n \<Longrightarrow>
    limit_step n s (s\<lparr>sem := Suc (sem s), at := (at s)(r := Serving)\<rparr>)"
| time_out: "at s r = Waiting \<Longrightarrow> limit_step n s (s\<lparr>at := (at s)(r := Rejected)\<rparr>)"
| hang_up: "at s r = Waiting \<Longrightarrow> limit_step n s (s\<lparr>at := (at s)(r := Abandoned)\<rparr>)"
| finish: "limit_enabled n \<Longrightarrow> at s r = Serving \<Longrightarrow> 0 < sem s \<Longrightarrow>
    limit_step n s (s\<lparr>sem := sem s - 1, at := (at s)(r := Served)\<rparr>)"
| pass: "\<not> limit_enabled n \<Longrightarrow> at s r = Arriving \<Longrightarrow> limit_step n s (s\<lparr>at := (at s)(r := Serving)\<rparr>)"
| pass_out: "\<not> limit_enabled n \<Longrightarrow> at s r = Serving \<Longrightarrow> limit_step n s (s\<lparr>at := (at s)(r := Served)\<rparr>)"

inductive_cases limit_stepE: "limit_step n s s'"

definition limit_start :: "'r limiter" where
  "limit_start = \<lparr>sem = 0, at = (\<lambda>_. Arriving)\<rparr>"

inductive limit_reachable :: "int \<Rightarrow> 'r limiter \<Rightarrow> bool" for n where
  start: "limit_reachable n limit_start"
| step: "limit_reachable n s \<Longrightarrow> limit_step n s s' \<Longrightarrow> limit_reachable n s'"

section \<open>Invariant\<close>

definition serving :: "'r limiter \<Rightarrow> 'r set" where
  "serving s = {r. at s r = Serving}"

definition limit_inv :: "int \<Rightarrow> 'r limiter \<Rightarrow> bool" where
  "limit_inv n s \<longleftrightarrow> finite (serving s)
     \<and> (if limit_enabled n then sem s = card (serving s) \<and> int (sem s) \<le> n
        else sem s = 0 \<and> (\<forall>r. at s r \<in> {Arriving, Serving, Served}))"

lemma mem_serving: "r \<in> serving s \<longleftrightarrow> at s r = Serving"
  by (simp add: serving_def)

lemma serving_upd:
  "serving (s\<lparr>at := (at s)(r := st)\<rparr>) = (if st = Serving then insert r (serving s) else serving s - {r})"
  "serving (s\<lparr>sem := k, at := (at s)(r := st)\<rparr>) = (if st = Serving then insert r (serving s) else serving s - {r})"
  by (auto simp: serving_def)

lemma limit_step_inv: "limit_step n s s' \<Longrightarrow> limit_inv n s \<Longrightarrow> limit_inv n s'"
proof (induction rule: limit_step.induct)
  case (admit s r)
  then have "r \<notin> serving s" "limit_enabled n" by (simp_all add: serving_def limit_enabled_def)
  with admit show ?case by (simp add: limit_inv_def serving_upd)
next
  case (finish s r)
  then have "r \<in> serving s" by (simp add: serving_def)
  with finish show ?case by (auto simp: limit_inv_def serving_upd)
next
  case (time_out s r)
  then have "limit_enabled n" by (auto simp: limit_inv_def split: if_splits dest: spec [of _ r])
  with time_out show ?case by (simp add: limit_inv_def serving_upd mem_serving)
next
  case (hang_up s r)
  then have "limit_enabled n" by (auto simp: limit_inv_def split: if_splits dest: spec [of _ r])
  with hang_up show ?case by (simp add: limit_inv_def serving_upd mem_serving)
qed (simp_all add: limit_inv_def serving_upd mem_serving)

lemma limit_reachable_inv: "limit_reachable n s \<Longrightarrow> limit_inv n s"
proof (induction rule: limit_reachable.induct)
  case start
  show ?case by (simp add: limit_inv_def limit_start_def serving_def limit_enabled_def)
qed (rule limit_step_inv)

text \<open>C24: with a positive bound \<open>n\<close>, in every state the requests can reach, in whatever order they run, at most \<open>n\<close> of
  them are inside the submission handler, and the channel holds exactly one token for each of these. With a bound that is zero or
  negative there is no limit: no request ever waits or is turned away, and one that arrives can go straight in, however
  many are inside.\<close>

theorem limit_submissions_bound:
  assumes "limit_reachable n s"
  shows "if 0 < n
     then finite {r. at s r = Serving} \<and> int (card {r. at s r = Serving}) \<le> n \<and> sem s = card {r. at s r = Serving}
     else (\<forall>r. at s r \<notin> {Waiting, Rejected, Abandoned})
        \<and> (\<forall>r. at s r = Arriving \<longrightarrow> (\<exists>s'. limit_step n s s' \<and> at s' = (at s)(r := Serving)))"
proof (cases "0 < n")
  case True
  with limit_reachable_inv [OF assms] show ?thesis by (simp add: limit_inv_def limit_enabled_def serving_def)
next
  case False
  then have off: "\<not> limit_enabled n" by (simp add: limit_enabled_def)
  have "at s r \<notin> {Waiting, Rejected, Abandoned}" for r
    using limit_reachable_inv [OF assms] off by (auto simp: limit_inv_def dest: spec [of _ r])
  moreover have "\<exists>s'. limit_step n s s' \<and> at s' = (at s)(r := Serving)" if "at s r = Arriving" for r
    using limit_step.pass [OF off that] by fastforce
  ultimately show ?thesis using False by simp
qed

text \<open>No request is stuck: one that waits can always leave, and it can enter the handler whenever fewer than \<open>n\<close>
  submissions run; one that is served can always finish, and that frees its slot.\<close>

theorem limit_submissions_progress:
  assumes "limit_reachable n s" "0 < n"
  shows "(at s r = Waiting \<longrightarrow> (\<exists>s'. limit_step n s s' \<and> at s' r = Rejected)
            \<and> (int (card {r. at s r = Serving}) < n \<longrightarrow> (\<exists>s'. limit_step n s s' \<and> at s' r = Serving)))
     \<and> (at s r = Serving \<longrightarrow> (\<exists>s'. limit_step n s s' \<and> at s' r = Served \<and> Suc (sem s') = sem s))"
proof -
  have on: "limit_enabled n" using assms(2) by (simp add: limit_enabled_def)
  have inv: "finite (serving s)" "sem s = card (serving s)"
    using limit_reachable_inv [OF assms(1)] on by (simp_all add: limit_inv_def)
  have out: "\<exists>s'. limit_step n s s' \<and> at s' r = Rejected" if "at s r = Waiting"
    using limit_step.time_out [OF that] by fastforce
  have enter: "\<exists>s'. limit_step n s s' \<and> at s' r = Serving"
    if "at s r = Waiting" "int (card {r. at s r = Serving}) < n"
    using limit_step.admit [OF that(1), of n] that(2) inv by (fastforce simp: serving_def)
  have leave: "\<exists>s'. limit_step n s s' \<and> at s' r = Served \<and> Suc (sem s') = sem s" if r: "at s r = Serving"
  proof -
    have "0 < sem s" using inv r by (auto simp: serving_def card_gt_0_iff)
    with limit_step.finish [OF on r this] show ?thesis by fastforce
  qed
  show ?thesis using out enter leave by blast
qed

text \<open>A request that was turned away never entered the handler, and stays turned away.\<close>

lemma rejected_final: "limit_step n s s' \<Longrightarrow> at s r \<in> {Rejected, Abandoned, Served} \<Longrightarrow> at s' r = at s r"
  by (erule limit_stepE) auto

section \<open>Concrete instances\<close>

text \<open>Two requests against a limit of one, the first inside and the second waiting; and one request inside without a limit.\<close>

definition one_inside :: "nat limiter" where
  "one_inside = \<lparr>sem = 1, at = (\<lambda>_. Arriving)(0 := Serving, 1 := Waiting)\<rparr>"

lemma one_inside_reachable: "limit_reachable 1 one_inside"
proof -
  let ?s1 = "limit_start\<lparr>at := (at limit_start)(0 := Waiting)\<rparr> :: nat limiter"
  let ?s2 = "?s1\<lparr>sem := Suc (sem ?s1), at := (at ?s1)(0 := Serving)\<rparr>"
  let ?s3 = "?s2\<lparr>at := (at ?s2)(1 := Waiting)\<rparr>"
  have "limit_reachable 1 ?s1"
    by (rule limit_reachable.step [OF limit_reachable.start limit_step.arrive]) (simp_all add: limit_start_def limit_enabled_def)
  then have "limit_reachable 1 ?s2"
    by (rule limit_reachable.step [OF _ limit_step.admit]) (simp_all add: limit_start_def)
  then have "limit_reachable 1 ?s3"
    by (rule limit_reachable.step [OF _ limit_step.arrive]) (simp_all add: limit_start_def limit_enabled_def)
  moreover have "?s3 = one_inside" by (simp add: one_inside_def limit_start_def fun_eq_iff)
  ultimately show ?thesis by simp
qed

definition unlimited :: "nat limiter" where
  "unlimited = \<lparr>sem = 0, at = (\<lambda>_. Arriving)(0 := Serving)\<rparr>"

lemma unlimited_reachable: "limit_reachable 0 unlimited"
proof -
  let ?s1 = "limit_start\<lparr>at := (at limit_start)(0 := Serving)\<rparr> :: nat limiter"
  have "limit_reachable 0 ?s1"
    by (rule limit_reachable.step [OF limit_reachable.start limit_step.pass]) (simp_all add: limit_start_def limit_enabled_def)
  moreover have "?s1 = unlimited" by (simp add: unlimited_def limit_start_def fun_eq_iff)
  ultimately show ?thesis by simp
qed

theorem limit_submissions_bound_witness:
  "card {r. at one_inside r = Serving} = 1 \<and> at one_inside 1 = Waiting
   \<and> (\<exists>s'. limit_step 0 unlimited s' \<and> at s' 0 = Serving \<and> at s' 1 = Serving)"
proof -
  have "card {r. at one_inside r = Serving} = 1"
    using limit_submissions_bound [OF one_inside_reachable] by (simp add: one_inside_def)
  moreover have "\<exists>s'. limit_step 0 unlimited s' \<and> at s' = (at unlimited)(1 := Serving)"
    using limit_submissions_bound [OF unlimited_reachable] by (simp add: unlimited_def)
  ultimately show ?thesis by (auto simp: one_inside_def unlimited_def)
qed

theorem limit_submissions_progress_witness:
  "\<exists>s'. limit_step 1 one_inside s' \<and> at s' 0 = Served \<and> sem s' = 0"
  using limit_submissions_progress [OF one_inside_reachable, of 0] by (auto simp: one_inside_def)

end
