(* ===== verification/Portal_Main.thy ===== *)
theory Portal_Main
  imports Rescore Portal_Summary Portal_Limit
begin

text \<open>
  \<^verbatim>\<open>src/cmd/portal/main.go\<close>: reading the configuration (the allow list, the secrets, the storage backend, the
  scanner), the routing table and the static assets, and with them the whole server: \<open>serve\<close> dispatches one request
  to the handlers of the other theories over the one state they share.
\<close>

section \<open>Configuration\<close>

text \<open>\<open>strings.Split(csv, ",")\<close>.\<close>

fun split_comma :: "string \<Rightarrow> string \<Rightarrow> string list" where
  "split_comma cur [] = [rev cur]"
| "split_comma cur (c # s) =
     (if c = CHR '','' then rev cur # split_comma [] s else split_comma (c # cur) s)"

datatype allow_error = InvalidAdmin string | NoAdmins

fun collect_admins ::
  "(string \<Rightarrow> address option) \<Rightarrow> (address \<Rightarrow> string) \<Rightarrow> string list \<Rightarrow> string list \<Rightarrow> allow_error + string list" where
  "collect_admins from_bech32 addr_str acc [] = Inr acc"
| "collect_admins from_bech32 addr_str acc (raw # raws) =
     (let addrStr = trim_space raw in
      if addrStr = [] then collect_admins from_bech32 addr_str acc raws
      else case from_bech32 addrStr of
        None \<Rightarrow> Inl (InvalidAdmin addrStr)
      | Some addr \<Rightarrow> collect_admins from_bech32 addr_str (List.insert (addr_str addr) acc) raws)"

definition parseAdminAllowlist ::
  "(string \<Rightarrow> address option) \<Rightarrow> (address \<Rightarrow> string) \<Rightarrow> string \<Rightarrow> allow_error + string list" where
  "parseAdminAllowlist from_bech32 addr_str csv =
     (case collect_admins from_bech32 addr_str [] (split_comma [] csv) of
        Inl e \<Rightarrow> Inl e
      | Inr allow \<Rightarrow> if length allow = 0 then Inl NoAdmins else Inr allow)"

text \<open>\<open>hex.DecodeString\<close>, which takes digits of either case.\<close>

definition hex_val :: "char \<Rightarrow> nat option" where
  "hex_val c =
     (let n = byte_val c in
      if 48 \<le> n \<and> n \<le> 57 then Some (n - 48)
      else if 97 \<le> n \<and> n \<le> 102 then Some (n - 87)
      else if 65 \<le> n \<and> n \<le> 70 then Some (n - 55)
      else None)"

fun decode_hex :: "string \<Rightarrow> bytes option" where
  "decode_hex [] = Some []"
| "decode_hex [c] = None"
| "decode_hex (a # b # s) =
     (case (hex_val a, hex_val b) of
        (Some x, Some y) \<Rightarrow> map_option ((#) (char_of (x * 16 + y))) (decode_hex s)
      | _ \<Rightarrow> None)"

text \<open>\<open>env\<close> is the value of the variable, empty when it is unset; \<open>rand\<close> the 32 random bytes.\<close>

definition loadOrGenerateSecret :: "string \<Rightarrow> bytes option \<Rightarrow> bytes option" where
  "loadOrGenerateSecret env rand = (if env \<noteq> [] then decode_hex env else rand)"

datatype backend = S3Backend string string string | LocalBackend string

datatype backend_error = S3Setup | MakeDir | NoStorageBackend

definition NewS3Store :: "bool \<Rightarrow> string \<Rightarrow> string \<Rightarrow> string \<Rightarrow> backend_error + backend" where
  "NewS3Store load_fails bucket region endpoint =
     (if bucket = [] then Inl S3Setup
      else if load_fails then Inl S3Setup
      else Inr (S3Backend bucket region endpoint))"

definition configureStore ::
  "bool \<Rightarrow> bool \<Rightarrow> string \<Rightarrow> string \<Rightarrow> string \<Rightarrow> string \<Rightarrow> backend_error + backend" where
  "configureStore mkdir_fails load_fails uploadDir s3Bucket s3Region s3Endpoint =
     (if s3Bucket \<noteq> [] then NewS3Store load_fails s3Bucket s3Region s3Endpoint
      else if uploadDir \<noteq> [] then (if mkdir_fails then Inl MakeDir else Inr (LocalBackend uploadDir))
      else Inl NoStorageBackend)"

text \<open>The address and the timeout of the clamd scanner, or none.\<close>

definition configureAVScanner :: "string \<Rightarrow> int \<Rightarrow> (string \<times> int) option" where
  "configureAVScanner addr timeout = (if addr = [] then None else Some (addr, timeout))"

section \<open>Routes\<close>

datatype route =
    RouteChallenge | RouteVerify | RouteAdminVerify | RouteSubmit | RouteProgress | RouteAdminPage
  | RouteSubmissions | RouteExercise | RouteScore string | RouteDelete string | RouteSummary | RouteStatic

text \<open>
  The routing table on the segments of a cleaned path. A wildcard stands for one segment that is not empty;
  a path whose pattern asks for another method falls through to the static assets.
\<close>

definition newMux :: "string \<Rightarrow> string list \<Rightarrow> route" where
  "newMux meth segs =
     (if segs = [''auth'', ''challenge''] then RouteChallenge
      else if segs = [''auth'', ''verify''] then RouteVerify
      else if segs = [''auth'', ''admin'', ''verify''] then RouteAdminVerify
      else if segs = [''submit''] then RouteSubmit
      else if segs = [''submit'', ''progress''] then RouteProgress
      else if segs = [''admin''] then RouteAdminPage
      else if segs = [''admin'', ''submissions''] then RouteSubmissions
      else if segs = [''admin'', ''exercise''] then RouteExercise
      else if segs = [''admin'', ''summary''] then RouteSummary
      else case segs of
        [a, b, i, d] \<Rightarrow>
          if a = ''admin'' \<and> b = ''submissions'' \<and> i \<noteq> [] \<and> d = ''score'' \<and> meth = ''POST'' then RouteScore i
          else RouteStatic
      | [a, b, i] \<Rightarrow>
          if a = ''admin'' \<and> b = ''submissions'' \<and> i \<noteq> [] \<and> meth = ''DELETE'' then RouteDelete i else RouteStatic
      | _ \<Rightarrow> RouteStatic)"

definition admin_data_route :: "route \<Rightarrow> bool" where
  "admin_data_route r \<longleftrightarrow>
     (case r of
        RouteSubmissions \<Rightarrow> True | RouteExercise \<Rightarrow> True | RouteScore _ \<Rightarrow> True | RouteDelete _ \<Rightarrow> True
      | RouteSummary \<Rightarrow> True | _ \<Rightarrow> False)"

section \<open>Static assets\<close>

text \<open>
  \<open>newStaticAssets\<close> hashes the files in the order of the walk and stops at the first that cannot be read
  (\<open>None\<close>); \<open>sha\<close> is SHA-256.
\<close>

definition etag_of :: "(bytes \<Rightarrow> bytes) \<Rightarrow> bytes \<Rightarrow> string" where
  "etag_of sha data = [CHR 0x22] @ encode_hex (take 16 (sha data)) @ [CHR 0x22]"

fun newStaticAssets :: "(bytes \<Rightarrow> bytes) \<Rightarrow> (string \<times> bytes option) list \<Rightarrow> (string \<rightharpoonup> string)" where
  "newStaticAssets sha [] = Map.empty"
| "newStaticAssets sha ((p, None) # fs) = Map.empty"
| "newStaticAssets sha ((p, Some data) # fs) = (newStaticAssets sha fs)(p \<mapsto> etag_of sha data)"

text \<open>The headers \<open>setValidators\<close> adds: the entity tag and the caching directive.\<close>

definition setValidators :: "(string \<rightharpoonup> string) \<Rightarrow> string \<Rightarrow> (string \<times> string) list" where
  "setValidators etags name =
     (case etags name of
        None \<Rightarrow> []
      | Some etag \<Rightarrow> [(''ETag'', etag), (''Cache-Control'', ''no-cache'')])"

text \<open>The asset a path names: \<open>path.Clean\<close> without its leading separator, the index page for the root.\<close>

definition asset_name :: "string \<Rightarrow> string" where
  "asset_name path =
     (let comps = dest_of path; name = concat (map (\<lambda>c. c @ [separator]) (butlast comps)) @ (if comps = [] then [] else last comps) in
      if name = [] then ''index.html'' else name)"

section \<open>The server\<close>

record ('s, 'k) muxDeps =
  d_handler :: "'s handler"
  d_verifier :: "'k verifier"
  d_from_bech32 :: "string \<Rightarrow> address option"
  d_marshal :: "challenge_tx \<Rightarrow> string option"
  d_ttl :: int
  d_admin_mac :: mac
  d_admin_ttl :: int
  d_allow :: "string list"
  d_dec :: decoder
  d_sort :: "entry list \<Rightarrow> entry list"
  d_delete :: "string \<Rightarrow> 's \<Rightarrow> storage_error option \<times> 's"
  d_etags :: "string \<rightharpoonup> string"
  d_files :: "string option \<Rightarrow> string \<Rightarrow> string \<Rightarrow> nat \<times> bytes"
  d_max_concurrent :: int
  d_queue_wait :: int

record climate =
  c_weather :: weather
  c_now :: gotime
  c_rand :: "bytes option"
  c_log_bad :: bool
  c_scores_bad :: bool
  c_cfg_bad :: bool
  c_cfg_disk :: "stage \<Rightarrow> bool"
  c_scores_disk :: "stage \<Rightarrow> bool"
  c_log_disk :: "stage \<Rightarrow> bool"
  c_slot :: slot

record http_request =
  hq_method :: string
  hq_path :: "string list"
  hq_auth :: string
  hq_media :: "string option"
  hq_json :: "json option"
  hq_size :: int
  hq_form :: "(string \<times> bytes) option option"

record 's server =
  nonces_of :: nonces
  portal_of :: "'s portal"

text \<open>
  \<open>NoPayload\<close> stands for an answer without a payload of the program: an empty body, or the text of an \<open>http.Error\<close> inside a
  handler, which is not modelled. \<open>RetryAfter\<close> carries the header of that name, and \<open>Unanswered\<close> is for a request whose
  client has gone: nothing is written, and the status beside it is 0.
\<close>

datatype reply =
    NoPayload
  | ErrorText string
  | Unanswered
  | RetryAfter int submitResponse
  | Challenge challengeResponse
  | Token string
  | Submission submitResponse
  | ProgressReply progress
  | Rows "admin_submission list"
  | ConfigReply config
  | ScoreReply result
  | SummaryReply string
  | Asset "(string \<times> string) list" bytes

definition reply_of :: "('a \<Rightarrow> reply) \<Rightarrow> 'a option \<Rightarrow> reply" where
  "reply_of f x = (case x of None \<Rightarrow> NoPayload | Some a \<Rightarrow> f a)"

definition json_of :: "http_request \<Rightarrow> json_request" where
  "json_of r = \<lparr>rq_method = hq_method r, rq_media = hq_media r, rq_json = hq_json r\<rparr>"

text \<open>
  The two ways to a static file, with what \<open>net/http\<close> answers as the parameter \<open>files\<close>: \<open>Some name\<close> for \<open>http.ServeFileFS\<close> of that
  file, \<open>None\<close> for \<open>http.FileServer\<close>, which goes by the path of the request.
\<close>

definition serveFile ::
  "(string \<rightharpoonup> string) \<Rightarrow> (string option \<Rightarrow> string \<Rightarrow> string \<Rightarrow> nat \<times> bytes) \<Rightarrow> string \<Rightarrow> string \<Rightarrow> string \<Rightarrow> nat \<times> reply" where
  "serveFile etags files meth path name =
     (case files (Some name) meth path of (status, content) \<Rightarrow> (status, Asset (setValidators etags name) content))"

definition assets_handler ::
  "(string \<rightharpoonup> string) \<Rightarrow> (string option \<Rightarrow> string \<Rightarrow> string \<Rightarrow> nat \<times> bytes) \<Rightarrow> string \<Rightarrow> string \<Rightarrow> nat \<times> reply" where
  "assets_handler etags files meth path =
     (case files None meth path of (status, content) \<Rightarrow> (status, Asset (setValidators etags (asset_name path)) content))"

text \<open>The path of a request from its segments.\<close>

definition url_path :: "string list \<Rightarrow> string" where
  "url_path segs = (if segs = [] then ''/'' else concat (map (\<lambda>x. ''/'' @ x) segs))"

text \<open>The handlers behind the administrators' gate, on the shared state.\<close>

definition admin_handler ::
  "('s, 'k) muxDeps \<Rightarrow> climate \<Rightarrow> route \<Rightarrow> http_request \<Rightarrow> 's portal \<Rightarrow> (nat \<times> reply option) \<times> 's portal" where
  "admin_handler d c rt r p =
     (case rt of
        RouteSubmissions \<Rightarrow>
          (case AdminSubmissionsHandler (d_dec d) (c_log_bad c) (c_scores_bad c) (hq_method r) (log_of p) (scores_of p) of
             (st, out) \<Rightarrow> ((st, map_option Rows out), p))
      | RouteExercise \<Rightarrow>
          (case ConfigHandler (c_cfg_bad c) (c_cfg_disk c) (json_of r) (exercise_file p) of
             ((st, out), cf) \<Rightarrow> ((st, map_option ConfigReply out), p\<lparr>exercise_file := cf\<rparr>))
      | RouteScore i \<Rightarrow>
          (case AdminScoreHandler (d_dec d) (c_log_bad c) (c_scores_bad c) (c_scores_disk c) i (json_of r)
                  (log_of p) (scores_of p) of
             ((st, out), sf) \<Rightarrow> ((st, map_option ScoreReply out), p\<lparr>scores_of := sf\<rparr>))
      | RouteDelete i \<Rightarrow>
          (case AdminDeleteSubmissionHandler (h_enc (d_handler d)) (d_dec d) (c_log_bad c) (c_scores_bad c)
                  (c_scores_disk c) (c_log_disk c) (d_delete d) i (archives p, scores_of p, log_of p) of
             (st, (a, sf, lf)) \<Rightarrow> ((st, None), p\<lparr>archives := a, scores_of := sf, log_of := lf\<rparr>))
      | RouteSummary \<Rightarrow>
          (case AdminSummaryHandler (d_sort d) (d_dec d) (c_log_bad c) (c_cfg_bad c) (c_scores_bad c) (hq_method r)
                  (log_of p) (exercise_file p) (scores_of p) of
             (st, out) \<Rightarrow> ((st, map_option (SummaryReply \<circ> summary_text) out), p))
      | _ \<Rightarrow> ((404, None), p))"

text \<open>\<open>RequireAdminSession\<close> around a handler, as the table registers it for each of the organisers' routes.\<close>

definition behind_gate ::
  "('s, 'k) muxDeps \<Rightarrow> climate \<Rightarrow> http_request \<Rightarrow> ('s portal \<Rightarrow> (nat \<times> reply option) \<times> 's portal)
   \<Rightarrow> 's server \<Rightarrow> (nat \<times> reply) \<times> 's server" where
  "behind_gate d c r next s =
     (case RequireAdminSession (d_admin_mac d) (addr_string (d_handler d)) (\<lambda>a. a \<in> set (d_allow d)) (c_now c) (hq_auth r)
             next (portal_of s) of
        ((st, out), p') \<Rightarrow>
          ((st, case out of Inl msg \<Rightarrow> ErrorText msg | Inr x \<Rightarrow> reply_of id x), s\<lparr>portal_of := p'\<rparr>))"

definition submit_reply :: "(nat \<times> submitResponse) limited \<Rightarrow> nat \<times> reply" where
  "submit_reply x =
     (case x of
        Passed (st, out) \<Rightarrow> (st, Submission out)
      | TooMany secs \<Rightarrow> (503, RetryAfter secs refused)
      | GaveUp \<Rightarrow> (0, Unanswered))"

definition serve ::
  "('s, 'k) muxDeps \<Rightarrow> climate \<Rightarrow> http_request \<Rightarrow> 's server \<Rightarrow> (nat \<times> reply) \<times> 's server" where
  "serve d c r s =
     (let h = d_handler d; p = portal_of s in
      case newMux (hq_method r) (hq_path r) of
        RouteChallenge \<Rightarrow>
          (case ChallengeHandler (d_from_bech32 d) (d_marshal d) (c_rand c) (c_now c) (hq_method r) (hq_json r)
                  (nonces_of s) of
             ((st, out), n) \<Rightarrow> ((st, reply_of Challenge out), s\<lparr>nonces_of := n\<rparr>))
      | RouteVerify \<Rightarrow>
          (case VerifyHandler (d_from_bech32 d) (d_verifier d) (h_mac h) (d_ttl d) (c_now c) (hq_method r) (hq_json r)
                  (nonces_of s) of
             ((st, out), n) \<Rightarrow> ((st, reply_of Token out), s\<lparr>nonces_of := n\<rparr>))
      | RouteAdminVerify \<Rightarrow>
          (case VerifyHandler (d_from_bech32 d) (d_verifier d) (d_admin_mac d) (d_admin_ttl d) (c_now c) (hq_method r)
                  (hq_json r) (nonces_of s) of
             ((st, out), n) \<Rightarrow> ((st, reply_of Token out), s\<lparr>nonces_of := n\<rparr>))
      | RouteSubmit \<Rightarrow>
          (case LimitSubmissions (d_max_concurrent d) (d_queue_wait d) (c_slot c)
                  (SubmitHandler_ServeHTTP h (c_weather c)
                     \<lparr>up_method = hq_method r, up_auth = hq_auth r, up_size = hq_size r, up_form = hq_form r\<rparr>) p of
             (out, p') \<Rightarrow> (submit_reply out, s\<lparr>portal_of := p'\<rparr>))
      | RouteProgress \<Rightarrow>
          (case ProgressHandler (h_mac h) (addr_string h) (c_now c) (hq_method r) (hq_auth r) (tracker_of p) of
             ((st, out), t) \<Rightarrow> ((st, reply_of ProgressReply out), s\<lparr>portal_of := p\<lparr>tracker_of := t\<rparr>\<rparr>))
      | RouteAdminPage \<Rightarrow> (serveFile (d_etags d) (d_files d) (hq_method r) (url_path (hq_path r)) ''admin.html'', s)
      | RouteSubmissions \<Rightarrow> behind_gate d c r (admin_handler d c RouteSubmissions r) s
      | RouteExercise \<Rightarrow> behind_gate d c r (admin_handler d c RouteExercise r) s
      | RouteScore i \<Rightarrow> behind_gate d c r (admin_handler d c (RouteScore i) r) s
      | RouteDelete i \<Rightarrow> behind_gate d c r (admin_handler d c (RouteDelete i) r) s
      | RouteSummary \<Rightarrow> behind_gate d c r (admin_handler d c RouteSummary r) s
      | RouteStatic \<Rightarrow> (assets_handler (d_etags d) (d_files d) (hq_method r) (url_path (hq_path r)), s))"

text \<open>What the routing table comes to on the two kinds of routes that have a wrapper.\<close>

lemma serve_behind_gate:
  "admin_data_route (newMux (hq_method r) (hq_path r)) \<Longrightarrow>
     serve d c r s = behind_gate d c r (admin_handler d c (newMux (hq_method r) (hq_path r)) r) s"
  by (cases "newMux (hq_method r) (hq_path r)") (simp_all add: admin_data_route_def serve_def)

definition authorised :: "('s, 'k) muxDeps \<Rightarrow> climate \<Rightarrow> http_request \<Rightarrow> bool" where
  "authorised d c r \<longleftrightarrow>
     (case RequireSession (d_admin_mac d) (c_now c) (hq_auth r) of
        Inl _ \<Rightarrow> False | Inr addr \<Rightarrow> addr_string (d_handler d) addr \<in> set (d_allow d))"

definition denial :: "('s, 'k) muxDeps \<Rightarrow> climate \<Rightarrow> http_request \<Rightarrow> nat \<times> reply" where
  "denial d c r =
     (if RequireSession (d_admin_mac d) (c_now c) (hq_auth r) = Inl ErrInvalidSession
      then (401, ErrorText ''unauthorized'') else (403, ErrorText ''forbidden''))"

lemma RequireSession_error: "RequireSession mac now hdr = Inl x \<Longrightarrow> x = ErrInvalidSession"
  by (auto simp: RequireSession_def SessionSigner_Verify_def Let_def split: sum.splits if_splits option.splits)

lemma behind_gate_authorised:
  "behind_gate d c r nxt s =
     (if authorised d c r
      then (case nxt (portal_of s) of ((st, out), p') \<Rightarrow> ((st, reply_of id out), s\<lparr>portal_of := p'\<rparr>))
      else (denial d c r, s))"
  by (cases "RequireSession (d_admin_mac d) (c_now c) (hq_auth r)"; cases "nxt (portal_of s)")
     (auto simp: behind_gate_def RequireAdminSession_def authorised_def denial_def dest: RequireSession_error split: prod.split)

lemma denial_status: "fst (denial d c r) \<in> {401, 403}" "\<exists>msg. snd (denial d c r) = ErrorText msg"
  by (simp_all add: denial_def)

lemmas serve_gated = serve_behind_gate [unfolded behind_gate_authorised]

lemma serve_submit_cases:
  assumes "serve d c r s = ((st, rep), s')" "newMux (hq_method r) (hq_path r) = RouteSubmit"
  obtains (passed) out p' where "SubmitHandler_ServeHTTP (d_handler d) (c_weather c)
      \<lparr>up_method = hq_method r, up_auth = hq_auth r, up_size = hq_size r, up_form = hq_form r\<rparr> (portal_of s) = ((st, out), p')"
      "rep = Submission out" "s' = s\<lparr>portal_of := p'\<rparr>"
  | (turned_away) "s' = s" "0 < d_max_concurrent d"
      "st = 503 \<and> rep = RetryAfter (quot (d_queue_wait d) second) refused \<or> st = 0 \<and> rep = Unanswered"
proof -
  let ?nxt = "SubmitHandler_ServeHTTP (d_handler d) (c_weather c)
      \<lparr>up_method = hq_method r, up_auth = hq_auth r, up_size = hq_size r, up_form = hq_form r\<rparr>"
  obtain x p' where x: "LimitSubmissions (d_max_concurrent d) (d_queue_wait d) (c_slot c) ?nxt (portal_of s) = (x, p')" by fastforce
  then have out: "(st, rep) = submit_reply x" "s' = s\<lparr>portal_of := p'\<rparr>"
    using assms by (simp_all add: serve_def)
  from x show thesis
  proof (cases rule: LimitSubmissions_cases)
    case (passed a)
    with out show thesis by (intro that(1) [of "snd a" p']) (auto simp: submit_reply_def split: prod.splits)
  next
    case turned_away
    with out show thesis by (intro that(2)) (auto simp: submit_reply_def)
  qed
qed

section \<open>Starting up\<close>

text \<open>The flags and the environment \<open>main\<close> reads, with what can fail underneath it.\<close>

record flags =
  fl_remote :: string
  fl_addr :: string
  fl_session_ttl :: int
  fl_admin_session_ttl :: int
  fl_upload_dir :: string
  fl_s3_bucket :: string
  fl_s3_region :: string
  fl_s3_endpoint :: string
  fl_log_path :: string
  fl_exercise_path :: string
  fl_scores_path :: string
  fl_clamav_addr :: string
  fl_clamav_timeout :: int
  fl_max_upload_size :: int
  fl_max_log_size :: int
  fl_av_scan_budget :: int
  fl_max_concurrent :: int
  fl_queue_wait :: int

definition default_flags :: flags where
  "default_flags =
     \<lparr>fl_remote = [], fl_addr = ''localhost:8080'', fl_session_ttl = 5 * minute, fl_admin_session_ttl = hour,
      fl_upload_dir = [], fl_s3_bucket = [], fl_s3_region = [], fl_s3_endpoint = [],
      fl_log_path = ''./submissions.jsonl'', fl_exercise_path = ''./exercise.json'', fl_scores_path = ''./scores.json'',
      fl_clamav_addr = [], fl_clamav_timeout = 15 * minute, fl_max_upload_size = 4294967296,
      fl_max_log_size = 4294967296, fl_av_scan_budget = DefaultScanBudget, fl_max_concurrent = 4,
      fl_queue_wait = 15 * minute\<rparr>"

record surroundings =
  env_admins :: string
  env_session_secret :: string
  env_admin_secret :: string
  rand_session :: "bytes option"
  rand_admin :: "bytes option"
  mkdir_err :: bool
  s3_err :: bool
  static_err :: bool

datatype fatal =
    RemoteRequired
  | BadAllowlist allow_error
  | StorageUnconfigured backend_error
  | NoSessionSecret
  | NoAdminSecret
  | NoStaticAssets

record boot =
  b_remote :: string
  b_allow :: "string list"
  b_backend :: backend
  b_secret :: bytes
  b_ttl :: int
  b_admin_secret :: bytes
  b_admin_ttl :: int
  b_scanner :: "(string \<times> int) option"
  b_budget :: int
  b_max_upload :: int
  b_options :: options
  b_concurrent :: int
  b_wait :: int

definition portal_main ::
  "(string \<Rightarrow> address option) \<Rightarrow> (address \<Rightarrow> string) \<Rightarrow> flags \<Rightarrow> surroundings \<Rightarrow> fatal + boot" where
  "portal_main from_bech32 addr_str f env =
     (if fl_remote f = [] then Inl RemoteRequired
      else case parseAdminAllowlist from_bech32 addr_str (env_admins env) of
        Inl e \<Rightarrow> Inl (BadAllowlist e)
      | Inr allow \<Rightarrow>
          (case configureStore (mkdir_err env) (s3_err env) (fl_upload_dir f) (fl_s3_bucket f) (fl_s3_region f)
                  (fl_s3_endpoint f) of
             Inl e \<Rightarrow> Inl (StorageUnconfigured e)
           | Inr store \<Rightarrow>
               (case loadOrGenerateSecret (env_session_secret env) (rand_session env) of
                  None \<Rightarrow> Inl NoSessionSecret
                | Some secret \<Rightarrow>
                    (case loadOrGenerateSecret (env_admin_secret env) (rand_admin env) of
                       None \<Rightarrow> Inl NoAdminSecret
                     | Some adminSecret \<Rightarrow>
                         if static_err env then Inl NoStaticAssets
                         else Inr
                           \<lparr>b_remote = fl_remote f, b_allow = allow, b_backend = store, b_secret = secret,
                            b_ttl = fl_session_ttl f, b_admin_secret = adminSecret,
                            b_admin_ttl = fl_admin_session_ttl f,
                            b_scanner = configureAVScanner (fl_clamav_addr f) (fl_clamav_timeout f),
                            b_budget = fl_av_scan_budget f, b_max_upload = fl_max_upload_size f,
                            b_options = \<lparr>MaxLogSize = fl_max_log_size f, MaxMetadataSize = 0\<rparr>,
                            b_concurrent = fl_max_concurrent f, b_wait = fl_queue_wait f\<rparr>))))"

text \<open>
  The handler \<open>submitHandlerFor\<close> wires. \<open>libs\<close> brings the library functions and the store; \<open>hmac\<close> is HMAC-SHA256
  under a secret, \<open>clamd\<close> the scanner for an address.
\<close>

definition submitHandlerFor ::
  "(bytes \<Rightarrow> mac) \<Rightarrow> (string \<times> int \<Rightarrow> scanner) \<Rightarrow> 's handler \<Rightarrow> boot \<Rightarrow> 's handler" where
  "submitHandlerFor hmac clamd libs b =
     libs\<lparr>h_mac := hmac (b_secret b), AVScanner := map_option clamd (b_scanner b), ExerciseWired := True,
          ScoresWired := True, LogWired := True, ArchiveOptions := b_options b, MaxUploadSize := b_max_upload b,
          AVScanBudget := b_budget b\<rparr>"

definition deps_of ::
  "(bytes \<Rightarrow> mac) \<Rightarrow> (string \<times> int \<Rightarrow> scanner) \<Rightarrow> ('s, 'k) muxDeps \<Rightarrow> boot \<Rightarrow> ('s, 'k) muxDeps" where
  "deps_of hmac clamd libs b =
     libs\<lparr>d_handler := submitHandlerFor hmac clamd (d_handler libs) b, d_ttl := b_ttl b,
          d_admin_mac := hmac (b_admin_secret b), d_admin_ttl := b_admin_ttl b, d_allow := b_allow b,
          d_max_concurrent := b_concurrent b, d_queue_wait := b_wait b\<rparr>"

section \<open>The development server\<close>

text \<open>
  \<^verbatim>\<open>src/cmd/portal-dev/main.go\<close>: the same login and upload handlers, over a local directory, with nothing else wired. The
  result of \<open>dev_main\<close> is the handler it serves and the lifetime of its sessions.
\<close>

datatype dev_fatal = DevRemoteRequired | DevUploadDir | DevSecret

definition dev_main ::
  "(bytes \<Rightarrow> mac) \<Rightarrow> 's handler \<Rightarrow> string \<Rightarrow> int \<Rightarrow> bool \<Rightarrow> bytes option \<Rightarrow> dev_fatal + 's handler \<times> int" where
  "dev_main hmac libs remote sessionTTL mkdir_fails rand =
     (if remote = [] then Inl DevRemoteRequired
      else if mkdir_fails then Inl DevUploadDir
      else case rand of
        None \<Rightarrow> Inl DevSecret
      | Some secret \<Rightarrow>
          Inr (libs\<lparr>h_mac := hmac secret, AVScanner := None, ExerciseWired := False, ScoresWired := False,
                    LogWired := False, ArchiveOptions := \<lparr>MaxLogSize = 0, MaxMetadataSize = 0\<rparr>,
                    MaxUploadSize := 0, AVScanBudget := 0\<rparr>, sessionTTL))"

definition dev_mux :: "string list \<Rightarrow> route option" where
  "dev_mux segs =
     (if segs = [''auth'', ''challenge''] then Some RouteChallenge
      else if segs = [''auth'', ''verify''] then Some RouteVerify
      else if segs = [''submit''] then Some RouteSubmit
      else None)"

section \<open>What a server that starts can rely on\<close>

definition pieces :: "string \<Rightarrow> string list" where
  "pieces csv = filter (\<lambda>s. s \<noteq> []) (map trim_space (split_comma [] csv))"

lemma collect_admins_Inr:
  "collect_admins from_bech32 addr_str acc raws = Inr allow \<longleftrightarrow>
     (\<forall>s\<in>set (filter (\<lambda>s. s \<noteq> []) (map trim_space raws)). from_bech32 s \<noteq> None)
     \<and> allow = fold (\<lambda>s. List.insert (addr_str (the (from_bech32 s)))) (filter (\<lambda>s. s \<noteq> []) (map trim_space raws)) acc"
  by (induction raws arbitrary: acc) (auto simp: Let_def split: option.splits)

lemma set_fold_insert: "set (fold (\<lambda>s. List.insert (f s)) xs acc) = f ` set xs \<union> set acc"
  by (induction xs arbitrary: acc) auto

lemma parseAdminAllowlist_Inr:
  assumes "parseAdminAllowlist from_bech32 addr_str csv = Inr allow"
  shows "set allow = {a. \<exists>s\<in>set (pieces csv). \<exists>addr. from_bech32 s = Some addr \<and> a = addr_str addr}"
    and "\<forall>s\<in>set (pieces csv). from_bech32 s \<noteq> None" and "allow \<noteq> []"
proof -
  have c: "collect_admins from_bech32 addr_str [] (split_comma [] csv) = Inr allow" "allow \<noteq> []"
    using assms by (auto simp: parseAdminAllowlist_def split: sum.splits if_splits)
  then show all: "\<forall>s\<in>set (pieces csv). from_bech32 s \<noteq> None" and "allow \<noteq> []"
    unfolding collect_admins_Inr pieces_def by auto
  have "set allow = (\<lambda>s. addr_str (the (from_bech32 s))) ` set (pieces csv)"
    using c(1) unfolding collect_admins_Inr pieces_def by (simp add: set_fold_insert)
  with all show "set allow = {a. \<exists>s\<in>set (pieces csv). \<exists>addr. from_bech32 s = Some addr \<and> a = addr_str addr}"
    by (auto simp: image_iff) (metis option.sel)+
qed

text \<open>A portal that starts has somebody to administer it and somewhere to store archives: its allow list is not empty and
  holds exactly the addresses configured, every one of them well formed; its backend is the bucket when one is
  named and the directory otherwise; and without a scanner address it has no scanner at all, rather than one that
  claims everything is clean.\<close>

theorem portal_main_starts:
  assumes "portal_main from_bech32 addr_str f env = Inr b"
  shows "b_allow b \<noteq> []
     \<and> set (b_allow b) = {a. \<exists>s\<in>set (pieces (env_admins env)). \<exists>addr. from_bech32 s = Some addr \<and> a = addr_str addr}
     \<and> (\<forall>s\<in>set (pieces (env_admins env)). from_bech32 s \<noteq> None)
     \<and> b_backend b = (if fl_s3_bucket f \<noteq> [] then S3Backend (fl_s3_bucket f) (fl_s3_region f) (fl_s3_endpoint f)
                      else LocalBackend (fl_upload_dir f))
     \<and> (fl_clamav_addr f = [] \<longrightarrow> AVScanner (submitHandlerFor hmac clamd libs b) = None)"
proof -
  have a: "parseAdminAllowlist from_bech32 addr_str (env_admins env) = Inr (b_allow b)"
    and s: "configureStore (mkdir_err env) (s3_err env) (fl_upload_dir f) (fl_s3_bucket f) (fl_s3_region f)
        (fl_s3_endpoint f) = Inr (b_backend b)"
    and v: "b_scanner b = configureAVScanner (fl_clamav_addr f) (fl_clamav_timeout f)"
    using assms by (auto simp: portal_main_def split: if_splits sum.splits option.splits)
  have "b_backend b = (if fl_s3_bucket f \<noteq> [] then S3Backend (fl_s3_bucket f) (fl_s3_region f) (fl_s3_endpoint f)
                      else LocalBackend (fl_upload_dir f))"
    using s by (auto simp: configureStore_def NewS3Store_def split: if_splits)
  with parseAdminAllowlist_Inr [OF a] v show ?thesis
    by (simp add: submitHandlerFor_def configureAVScanner_def)
qed

section \<open>Concrete instances\<close>

definition sample_flags :: flags where
  "sample_flags = default_flags\<lparr>fl_remote := ''rpc'', fl_upload_dir := ''up''\<rparr>"

definition sample_env :: surroundings where
  "sample_env = \<lparr>env_admins = '' g1, '', env_session_secret = ''ab'', env_admin_secret = ''ab'', rand_session = None,
     rand_admin = None, mkdir_err = False, s3_err = False, static_err = False\<rparr>"

definition sample_boot :: boot where
  "sample_boot =
     \<lparr>b_remote = ''rpc'', b_allow = [''g1''], b_backend = LocalBackend ''up'', b_secret = [CHR 0xAB], b_ttl = 5 * minute,
      b_admin_secret = [CHR 0xAB], b_admin_ttl = hour, b_scanner = None, b_budget = DefaultScanBudget,
      b_max_upload = 4294967296, b_options = \<lparr>MaxLogSize = 4294967296, MaxMetadataSize = 0\<rparr>, b_concurrent = 4,
      b_wait = 15 * minute\<rparr>"

lemma sample_boots: "portal_main (\<lambda>_. Some sample_address) (\<lambda>_. ''g1'') sample_flags sample_env = Inr sample_boot"
  by code_simp

theorem portal_main_starts_witness:
  "b_allow sample_boot \<noteq> [] \<and> AVScanner (submitHandlerFor (\<lambda>_. sample_mac (CHR ''k'')) (\<lambda>_ _. finds_x) sample_handler sample_boot) = None"
  using portal_main_starts [OF sample_boots, of "\<lambda>_. sample_mac (CHR ''k'')" "\<lambda>_ _. finds_x" sample_handler]
  by (simp add: sample_flags_def default_flags_def)

end
