(* ===== verification/Registry.thy ===== *)
theory Registry
  imports Portal_Main
begin

text \<open>
  What the whole server is for, as one abstract machine: a registry of submissions, with the score, the archive and the
  settings that belong to them, and five things that can happen to it. The server of \<^verbatim>\<open>src/cmd/portal/main.go\<close>, with the local
  directory as its store and no faults underneath, refines it request by request: one answer stands for at most one
  action, and what a reading route shows is what the registry holds.
\<close>

section \<open>The registry\<close>

record registry =
  submissions :: "entry list"
  score_of :: "string \<rightharpoonup> result"
  archive_of :: "string \<rightharpoonup> bytes"
  settings :: config

datatype action =
    Idle
  | Accept entry "result option" bytes
  | Grade string int
  | Withdraw string
  | Arrange config

definition empty_registry :: registry where
  "empty_registry = \<lparr>submissions = [], score_of = Map.empty, archive_of = Map.empty, settings = zero_config\<rparr>"

text \<open>
  An action and the guard it is subject to. A submission needs a file name that is free and brings a score of its own or
  none; only an automatically scored submission is graded, within the points of the criterion; a withdrawal takes all
  entries of the identifier and the archive of the first; settings have to be valid.
\<close>

fun perform :: "action \<Rightarrow> registry \<Rightarrow> registry option" where
  "perform Idle R = Some R"
| "perform (Accept e r data) R =
     (if archive_of R (Filename e) \<noteq> None \<or> (\<exists>x. r = Some x \<and> SubmissionID x \<noteq> ID e) then None
      else Some (R\<lparr>submissions := submissions R @ [e],
                   score_of := (case r of None \<Rightarrow> score_of R | Some x \<Rightarrow> (score_of R)(ID e \<mapsto> x)),
                   archive_of := (archive_of R)(Filename e \<mapsto> data)\<rparr>))"
| "perform (Grade i n) R =
     (case score_of R i of
        None \<Rightarrow> None
      | Some x \<Rightarrow>
          if Scored x \<and> 0 \<le> n \<and> n \<le> 25 \<and> i \<in> ID ` set (submissions R)
          then Some (R\<lparr>score_of := (score_of R)(i \<mapsto> x\<lparr>IncidentScore := Some n\<rparr>)\<rparr>) else None)"
| "perform (Withdraw i) R =
     (case find (\<lambda>e. ID e = i) (submissions R) of
        None \<Rightarrow> None
      | Some e \<Rightarrow> Some (R\<lparr>submissions := filter (\<lambda>e. ID e \<noteq> i) (submissions R), score_of := (score_of R)(i := None),
                          archive_of := (archive_of R)(Filename e := None)\<rparr>))"
| "perform (Arrange cfg) R = (if Validate cfg = None then Some (R\<lparr>settings := cfg\<rparr>) else None)"

text \<open>What the reading routes show of a registry.\<close>

definition registry_row :: "registry \<Rightarrow> entry \<Rightarrow> admin_submission" where
  "registry_row R e =
     (case score_of R (ID e) of
        Some x \<Rightarrow> if Scored x then \<lparr>row_entry = e, row_score = Some x, row_total = TotalScore x, row_pending = Pending x\<rparr>
                  else \<lparr>row_entry = e, row_score = Some x, row_total = 0, row_pending = True\<rparr>
      | None \<Rightarrow> \<lparr>row_entry = e, row_score = None, row_total = 0, row_pending = True\<rparr>)"

text \<open>The action an answer stands for, by route, method and status.\<close>

definition explains :: "route \<Rightarrow> string \<Rightarrow> nat \<Rightarrow> action \<Rightarrow> bool" where
  "explains rt meth st a \<longleftrightarrow>
     (case rt of
        RouteSubmit \<Rightarrow> (if st = 200 then \<exists>e r data. a = Accept e r data else a = Idle)
      | RouteScore i \<Rightarrow> (if st = 200 then \<exists>n. a = Grade i n else a = Idle)
      | RouteDelete i \<Rightarrow> (if st = 204 then a = Withdraw i else a = Idle)
      | RouteExercise \<Rightarrow> (if st = 200 \<and> meth = ''POST'' then \<exists>cfg. a = Arrange cfg else a = Idle)
      | _ \<Rightarrow> a = Idle)"

definition shows_registry :: "(entry list \<Rightarrow> entry list) \<Rightarrow> reply \<Rightarrow> registry \<Rightarrow> bool" where
  "shows_registry srt rep R \<longleftrightarrow>
     (case rep of
        Rows rows \<Rightarrow> rows = map (registry_row R) (submissions R)
      | ConfigReply cfg \<Rightarrow> cfg = settings R
      | ScoreReply x \<Rightarrow> score_of R (SubmissionID x) = Some x
      | SummaryReply text \<Rightarrow>
          (\<exists>m. map_of m = score_of R
             \<and> text = summary_text
                 \<lparr>participation = length (submissions R), summary_rows = map (summary_of m) (srt (submissions R)),
                  observations = (if Observations (settings R) \<noteq> [] then Some (Observations (settings R)) else None)\<rparr>)
      | _ \<Rightarrow> True)"

section \<open>Its invariant\<close>

text \<open>No two submissions share a file name, each has its archive, and no score is left without its submission.\<close>

definition registry_ok :: "registry \<Rightarrow> bool" where
  "registry_ok R \<longleftrightarrow>
     distinct (map Filename (submissions R)) \<and> (\<forall>e\<in>set (submissions R). archive_of R (Filename e) \<noteq> None)
     \<and> (\<forall>i x. score_of R i = Some x \<longrightarrow> i \<in> ID ` set (submissions R))"

lemma registry_ok_empty: "registry_ok empty_registry"
  by (simp add: registry_ok_def empty_registry_def)

lemma perform_ok:
  assumes "perform a R = Some R'" "registry_ok R"
  shows "registry_ok R'"
proof (cases a)
  case (Withdraw i)
  with assms(1) obtain e where e: "find (\<lambda>e. ID e = i) (submissions R) = Some e"
    and R': "R' = R\<lparr>submissions := filter (\<lambda>e. ID e \<noteq> i) (submissions R), score_of := (score_of R)(i := None),
       archive_of := (archive_of R)(Filename e := None)\<rparr>" by (auto split: option.splits)
  have "Filename x \<noteq> Filename e" if "x \<in> set (submissions R)" "ID x \<noteq> i" for x
    using that e assms(2) by (auto simp: registry_ok_def distinct_map find_Some_iff dest: inj_onD)
  with assms(2) show ?thesis by (fastforce simp: R' registry_ok_def distinct_map intro: inj_on_subset)
next
  case (Accept e r data)
  with assms have "Filename e \<notin> Filename ` set (submissions R)" by (force simp: registry_ok_def split: if_splits)
  with Accept assms show ?thesis by (auto simp: registry_ok_def split: if_splits option.splits)
qed (use assms in \<open>auto simp: registry_ok_def split: if_splits option.splits\<close>)

section \<open>How the server realises it\<close>

text \<open>The files of the server and the registry they stand for.\<close>

definition realises :: "encoder \<Rightarrow> decoder \<Rightarrow> upload_dir portal \<Rightarrow> registry \<Rightarrow> bool" where
  "realises enc dec p R \<longleftrightarrow>
     represents enc dec (log_of p) (submissions R)
     \<and> scores_file_ok (scores_of p)
     \<and> (\<exists>m. Store_all False (scores_of p) = Inr m \<and> scores_encodable m \<and> map_of m = score_of R)
     \<and> FileStore_Get False (exercise_file p) = Inr (settings R)
     \<and> local_content (archives p) = archive_of R"

text \<open>No faults underneath, and the server as it is wired on a local directory.\<close>

definition calm_weather :: "weather \<Rightarrow> bool" where
  "calm_weather w \<longleftrightarrow>
     \<not> cfg_unreadable w \<and> \<not> scores_unreadable w \<and> scores_disk w = (\<lambda>_. False)
     \<and> log_faults w = \<lparr>open_err = False, written = None\<rparr>"

definition calm :: "climate \<Rightarrow> bool" where
  "calm c \<longleftrightarrow>
     calm_weather (c_weather c) \<and> \<not> c_log_bad c \<and> \<not> c_scores_bad c \<and> \<not> c_cfg_bad c
     \<and> c_cfg_disk c = (\<lambda>_. False) \<and> c_scores_disk c = (\<lambda>_. False) \<and> c_log_disk c = (\<lambda>_. False)"

definition on_disk :: "(upload_dir, 'k) muxDeps \<Rightarrow> bool" where
  "on_disk d \<longleftrightarrow>
     save (d_handler d) = (\<lambda>k src sz. LocalStore_Save no_faults k src) \<and> d_delete d = LocalStore_Delete no_faults
     \<and> LogWired (d_handler d)"

text \<open>The codec of the log handles the entry an upload leaves, if it leaves one.\<close>

definition logs_lawfully :: "upload_dir handler \<Rightarrow> decoder \<Rightarrow> weather \<Rightarrow> upload_request \<Rightarrow> bool" where
  "logs_lawfully h dec w u \<longleftrightarrow>
     (\<forall>addr fname data au i. RequireSession (h_mac h) (t_auth w) (up_auth u) = Inr addr
        \<and> up_form u = Some (Some (fname, data)) \<and> upload_ok h w addr fname data au
        \<and> NewSubmissionID (id_rand w) = Some i
        \<longrightarrow> lawful (h_enc h) dec (submission_entry h w addr i fname au))"

lemma realises_cong:
  assumes "realises enc dec p R" "archives p' = archives p" "scores_of p' = scores_of p" "log_of p' = log_of p"
    "exercise_file p' = exercise_file p"
  shows "realises enc dec p' R"
  using assms by (simp add: realises_def)

lemma realisesE:
  assumes "realises enc dec p R"
  obtains m where "represents enc dec (log_of p) (submissions R)" "scores_file_ok (scores_of p)"
    "Store_all False (scores_of p) = Inr m" "scores_encodable m" "map_of m = score_of R"
    "FileStore_Get False (exercise_file p) = Inr (settings R)" "local_content (archives p) = archive_of R"
    "FileLog_Entries dec False (log_of p) = Inr (submissions R)"
    "\<And>i. Store_Get False i (scores_of p) = Inr (score_of R i)"
proof -
  obtain m where m: "Store_all False (scores_of p) = Inr m" "scores_encodable m" "map_of m = score_of R"
    using assms by (auto simp: realises_def)
  show thesis
    by (rule that [OF _ _ m]) (use assms m represents_entries in \<open>auto simp: realises_def FileLog_Entries_def Store_Get_def\<close>)
qed

lemma encodable_update:
  assumes "scores_encodable m" "result_encodable r"
  shows "scores_encodable (AList.update k r m)"
proof -
  have "set (AList.update k r m) \<subseteq> insert (k, r) (set m)" by (induction m) auto
  with assms show ?thesis unfolding scores_encodable_def list_all_iff by fastforce
qed

lemma encodable_delete: "scores_encodable m \<Longrightarrow> scores_encodable (AList.delete k m)"
  unfolding scores_encodable_def list_all_iff by (auto simp: AList.delete_eq)

text \<open>Without faults a record is filed, or cannot be encoded and the file stays.\<close>

lemma calm_Set:
  assumes "Store_all False f = Inr m" "scores_encodable m"
  shows "Store_Set False (\<lambda>_. False) r f =
    (if result_encodable r then (None, Some (Doc (AList.update (SubmissionID r) r m))) else (Some MarshalError, f))"
proof (cases "result_encodable r")
  case True
  then show ?thesis
    using assms encodable_update by (simp add: Store_Set_def Store_save_def save_file_cases fails_def fails_early_def)
next
  case False
  with Store_Set_unencodable [OF this, where u = False and d = "\<lambda>_. False" and f = f] assms show ?thesis
    by (simp add: prod_eq_iff)
qed

lemma calm_Delete:
  assumes "Store_all False f = Inr m" "scores_encodable m"
  shows "\<exists>f' m'. Store_Delete False (\<lambda>_. False) i f = (None, f') \<and> Store_all False f' = Inr m' \<and> scores_encodable m'
    \<and> map_of m' = (map_of m)(i := None)"
proof (cases "map_of m i = None")
  case True
  then have "map_of m = (map_of m)(i := None)" by auto
  with True assms show ?thesis by (auto simp: Store_Delete_def)
next
  case False
  have "map_of (AList.delete i m) = (map_of m)(i := None)" by auto
  with False assms encodable_delete show ?thesis
    by (auto simp: Store_Delete_def Store_save_def save_file_cases fails_def fails_early_def Store_all_def load_file_def)
qed

lemma calm_Save:
  "LocalStore_Save no_faults k (whole data) a = (x, a') \<Longrightarrow>
     (x = None \<longrightarrow> local_content a k = None \<and> local_content a' = (local_content a)(k \<mapsto> data)) \<and> (x \<noteq> None \<longrightarrow> a' = a)"
  by (auto simp: LocalStore_Save_def local_content_def no_faults_def whole_def Let_def intro!: ext split: if_splits)

lemma calm_Remove:
  "LocalStore_Delete no_faults k a = (None, a') \<Longrightarrow> local_content a' = (local_content a)(k := None)"
  "LocalStore_Delete no_faults k a = (Some x, a') \<Longrightarrow> a' = a"
  by (auto simp: LocalStore_Delete_def local_content_def no_faults_def intro!: ext split: if_splits)

section \<open>One operation at a time\<close>

lemma record_realises:
  assumes "realises enc dec p R" "lawful enc dec e"
  shows "represents enc dec (snd (FileLog_Record enc \<lparr>open_err = False, written = None\<rparr> e (log_of p))) (submissions R @ [e])"
proof -
  obtain f where f: "FileLog_Record enc \<lparr>open_err = False, written = None\<rparr> e (log_of p) = (None, f)"
    using assms(2) by (auto simp: FileLog_Record_def lawful_def Let_def split: option.splits)
  with assms show ?thesis by (auto simp: realises_def intro: Record_represents)
qed

text \<open>The score an accepted upload leaves: one under its identifier, or none.\<close>

lemma score_realises:
  assumes "realises enc dec p R" "calm_weather w"
  obtains r where "\<And>x. r = Some x \<Longrightarrow> SubmissionID x = i"
    "scores_file_ok (scores_of (score_step h w i au data p))"
    "\<exists>m. Store_all False (scores_of (score_step h w i au data p)) = Inr m \<and> scores_encodable m
       \<and> map_of m = (case r of None \<Rightarrow> score_of R | Some x \<Rightarrow> (score_of R)(i \<mapsto> x))"
proof (rule realisesE [OF assms(1)])
  fix m assume m: "scores_file_ok (scores_of p)" "Store_all False (scores_of p) = Inr m" "scores_encodable m"
    "map_of m = score_of R" "FileStore_Get False (exercise_file p) = Inr (settings R)"
  let ?x = "score_record h w i au data (settings R)"
  have ok: "scores_file_ok (snd (Store_Set False (\<lambda>_. False) ?x (scores_of p)))"
    by (intro Store_Set_ok m(1) score_record_ok(1))
  have up: "map_of (AList.update i ?x m) = (score_of R)(i \<mapsto> ?x)" by (simp add: m(4) [symmetric] fun_eq_iff)
  show thesis
  proof (cases "ExerciseWired h \<and> ScoresWired h \<and> result_encodable ?x")
    case True
    then have "scores_of (score_step h w i au data p) = Some (Doc (AList.update i ?x m))"
      using assms(2) m(5) calm_Set [OF m(2,3), of ?x] by (simp add: score_step_def calm_weather_def score_record_ok(2))
    moreover have "scores_encodable (AList.update i ?x m)" using encodable_update [OF m(3), of ?x] True by simp
    ultimately show thesis
      using that [of "Some ?x"] up ok calm_Set [OF m(2,3), of ?x] True score_record_ok(2) [of h w i]
      by (simp add: Store_all_def load_file_def)
  next
    case False
    then have "scores_of (score_step h w i au data p) = scores_of p"
      using assms(2) m(5) calm_Set [OF m(2,3), of ?x] by (simp add: score_step_def calm_weather_def)
    with that [of None] m show thesis by simp
  qed
qed

lemma submit_realises:
  assumes "realises (h_enc h) dec p R" "calm_weather w" "save h = (\<lambda>k src sz. LocalStore_Save no_faults k src)" "LogWired h"
    and "logs_lawfully h dec w u" "SubmitHandler_ServeHTTP h w u p = ((st, resp), p')"
  shows "\<exists>a R'. perform a R = Some R' \<and> realises (h_enc h) dec p' R' \<and> explains RouteSubmit meth st a"
proof -
  have idle: ?thesis if "st \<noteq> 200" "archives p' = archives p" "scores_of p' = scores_of p" "log_of p' = log_of p"
    "exercise_file p' = exercise_file p"
    using that realises_cong [OF assms(1)] by (intro exI [of _ Idle] exI [of _ R]) (simp add: explains_def)
  from assms(6) show ?thesis
  proof (cases rule: ServeHTTP_cases)
    case refused
    with idle show ?thesis by auto
  next
    case (passed addr fname data au ps q)
    from passed(6) show ?thesis
    proof (cases rule: keep_upload_cases)
      case early
      with idle passed show ?thesis by simp
    next
      case (unsaved e a)
      with calm_Save [of fname data "archives p" "Some e" a] idle passed assms(3) show ?thesis by simp
    next
      case (kept i a)
      let ?e = "submission_entry h w addr i fname au" and ?p = "p\<lparr>archives := a\<rparr>"
      have e: "ID ?e = i" "Filename ?e = fname" by (simp_all add: submission_entry_def)
      have lawful: "lawful (h_enc h) dec ?e"
        using assms(5) passed(3-5) kept(3) unfolding logs_lawfully_def by blast
      have a: "local_content (archives p) fname = None" "local_content a = (local_content (archives p))(fname \<mapsto> data)"
        using calm_Save [of fname data "archives p" None a] kept(4) assms(3) by simp_all
      have arch: "archive_of R = local_content (archives p)" using assms(1) by (simp add: realises_def)
      obtain r where r: "\<And>x. r = Some x \<Longrightarrow> SubmissionID x = i"
        "scores_file_ok (scores_of (score_step h w i au data p))"
        "\<exists>m. Store_all False (scores_of (score_step h w i au data p)) = Inr m \<and> scores_encodable m
           \<and> map_of m = (case r of None \<Rightarrow> score_of R | Some x \<Rightarrow> (score_of R)(i \<mapsto> x))"
        using score_realises [OF assms(1,2)] by blast
      have same: "scores_of (score_step h w i au data ?p) = scores_of (score_step h w i au data p)"
        by (auto simp: score_step_def split: sum.split)
      let ?R = "R\<lparr>submissions := submissions R @ [?e],
         score_of := (case r of None \<Rightarrow> score_of R | Some x \<Rightarrow> (score_of R)(i \<mapsto> x)),
         archive_of := (archive_of R)(fname \<mapsto> data)\<rparr>"
      have "perform (Accept ?e r data) R = Some ?R" using a(1) arch r(1) e by (auto split: option.split)
      moreover have "realises (h_enc h) dec p' ?R"
        unfolding realises_def
        using passed(7-10) kept(6) assms(1,2,4) a(2) arch r(2,3) same record_realises [OF assms(1) lawful]
        by (simp add: log_step_def calm_weather_def realises_def)
      moreover have "explains RouteSubmit meth st (Accept ?e r data)" using kept(1) by (simp add: explains_def)
      ultimately show ?thesis by blast
    qed
  qed
qed

lemma score_handler_realises:
  assumes "realises enc dec p R" "AdminScoreHandler dec False False (\<lambda>_. False) i r (log_of p) (scores_of p) = ((st, out), sf)"
  shows "\<exists>a R'. perform a R = Some R' \<and> realises enc dec (p\<lparr>scores_of := sf\<rparr>) R' \<and> explains (RouteScore i) meth st a
     \<and> (case out of None \<Rightarrow> True | Some x \<Rightarrow> shows_registry srt (ScoreReply x) R')"
proof (rule realisesE [OF assms(1)])
  fix m assume m: "scores_file_ok (scores_of p)" "Store_all False (scores_of p) = Inr m" "scores_encodable m"
    "map_of m = score_of R" "FileLog_Entries dec False (log_of p) = Inr (submissions R)"
    "\<And>i. Store_Get False i (scores_of p) = Inr (score_of R i)"
  from assms(2) show ?thesis
  proof (cases rule: AdminScore_cases)
    case refused
    with assms(1) show ?thesis by (intro exI [of _ Idle] exI [of _ R]) (simp add: explains_def)
  next
    case (set irq res x)
    let ?r = "res\<lparr>SubmissionID := i, IncidentScore := Some irq\<rparr>"
    have res: "score_of R i = Some res" "SubmissionID res = i" "result_ok res"
      using set(3) m(6) Store_Get_ok [OF m(1) set(3)] by simp_all
    have "result_encodable res"
      using m(3) res(1) m(4) [symmetric] by (auto simp: scores_encodable_def list_all_iff dest!: map_of_SomeD)
    then have enc: "result_encodable ?r" by (simp add: result_encodable_def)
    have sf: "x = None" "sf = Some (Doc (AList.update i ?r m))" using set(6) calm_Set [OF m(2,3), of ?r] enc by simp_all
    have "result_ok ?r" using res(3) set(1,2,4) by (simp add: result_ok_def)
    then have ok: "scores_file_ok sf" using Store_Set_ok [OF m(1), of ?r False "\<lambda>_. False"] set(6) by simp
    let ?R = "R\<lparr>score_of := (score_of R)(i \<mapsto> ?r)\<rparr>"
    have up: "map_of (AList.update i ?r m) = (score_of R)(i \<mapsto> ?r)" by (simp add: m(4) [symmetric] fun_eq_iff)
    have "res\<lparr>SubmissionID := i\<rparr> = res" using res(2) by (cases res) simp
    then have "?r = res\<lparr>IncidentScore := Some irq\<rparr>" by simp
    moreover have "i \<in> ID ` set (submissions R)" using set(5) m(5) by auto
    ultimately have "perform (Grade i irq) R = Some ?R" using res(1) set(1,2,4) by simp
    moreover have "realises enc dec (p\<lparr>scores_of := sf\<rparr>) ?R"
      using assms(1) ok up sf(2) encodable_update [OF m(3) enc] by (simp add: realises_def Store_all_def load_file_def)
    moreover have "explains (RouteScore i) meth st (Grade i irq)" using set(7) sf(1) by (simp add: explains_def)
    moreover have "case out of None \<Rightarrow> True | Some x \<Rightarrow> shows_registry srt (ScoreReply x) ?R"
      using set(8) by (simp add: shows_registry_def split: option.split)
    ultimately show ?thesis by blast
  qed
qed

lemma delete_handler_realises:
  assumes "realises enc dec p R"
    and "AdminDeleteSubmissionHandler enc dec False False (\<lambda>_. False) (\<lambda>_. False) (LocalStore_Delete no_faults) i
           (archives p, scores_of p, log_of p) = (st, (a, sf, lf))"
  shows "\<exists>x R'. perform x R = Some R' \<and> realises enc dec (p\<lparr>archives := a, scores_of := sf, log_of := lf\<rparr>) R'
     \<and> explains (RouteDelete i) meth st x"
proof (rule realisesE [OF assms(1)])
  fix m assume m: "represents enc dec (log_of p) (submissions R)" "scores_file_ok (scores_of p)"
    "Store_all False (scores_of p) = Inr m" "scores_encodable m" "map_of m = score_of R"
    "FileLog_Entries dec False (log_of p) = Inr (submissions R)" "local_content (archives p) = archive_of R"
  have idle: ?thesis if "st \<noteq> 204" "a = archives p" "sf = scores_of p" "lf = log_of p"
    using that assms(1) by (intro exI [of _ Idle] exI [of _ R]) (simp add: explains_def realises_def)
  show ?thesis
  proof (cases "i = [] \<or> find (\<lambda>e. ID e = i) (submissions R) = None")
    case True
    with assms(2) m(6) show ?thesis by (intro idle) (auto simp: AdminDeleteSubmissionHandler_def split: if_splits)
  next
    case False
    then obtain e where e: "find (\<lambda>e. ID e = i) (submissions R) = Some e" "i \<noteq> []" by auto
    obtain x a1 where d: "LocalStore_Delete no_faults (Filename e) (archives p) = (x, a1)" by fastforce
    show ?thesis
    proof (cases x)
      case (Some y)
      with assms(2) m(6) e d calm_Remove(2) [of "Filename e" "archives p" y a1] idle show ?thesis
        by (simp add: AdminDeleteSubmissionHandler_def)
    next
      case None
      obtain sf1 m1 where s: "Store_Delete False (\<lambda>_. False) i (scores_of p) = (None, sf1)" "Store_all False sf1 = Inr m1"
        "scores_encodable m1" "map_of m1 = (map_of m)(i := None)"
        using calm_Delete [OF m(3,4)] by blast
      let ?es = "filter (\<lambda>e. ID e \<noteq> i) (submissions R)"
      obtain b y lf1 where l: "FileLog_Delete enc dec False (\<lambda>_. False) i (log_of p) = ((b, y), lf1)" by (metis prod.collapse)
      have "list_all (lawful enc dec) ?es" using m(1) by (simp add: represents_def filter_lawful)
      then obtain buf where "marshal_entries enc ?es = Some buf" using marshal_lawful by blast
      then have y: "y = None"
        using l m(6) by (auto simp: FileLog_Delete_def FileLog_Entries_def Let_def replace_content_eq fails_def fails_early_def split: if_splits)
      then have lf: "represents enc dec lf1 ?es" using Delete_represents(1) [OF m(1) l] by blast
      have out: "st = 204" "a = a1" "sf = sf1" "lf = lf1"
        using assms(2) m(6) e d None s(1) l y by (simp_all add: AdminDeleteSubmissionHandler_def)
      let ?R = "R\<lparr>submissions := ?es, score_of := (score_of R)(i := None), archive_of := (archive_of R)(Filename e := None)\<rparr>"
      have "perform (Withdraw i) R = Some ?R" using e by simp
      moreover have "realises enc dec (p\<lparr>archives := a, scores_of := sf, log_of := lf\<rparr>) ?R"
        using out lf s m(5,7) calm_Remove(1) [of "Filename e" "archives p" a1] d None assms(1)
          Store_Delete_ok [OF m(2), of False "\<lambda>_. False" i]
        by (simp add: realises_def)
      moreover have "explains (RouteDelete i) meth st (Withdraw i)" using out(1) by (simp add: explains_def)
      ultimately show ?thesis by blast
    qed
  qed
qed

lemma config_handler_realises:
  assumes "realises enc dec p R" "ConfigHandler False (\<lambda>_. False) j (exercise_file p) = ((st, out), cf)"
  shows "\<exists>a R'. perform a R = Some R' \<and> realises enc dec (p\<lparr>exercise_file := cf\<rparr>) R' \<and> explains RouteExercise (rq_method j) st a
     \<and> (case out of None \<Rightarrow> True | Some cfg \<Rightarrow> shows_registry srt (ConfigReply cfg) R')"
proof -
  have get: "FileStore_Get False (exercise_file p) = Inr (settings R)" using assms(1) by (simp add: realises_def)
  have idle: ?thesis if "\<not> (st = 200 \<and> rq_method j = ''POST'')" "cf = exercise_file p" "out = None \<or> out = Some (settings R)"
    using that assms(1) by (intro exI [of _ Idle] exI [of _ R]) (auto simp: explains_def realises_def shows_registry_def)
  show ?thesis
  proof (cases "rq_method j = ''POST'' \<and> st = 200")
    case True
    with assms(2) obtain cfg where c: "out = Some cfg" "FileStore_Set (\<lambda>_. False) cfg (exercise_file p) = (None, cf)"
      by (auto simp: ConfigHandler_def split: if_splits option.splits sum.splits prod.splits set_error.splits)
    then have v: "Validate cfg = None" "cf = Some (Doc cfg)"
      by (auto simp: FileStore_Set_def save_file_cases fails_def fails_early_def split: option.splits if_splits)
    with assms(1) c True show ?thesis
      by (intro exI [of _ "Arrange cfg"] exI [of _ "R\<lparr>settings := cfg\<rparr>"])
         (simp add: realises_def explains_def shows_registry_def FileStore_Get_def load_file_def)
  next
    case False
    with assms(2) get have "cf = exercise_file p \<and> (out = None \<or> out = Some (settings R))"
      by (auto simp: ConfigHandler_def FileStore_Set_def save_file_cases fails_def
          split: if_splits option.splits sum.splits prod.splits set_error.splits)
    with False idle show ?thesis by blast
  qed
qed

section \<open>One request at a time\<close>

definition up_request :: "http_request \<Rightarrow> upload_request" where
  "up_request r = \<lparr>up_method = hq_method r, up_auth = hq_auth r, up_size = hq_size r, up_form = hq_form r\<rparr>"

definition stands_for :: "(upload_dir, 'k) muxDeps \<Rightarrow> upload_dir server \<Rightarrow> registry \<Rightarrow> bool" where
  "stands_for d s R \<longleftrightarrow> realises (h_enc (d_handler d)) (d_dec d) (portal_of s) R"

text \<open>A calm request: no faults, and an entry the log's codec can handle if there is one.\<close>

definition calm_request :: "(upload_dir, 'k) muxDeps \<Rightarrow> climate \<Rightarrow> http_request \<Rightarrow> bool" where
  "calm_request d c r \<longleftrightarrow> calm c \<and> logs_lawfully (d_handler d) (d_dec d) (c_weather c) (up_request r)"

lemma admin_row_registry: "map_of m = score_of R \<Longrightarrow> admin_row m e = registry_row R e"
  by (auto simp: admin_row_def registry_row_def split: option.split)

lemma admin_handler_realises:
  assumes "realises (h_enc (d_handler d)) (d_dec d) p R" "calm c" "on_disk d" "admin_data_route rt"
    and "admin_handler d c rt r p = ((st, out), p')"
  shows "\<exists>a R'. perform a R = Some R' \<and> realises (h_enc (d_handler d)) (d_dec d) p' R' \<and> explains rt (hq_method r) st a
     \<and> shows_registry (d_sort d) (reply_of id out) R'"
proof -
  let ?enc = "h_enc (d_handler d)" and ?dec = "d_dec d"
  have idle: ?thesis if "p' = p" "explains rt (hq_method r) st Idle" "shows_registry (d_sort d) (reply_of id out) R"
    using that assms(1) by (intro exI [of _ Idle] exI [of _ R]) simp
  show ?thesis
  proof (cases rt)
    case RouteSubmissions
    obtain m where "Store_all False (scores_of p) = Inr m" "map_of m = score_of R"
      "FileLog_Entries ?dec False (log_of p) = Inr (submissions R)"
      using realisesE [OF assms(1)] by metis
    with RouteSubmissions assms(2,5) admin_row_registry show ?thesis
      by (intro idle) (auto simp: admin_handler_def AdminSubmissionsHandler_def Store_ByID_def calm_def explains_def
          shows_registry_def reply_of_def split: if_splits)
  next
    case RouteExercise
    obtain st0 o0 cf where c: "ConfigHandler False (\<lambda>_. False) (json_of r) (exercise_file p) = ((st0, o0), cf)" by (metis prod.collapse)
    then have "st0 = st" "out = map_option ConfigReply o0" "p' = p\<lparr>exercise_file := cf\<rparr>"
      using RouteExercise assms(2,5) by (simp_all add: admin_handler_def calm_def)
    with config_handler_realises [OF assms(1) c] RouteExercise show ?thesis
      by (cases o0) (auto simp: json_of_def reply_of_def shows_registry_def)
  next
    case (RouteScore i)
    obtain st0 o0 sf where c: "AdminScoreHandler ?dec False False (\<lambda>_. False) i (json_of r) (log_of p) (scores_of p) = ((st0, o0), sf)"
      by (metis prod.collapse)
    then have "st0 = st" "out = map_option ScoreReply o0" "p' = p\<lparr>scores_of := sf\<rparr>"
      using RouteScore assms(2,5) by (simp_all add: admin_handler_def calm_def)
    with score_handler_realises [OF assms(1) c] RouteScore show ?thesis
      by (cases o0) (auto simp: reply_of_def shows_registry_def)
  next
    case (RouteDelete i)
    obtain st0 a sf lf where c: "AdminDeleteSubmissionHandler ?enc ?dec False False (\<lambda>_. False) (\<lambda>_. False)
        (LocalStore_Delete no_faults) i (archives p, scores_of p, log_of p) = (st0, (a, sf, lf))" by (metis prod.collapse)
    then have "st0 = st" "out = None" "p' = p\<lparr>archives := a, scores_of := sf, log_of := lf\<rparr>"
      using RouteDelete assms(2,3,5) by (simp_all add: admin_handler_def calm_def on_disk_def)
    with delete_handler_realises [OF assms(1) c] RouteDelete show ?thesis
      by (auto simp: reply_of_def shows_registry_def)
  next
    case RouteSummary
    obtain m where m: "Store_all False (scores_of p) = Inr m" "map_of m = score_of R"
      "FileLog_Entries ?dec False (log_of p) = Inr (submissions R)" "FileStore_Get False (exercise_file p) = Inr (settings R)"
      using realisesE [OF assms(1)] by metis
    with RouteSummary assms(2,5) show ?thesis
      by (intro idle) (auto simp: admin_handler_def AdminSummaryHandler_def Store_ByID_def calm_def explains_def
          shows_registry_def reply_of_def split: if_splits intro!: exI [of _ m])
  qed (use assms(4) in \<open>simp_all add: admin_data_route_def\<close>)
qed

text \<open>One request: the step of the server is a step of the registry, and the answer is true of it.\<close>

lemma serve_step:
  assumes "stands_for d s R" "calm_request d c r" "on_disk d" "serve d c r s = ((st, rep), s')"
  shows "\<exists>a R'. perform a R = Some R' \<and> stands_for d s' R' \<and> explains (newMux (hq_method r) (hq_path r)) (hq_method r) st a
     \<and> shows_registry (d_sort d) rep R'"
proof -
  let ?rt = "newMux (hq_method r) (hq_path r)" and ?p = "portal_of s"
  have real: "realises (h_enc (d_handler d)) (d_dec d) ?p R" using assms(1) by (simp add: stands_for_def)
  have idle: ?thesis if "portal_of s' = ?p \<or> (\<exists>t. portal_of s' = ?p\<lparr>tracker_of := t\<rparr>)"
    "explains ?rt (hq_method r) st Idle" "shows_registry (d_sort d) rep R"
    using that realises_cong [OF real, of "portal_of s'"] by (intro exI [of _ Idle] exI [of _ R]) (auto simp: stands_for_def)
  show ?thesis
  proof (cases "admin_data_route ?rt")
    case True
    note gated = serve_gated [OF True, of d c s]
    obtain st0 out p' where h: "admin_handler d c ?rt r ?p = ((st0, out), p')" by (metis prod.collapse)
    consider (through) "serve d c r s = ((st0, reply_of id out), s\<lparr>portal_of := p'\<rparr>)"
      | (stopped) k msg where "k \<in> {401, 403}" "serve d c r s = ((k, ErrorText msg), s)"
      using h gated denial_status [of d c r] by (cases "authorised d c r"; cases "denial d c r") auto
    then show ?thesis
    proof cases
      case through
      have "calm c" using assms(2) by (simp add: calm_request_def)
      from admin_handler_realises [OF real this assms(3) True h] obtain a R' where
        "perform a R = Some R'" "realises (h_enc (d_handler d)) (d_dec d) p' R'" "explains ?rt (hq_method r) st0 a"
        "shows_registry (d_sort d) (reply_of id out) R'" by blast
      with through assms(4) show ?thesis by (intro exI [of _ a] exI [of _ R']) (simp add: stands_for_def)
    next
      case stopped
      with assms(4) show ?thesis
        by (intro idle) (auto simp: explains_def shows_registry_def split: route.split)
    qed
  next
    case False
    show ?thesis
    proof (cases "?rt = RouteSubmit")
      case True
      from assms(4) True show ?thesis
      proof (cases rule: serve_submit_cases)
        case (passed out p')
        then have h: "SubmitHandler_ServeHTTP (d_handler d) (c_weather c) (up_request r) ?p = ((st, out), p')"
          by (simp add: up_request_def)
        have w: "calm_weather (c_weather c)" "logs_lawfully (d_handler d) (d_dec d) (c_weather c) (up_request r)"
          "save (d_handler d) = (\<lambda>k src sz. LocalStore_Save no_faults k src)" "LogWired (d_handler d)"
          using assms(2,3) by (simp_all add: calm_request_def calm_def on_disk_def)
        from submit_realises [OF real w(1,3,4,2) h] passed True show ?thesis
          by (auto simp: stands_for_def shows_registry_def)
      next
        case turned_away
        with True show ?thesis by (intro idle) (auto simp: explains_def shows_registry_def)
      qed
    next
      case other: False
      with False assms(4) show ?thesis
        by (intro idle; cases ?rt)
           (auto simp: serve_def Let_def admin_data_route_def explains_def shows_registry_def reply_of_def serveFile_def
             assets_handler_def split: prod.splits option.splits)
    qed
  qed
qed

section \<open>Histories\<close>

text \<open>
  A history of requests beside a history of actions: at every point the server stands for the registry, every answer
  is explained by its action, every action is permitted, and what is shown is what the registry holds.
\<close>

fun follows ::
  "(upload_dir, 'k) muxDeps \<Rightarrow> (climate \<times> http_request) list \<Rightarrow> upload_dir server \<Rightarrow> action list \<Rightarrow> registry \<Rightarrow> bool" where
  "follows d [] s as R \<longleftrightarrow> as = [] \<and> stands_for d s R"
| "follows d ((c, r) # h) s as R \<longleftrightarrow>
     stands_for d s R
     \<and> (case as of
          [] \<Rightarrow> False
        | a # as' \<Rightarrow>
            (case serve d c r s of
               ((st, rep), s') \<Rightarrow>
                 explains (newMux (hq_method r) (hq_path r)) (hq_method r) st a
                 \<and> (case perform a R of None \<Rightarrow> False | Some R' \<Rightarrow> shows_registry (d_sort d) rep R' \<and> follows d h s' as' R')))"

definition empty_server :: "upload_dir server" where
  "empty_server =
     \<lparr>nonces_of = NewNonceStore,
      portal_of = \<lparr>archives = Map.empty, exercise_file = None, scores_of = None, log_of = None, tracker_of = Some NewProgressTracker\<rparr>\<rparr>"

fun serve_all :: "('s, 'k) muxDeps \<Rightarrow> (climate \<times> http_request) list \<Rightarrow> 's server \<Rightarrow> 's server" where
  "serve_all d [] s = s"
| "serve_all d ((c, r) # h) s = serve_all d h (snd (serve d c r s))"

lemma empty_stands_for: "stands_for d empty_server empty_registry"
  by (auto simp: stands_for_def realises_def empty_server_def empty_registry_def represents_def scores_file_ok_def
      Store_all_def load_file_def scores_encodable_def FileStore_Get_def local_content_def)

lemma follows_from:
  assumes "stands_for d s R" "on_disk d" "list_all (\<lambda>(c, r). calm_request d c r) h"
  shows "\<exists>as. follows d h s as R"
  using assms
proof (induction h arbitrary: s R)
  case (Cons cr h)
  obtain c r where cr: "cr = (c, r)" by (cases cr)
  obtain st rep s' where v: "serve d c r s = ((st, rep), s')" by (metis prod.collapse)
  from serve_step [OF Cons.prems(1) _ Cons.prems(2) v] Cons.prems(3) cr obtain a R' where
    a: "perform a R = Some R'" "stands_for d s' R'" "explains (newMux (hq_method r) (hq_path r)) (hq_method r) st a"
      "shows_registry (d_sort d) rep R'" by auto
  from Cons.IH [OF a(2) Cons.prems(2)] Cons.prems(3) obtain as where "follows d h s' as R'" by auto
  with a v Cons.prems(1) show ?case by (intro exI [of _ "a # as"]) (simp add: cr)
qed simp

lemma follows_length: "follows d h s as R \<Longrightarrow> length as = length h"
  by (induction d h s as R rule: follows.induct) (auto split: list.splits prod.splits option.splits)

lemma stands_for_ok:
  assumes "stands_for d s R" "registry_ok R" "on_disk d" "list_all (\<lambda>(c, r). calm_request d c r) h"
  shows "\<exists>R'. stands_for d (serve_all d h s) R' \<and> registry_ok R'"
  using assms
proof (induction h arbitrary: s R)
  case (Cons cr h)
  obtain c r where cr: "cr = (c, r)" by (cases cr)
  obtain st rep s' where v: "serve d c r s = ((st, rep), s')" by (metis prod.collapse)
  from serve_step [OF Cons.prems(1) _ Cons.prems(3) v] Cons.prems(4) cr obtain a R' where
    "perform a R = Some R'" "stands_for d s' R'" by auto
  with Cons.IH [of s' R'] Cons.prems(2-4) perform_ok v show ?case by (auto simp: cr)
qed auto

text \<open>C2: without faults the server on a local directory, from empty files on, is the registry: for every history of
  requests there is a history of actions, one for each, that the registry permits and that the answers stand for (a 200
  on \<^verbatim>\<open>/submit\<close> for one accepted submission, a 204 for one withdrawal, and so on, any other answer for none), and after
  each of them the files hold exactly the registry and the rows, settings and scores shown are the registry's.\<close>

theorem serve_refines_registry:
  assumes "on_disk d" "list_all (\<lambda>(c, r). calm_request d c r) h"
  shows "\<exists>as. follows d h empty_server as empty_registry"
  by (rule follows_from [OF empty_stands_for assms])

text \<open>C3: in such a deployment every submission listed has its archive in the store, no two listed submissions share a
  file name, and no score is left without a submission. Requests that overlap can break this.\<close>

theorem listed_submissions_complete:
  assumes "on_disk d" "list_all (\<lambda>(c, r). calm_request d c r) h" "portal_of (serve_all d h empty_server) = p"
    and "FileLog_Entries (d_dec d) False (log_of p) = Inr es"
  shows "distinct (map Filename es) \<and> (\<forall>e\<in>set es. local_content (archives p) (Filename e) \<noteq> None)
     \<and> (Store_Get False i (scores_of p) = Inr (Some x) \<longrightarrow> i \<in> ID ` set es)"
proof -
  obtain R where R: "stands_for d (serve_all d h empty_server) R" "registry_ok R"
    using stands_for_ok [OF empty_stands_for registry_ok_empty assms(1,2)] by blast
  then have "realises (h_enc (d_handler d)) (d_dec d) p R" using assms(3) by (simp add: stands_for_def)
  then have "submissions R = es" "local_content (archives p) = archive_of R" "Store_Get False i (scores_of p) = Inr (score_of R i)"
    using assms(4) by (auto elim!: realisesE)
  with R(2) show ?thesis by (auto simp: registry_ok_def)
qed

section \<open>Concrete instances\<close>

definition sample_deps :: "(upload_dir, unit) muxDeps" where
  "sample_deps =
     \<lparr>d_handler = sample_handler, d_verifier = sample_verifier, d_from_bech32 = (\<lambda>_. Some sample_address),
      d_marshal = (\<lambda>_. Some []), d_ttl = 5 * minute, d_admin_mac = sample_mac (CHR ''a''), d_admin_ttl = hour,
      d_allow = [''g1''], d_dec = one_dec sample_logged, d_sort = sort_key EntryMoniker,
      d_delete = LocalStore_Delete no_faults, d_etags = Map.empty, d_files = (\<lambda>_ _ _. (404, [])),
      d_max_concurrent = 4, d_queue_wait = 15 * minute\<rparr>"

definition sample_climate :: climate where
  "sample_climate =
     \<lparr>c_weather = sample_weather, c_now = Time 0 0, c_rand = Some ''n'', c_log_bad = False, c_scores_bad = False,
      c_cfg_bad = False, c_cfg_disk = (\<lambda>_. False), c_scores_disk = (\<lambda>_. False), c_log_disk = (\<lambda>_. False),
      c_slot = SlotTaken\<rparr>"

definition http :: "string \<Rightarrow> string list \<Rightarrow> string \<Rightarrow> json option \<Rightarrow> http_request" where
  "http meth path auth j =
     \<lparr>hq_method = meth, hq_path = path, hq_auth = auth, hq_media = Some ''application/json'', hq_json = j, hq_size = 100,
      hq_form = Some (Some (sample_name, ''tar''))\<rparr>"

lemma sample_deps_fields [simp]:
  "d_handler sample_deps = sample_handler" "d_verifier sample_deps = sample_verifier"
  "d_from_bech32 sample_deps = (\<lambda>_. Some sample_address)" "d_ttl sample_deps = 5 * minute"
  "d_admin_mac sample_deps = sample_mac (CHR ''a'')" "d_allow sample_deps = [''g1'']" "d_dec sample_deps = one_dec sample_logged"
  "c_weather sample_climate = sample_weather" "c_now sample_climate = Time 0 0"
  "d_max_concurrent sample_deps = 4" "c_slot sample_climate = SlotTaken"
  "\<not> c_log_bad sample_climate" "\<not> c_scores_bad sample_climate"
  "hq_method (http m p a j) = m" "hq_path (http m p a j) = p" "hq_auth (http m p a j) = a" "hq_json (http m p a j) = j"
  "hq_form (http m p a j) = Some (Some (sample_name, ''tar''))" "hq_size (http m p a j) = 100"
  by (simp_all add: sample_deps_def sample_climate_def http_def)

lemma sample_routes:
  "newMux ''POST'' [''auth'', ''verify''] = RouteVerify" "newMux ''POST'' [''submit''] = RouteSubmit"
  "newMux ''GET'' [''admin'', ''submissions''] = RouteSubmissions"
  by (simp_all add: newMux_def)

lemma sample_limit:
  "LimitSubmissions (d_max_concurrent sample_deps) w (c_slot sample_climate) nxt p = (case nxt p of (a, p') \<Rightarrow> (Passed a, p'))"
  by (simp add: LimitSubmissions_def)

lemma upload_ok_unique:
  assumes "upload_ok h w addr fname data au" "upload_ok h w addr fname data au'"
  shows "au = au'"
  using assms by (intro accepted_upload.equality) (auto simp: upload_ok_def split: option.splits)

lemma sample_calm: "calm_request sample_deps sample_climate (http m p a j)" "on_disk sample_deps"
proof -
  have "lawful (one_enc sample_logged) (one_dec sample_logged) (submission_entry sample_handler sample_weather addr i sample_name au)"
    if "upload_ok sample_handler sample_weather addr sample_name ''tar'' au" "NewSubmissionID (Some [CHR 0x00]) = Some i" for addr i au
  proof -
    have "NewSubmissionID (Some [CHR 0x00]) = Some ''00''" by code_simp
    then have i: "i = ''00''" using that(2) by simp
    have "upload_ok sample_handler sample_weather addr sample_name ''tar'' sample_upload"
      using sample_upload_ok by (simp add: upload_ok_def)
    then have "au = sample_upload" using that(1) upload_ok_unique by blast
    then have "submission_entry sample_handler sample_weather addr i sample_name au = sample_logged"
      by (simp add: i submission_entry_def sample_upload_def sample_logged_def sample_metadata_def)
    then show ?thesis using one_lawful by simp
  qed
  then have "logs_lawfully sample_handler (one_dec sample_logged) sample_weather (up_request (http m p a j))"
    by (simp add: logs_lawfully_def up_request_def)
  then show "calm_request sample_deps sample_climate (http m p a j)"
    by (simp add: calm_request_def calm_def calm_weather_def) (simp add: sample_climate_def)
  show "on_disk sample_deps" by (simp add: on_disk_def) (simp add: sample_deps_def)
qed

text \<open>An upload, and a look at the list.\<close>

definition sample_history :: "(climate \<times> http_request) list" where
  "sample_history =
     [(sample_climate, http ''POST'' [''submit''] (''Bearer '' @ sample_token) None),
      (sample_climate, http ''GET'' [''admin'', ''submissions''] (''Bearer '' @ sample_token) None)]"

lemma sample_history_calm: "list_all (\<lambda>(c, r). calm_request sample_deps c r) sample_history"
  by (simp add: sample_history_def sample_calm)

theorem serve_refines_registry_witness: "\<exists>a b. follows sample_deps sample_history empty_server [a, b] empty_registry"
proof -
  obtain as where as: "follows sample_deps sample_history empty_server as empty_registry"
    using serve_refines_registry [OF sample_calm(2) sample_history_calm] by blast
  then have "length as = 2" using follows_length [OF as] by (simp add: sample_history_def)
  then obtain a b where "as = [a, b]" by (auto simp: numeral_2_eq_2 length_Suc_conv)
  with as show ?thesis by blast
qed

theorem listed_submissions_complete_witness:
  "\<exists>es. FileLog_Entries (one_dec sample_logged) False (log_of (portal_of (serve_all sample_deps sample_history empty_server))) = Inr es
     \<and> distinct (map Filename es)"
proof -
  obtain R where "stands_for sample_deps (serve_all sample_deps sample_history empty_server) R"
    using stands_for_ok [OF empty_stands_for registry_ok_empty sample_calm(2) sample_history_calm] by blast
  then obtain es where es: "FileLog_Entries (d_dec sample_deps) False
      (log_of (portal_of (serve_all sample_deps sample_history empty_server))) = Inr es"
    by (auto simp: stands_for_def elim!: realisesE)
  from listed_submissions_complete [OF sample_calm(2) sample_history_calm refl es] es show ?thesis by auto
qed

end
