(* ===== verification/Readers.thy ===== *)
theory Readers
  imports Streams
begin

text \<open>
  \<open>io.Reader\<close> one \<open>Read\<close> at a time. A reader is a function from the length of the buffer and its state to the bytes it
  delivers, its error and the next state; the adapters of the standard library and of the program wrap one around
  another. The locale \<open>io_reader\<close> is the contract of a \<open>Read\<close>: it ties a reader to the stream (\<^verbatim>\<open>Streams\<close>) it still
  has to deliver, whatever the cut into calls, and gives that the loops of \<open>io.Copy\<close> and \<open>io.ReadFull\<close> end.
\<close>

section \<open>Readers\<close>

datatype read_error = EOF | Failed

type_synonym 's reader = "nat \<Rightarrow> 's \<Rightarrow> (bytes \<times> read_error option) \<times> 's"

text \<open>
  A source outside the program: the pieces in which it delivers its bytes, empty ones included, whether it fails behind
  them, and whether it reports the end of the stream together with the last piece.
\<close>

record source =
  src_pieces :: "bytes list"
  src_broken :: bool
  src_eager :: bool

definition source_Read :: "source reader" where
  "source_Read n s =
     (case src_pieces s of
        [] \<Rightarrow> (([], Some (if src_broken s then Failed else EOF)), s)
      | c # cs \<Rightarrow>
          if length c \<le> n
          then ((c, if cs = [] \<and> src_eager s \<and> \<not> src_broken s then Some EOF else None), s\<lparr>src_pieces := cs\<rparr>)
          else ((take n c, None), s\<lparr>src_pieces := drop n c # cs\<rparr>))"

text \<open>\<open>io.LimitedReader\<close>, with what is left of the limit.\<close>

definition limited_Read :: "'s reader \<Rightarrow> (nat \<times> 's) reader" where
  "limited_Read read n st =
     (case st of (left, s) \<Rightarrow>
        if left = 0 then (([], Some EOF), st)
        else (case read (min n left) s of ((bs, err), s') \<Rightarrow> ((bs, err), (left - length bs, s'))))"

text \<open>\<open>io.MultiReader\<close> of a \<open>bytes.Reader\<close> and another reader, with what is left of the bytes.\<close>

definition multi_Read :: "'s reader \<Rightarrow> (bytes \<times> 's) reader" where
  "multi_Read read n st =
     (case st of (buf, s) \<Rightarrow>
        if buf \<noteq> [] then ((take n buf, None), (drop n buf, s))
        else (case read n s of ((bs, err), s') \<Rightarrow> ((bs, err), ([], s'))))"

text \<open>\<open>io.TeeReader\<close> over a writer that never fails.\<close>

definition tee_Read :: "(bytes \<Rightarrow> 't \<Rightarrow> 't) \<Rightarrow> 's reader \<Rightarrow> ('t \<times> 's) reader" where
  "tee_Read write read n st =
     (case st of (t, s) \<Rightarrow>
        (case read n s of ((bs, err), s') \<Rightarrow> ((bs, err), (if bs \<noteq> [] then write bs t else t, s'))))"

text \<open>
  \<open>io.Copy\<close> into a writer that takes everything, with a buffer of size \<open>room k\<close> at the \<open>k\<close>-th call: the bytes, the
  error that ended it (the end of the stream is one) and the reader behind it.
\<close>

partial_function (option) copy_all ::
  "'s reader \<Rightarrow> (nat \<Rightarrow> nat) \<Rightarrow> nat \<Rightarrow> 's \<Rightarrow> (bytes \<times> read_error \<times> 's) option" where
  "copy_all read room k s =
     (case read (room k) s of
        ((bs, Some e), s') \<Rightarrow> Some (bs, e, s')
      | ((bs, None), s') \<Rightarrow>
          Option.bind (copy_all read room (Suc k) s') (\<lambda>(more, e, s''). Some (bs @ more, e, s'')))"

text \<open>\<open>io.ReadFull\<close> into a buffer of one byte: the byte if there was one, and else the error.\<close>

partial_function (option) read_byte :: "'s reader \<Rightarrow> 's \<Rightarrow> ((read_error + char) \<times> 's) option" where
  "read_byte read s =
     (case read 1 s of
        ((b # _, _), s') \<Rightarrow> Some (Inr b, s')
      | (([], Some e), s') \<Rightarrow> Some (Inl e, s')
      | (([], None), s') \<Rightarrow> read_byte read s')"

section \<open>The contract of a reader\<close>

text \<open>
  \<open>rest\<close> is the stream a state still has to deliver; a failure comes alone, the end of the stream may come with the
  last bytes; \<open>delay\<close> bounds the calls that can go by without an error.
\<close>

locale io_reader =
  fixes read :: "'s reader"
    and rest :: "'s \<Rightarrow> stream"
    and delay :: "'s \<Rightarrow> nat"
  assumes read_length: "read n s = ((bs, err), s') \<Longrightarrow> length bs \<le> n"
    and read_rest: "read n s = ((bs, err), s') \<Longrightarrow> rest s = \<lparr>sdata = bs @ sdata (rest s'), sbroken = sbroken (rest s')\<rparr>"
    and read_end: "read n s = ((bs, Some e), s') \<Longrightarrow> rest s' = \<lparr>sdata = [], sbroken = (e = Failed)\<rparr>"
    and read_failed: "read n s = ((bs, Some Failed), s') \<Longrightarrow> bs = []"
    and read_delay: "read n s = ((bs, None), s') \<Longrightarrow> 0 < n \<Longrightarrow> delay s' < delay s"
begin

text \<open>Whatever the sizes of the buffers, copying ends and gives exactly what there was to deliver.\<close>

lemma copy_all_rest:
  assumes "\<And>k. 0 < room k"
  shows "\<exists>s'. copy_all read room k s = Some (sdata (rest s), if sbroken (rest s) then Failed else EOF, s')
     \<and> rest s' = \<lparr>sdata = [], sbroken = sbroken (rest s)\<rparr>"
proof (induction "delay s" arbitrary: s k rule: less_induct)
  case less
  obtain bs err s1 where r: "read (room k) s = ((bs, err), s1)" by (metis prod.collapse)
  note rest = read_rest [OF r]
  show ?case
  proof (cases err)
    case None
    then have "delay s1 < delay s" using r read_delay assms by blast
    from less [OF this, of "Suc k"] r None rest show ?thesis by (auto simp: copy_all.simps [of read room k s])
  next
    case (Some e)
    with read_end r have "rest s1 = \<lparr>sdata = [], sbroken = (e = Failed)\<rparr>" by blast
    with r Some rest show ?thesis by (cases e) (simp_all add: copy_all.simps [of read room k s])
  qed
qed

lemma read_byte_rest:
  "\<exists>s'. (case sdata (rest s) of
           [] \<Rightarrow> read_byte read s = Some (Inl (if sbroken (rest s) then Failed else EOF), s') \<and> rest s' = rest s
         | b # _ \<Rightarrow> read_byte read s = Some (Inr b, s') \<and> rest s' = advance 1 (rest s))"
proof (induction "delay s" arbitrary: s rule: less_induct)
  case less
  obtain bs err s1 where r: "read 1 s = ((bs, err), s1)" by (metis prod.collapse)
  note rest = read_rest [OF r]
  show ?case
  proof (cases bs)
    case (Cons b bs')
    with read_length [OF r] r rest show ?thesis by (auto simp: read_byte.simps [of read s] advance_def)
  next
    case Nil
    show ?thesis
    proof (cases err)
      case None
      then have "delay s1 < delay s" using r read_delay by auto
      from less [OF this] have "\<exists>s'. case sdata (rest s1) of
           [] \<Rightarrow> read_byte read s1 = Some (Inl (if sbroken (rest s1) then Failed else EOF), s') \<and> rest s' = rest s1
         | b # _ \<Rightarrow> read_byte read s1 = Some (Inr b, s') \<and> rest s' = advance 1 (rest s1)" .
      note ih = this
      have same: "rest s = rest s1" "read_byte read s = read_byte read s1"
        using rest r None Nil by (simp_all add: read_byte.simps [of read s])
      show ?thesis unfolding same by (rule ih)
    next
      case (Some e)
      with read_end r have "rest s1 = \<lparr>sdata = [], sbroken = (e = Failed)\<rparr>" by blast
      with r Some Nil rest show ?thesis by (cases e) (simp_all add: read_byte.simps [of read s])
    qed
  qed
qed

text \<open>What every read without an error keeps holds before the read that ends a copy.\<close>

lemma copy_all_last:
  assumes "\<And>k. 0 < room k" "copy_all read room k s = Some (d, e, s')" "P s"
    and "\<And>n t bs t'. read n t = ((bs, None), t') \<Longrightarrow> P t \<Longrightarrow> P t'"
  shows "\<exists>n t bs. P t \<and> read n t = ((bs, Some e), s')"
  using assms(2,3)
proof (induction "delay s" arbitrary: s k d rule: less_induct)
  case less
  obtain bs err s1 where r: "read (room k) s = ((bs, err), s1)" by (metis prod.collapse)
  show ?case
  proof (cases err)
    case None
    with r less(3) assms(4) have "P s1" by blast
    moreover have "delay s1 < delay s" using None r read_delay assms(1) by blast
    ultimately show ?thesis
      using less(1) [of s1 "Suc k"] less(2) r None by (auto simp: copy_all.simps [of read room k s] split: bind_splits)
  next
    case (Some e')
    with r less(2,3) show ?thesis by (auto simp: copy_all.simps [of read room k s])
  qed
qed

end

section \<open>The readers keep it\<close>

definition source_rest :: "source \<Rightarrow> stream" where
  "source_rest s = \<lparr>sdata = concat (src_pieces s), sbroken = src_broken s\<rparr>"

definition source_delay :: "source \<Rightarrow> nat" where
  "source_delay s = length (src_pieces s) + length (concat (src_pieces s))"

interpretation source: io_reader source_Read source_rest source_delay
  by unfold_locales
     (auto simp: source_Read_def source_rest_def source_delay_def split: list.splits if_splits)

definition limited_rest :: "('s \<Rightarrow> stream) \<Rightarrow> nat \<times> 's \<Rightarrow> stream" where
  "limited_rest rest st = limit_to (fst st) (rest (snd st))"

lemma limited_reader:
  assumes "io_reader read rest delay"
  shows "io_reader (limited_Read read) (limited_rest rest) (delay \<circ> snd)"
proof -
  note laws = io_reader.read_length [OF assms] io_reader.read_rest [OF assms] io_reader.read_end [OF assms]
    io_reader.read_failed [OF assms] io_reader.read_delay [OF assms]
  show ?thesis
  proof
    fix n st bs err st' assume r: "limited_Read read n st = ((bs, err), st')"
    obtain left s where st: "st = (left, s)" by (cases st)
    show "length bs \<le> n"
      using r laws(1) [of "min n left" s bs err "snd st'"] by (auto simp: st limited_Read_def split: if_splits prod.splits)
    show "limited_rest rest st = \<lparr>sdata = bs @ sdata (limited_rest rest st'), sbroken = sbroken (limited_rest rest st')\<rparr>"
      using r laws(1,2) [of "min n left" s bs err "snd st'"]
      by (auto simp: st limited_Read_def limited_rest_def limit_to_def split: if_splits prod.splits)
  next
    fix n st bs e st' assume r: "limited_Read read n st = ((bs, Some e), st')"
    obtain left s where st: "st = (left, s)" by (cases st)
    show "limited_rest rest st' = \<lparr>sdata = [], sbroken = (e = Failed)\<rparr>"
      using r laws(3) [of "min n left" s bs e "snd st'"] laws(4) [of "min n left" s bs "snd st'"]
      by (auto simp: st limited_Read_def limited_rest_def limit_to_def split: if_splits prod.splits)
  next
    fix n st bs st' assume r: "limited_Read read n st = ((bs, Some Failed), st')"
    then show "bs = []" using laws(4) by (auto simp: limited_Read_def split: if_splits prod.splits)
  next
    fix n st bs st' assume r: "limited_Read read n st = ((bs, None), st')" and "0 < (n :: nat)"
    then show "(delay \<circ> snd) st' < (delay \<circ> snd) st"
      using laws(5) by (auto simp: limited_Read_def split: if_splits prod.splits)
  qed
qed

definition multi_rest :: "('s \<Rightarrow> stream) \<Rightarrow> bytes \<times> 's \<Rightarrow> stream" where
  "multi_rest rest st = \<lparr>sdata = fst st @ sdata (rest (snd st)), sbroken = sbroken (rest (snd st))\<rparr>"

definition multi_delay :: "('s \<Rightarrow> nat) \<Rightarrow> bytes \<times> 's \<Rightarrow> nat" where
  "multi_delay delay st = length (fst st) + delay (snd st)"

lemma multi_reader:
  assumes "io_reader read rest delay"
  shows "io_reader (multi_Read read) (multi_rest rest) (multi_delay delay)"
proof -
  note laws = io_reader.read_length [OF assms] io_reader.read_rest [OF assms] io_reader.read_end [OF assms]
    io_reader.read_failed [OF assms] io_reader.read_delay [OF assms]
  show ?thesis
    by unfold_locales
       (auto simp: multi_Read_def multi_rest_def multi_delay_def dest: laws split: if_splits prod.splits)
qed

definition tee_rest :: "('s \<Rightarrow> stream) \<Rightarrow> 't \<times> 's \<Rightarrow> stream" where
  "tee_rest rest st = rest (snd st)"

lemma tee_reader:
  assumes "io_reader read rest delay"
  shows "io_reader (tee_Read write read) (tee_rest rest) (delay \<circ> snd)"
proof -
  note laws = io_reader.read_length [OF assms] io_reader.read_rest [OF assms] io_reader.read_end [OF assms]
    io_reader.read_failed [OF assms] io_reader.read_delay [OF assms]
  show ?thesis
    by unfold_locales
       (auto simp: tee_Read_def tee_rest_def dest: laws split: if_splits prod.splits)
qed

end
