(* ===== verification/Windowed_Reads.thy ===== *)
theory Windowed_Reads
  imports Clamav Readers
begin

text \<open>
  \<open>ScanStream\<close> of \<^verbatim>\<open>src/clamav/windowed.go\<close> once more, one \<open>Read\<close> at a time: the recorder of source errors, the budget, the
  byte read ahead, the fresh part of a window, the tail buffer behind its tee, and the drain. The theorem says that
  none of it depends on how the source cuts its bytes into reads or on the buffers of whoever reads: the result is
  that of the definitions over whole streams in \<^verbatim>\<open>Clamav\<close>. The counting readers of \<^verbatim>\<open>src/portal/progress.go\<close> are
  readers of the same kind.
\<close>

section \<open>The readers of a scan\<close>

text \<open>\<open>errRecorder\<close>: whether an error other than the end of the stream has been seen.\<close>

definition errRecorder_Read :: "'s reader \<Rightarrow> (bool \<times> 's) reader" where
  "errRecorder_Read read n st =
     (case st of (e, s) \<Rightarrow>
        (case read n s of ((bs, err), s') \<Rightarrow> ((bs, err), (if err \<noteq> None \<and> err \<noteq> Some EOF then True else e, s'))))"

text \<open>\<open>bounded\<close> and \<open>window\<close>, and their state.\<close>

type_synonym 's bounded = "nat \<times> bool \<times> 's"
type_synonym 's window = "bytes \<times> tailBuffer \<times> bytes \<times> nat \<times> 's bounded"

definition bounded_Read :: "'s reader \<Rightarrow> 's bounded reader" where
  "bounded_Read read = limited_Read (errRecorder_Read read)"

definition window_Read :: "'s reader \<Rightarrow> 's window reader" where
  "window_Read read = multi_Read (tee_Read tailBuffer_Write (multi_Read (limited_Read (bounded_Read read))))"

text \<open>The return behind the loop: \<open>src.err == nil && w.complete(bounded, src)\<close>.\<close>

definition finish_scan :: "'s reader \<Rightarrow> int \<Rightarrow> 's bounded \<Rightarrow> ('e + verdict \<times> coverage) option" where
  "finish_scan read scanned b =
     (case b of (left, err, s) \<Rightarrow>
        if err then Some (Inr (clean, \<lparr>Complete = False, Bytes = scanned\<rparr>))
        else if 0 < left then Some (Inr (clean, \<lparr>Complete = True, Bytes = scanned\<rparr>))
        else Option.bind (read_byte (errRecorder_Read read) (err, s))
               (\<lambda>(x, _). Some (Inr (clean, \<lparr>Complete = (x = Inl EOF), Bytes = scanned\<rparr>))))"

text \<open>
  The loop. The scanner reads window \<open>i\<close> to its end with buffers of sizes \<open>room i\<close> and judges what it saw; the drain uses
  \<open>room'\<close>. \<open>copy_err\<close> is the error a drain returns for a failure that is not the source's.
\<close>

partial_function (option) scan_reads ::
  "'s reader \<Rightarrow> (nat \<Rightarrow> nat \<Rightarrow> nat) \<Rightarrow> (nat \<Rightarrow> nat) \<Rightarrow> 'e \<Rightarrow> (nat \<Rightarrow> stream \<Rightarrow> 'e + verdict) \<Rightarrow> (nat \<Rightarrow> 'e option) \<Rightarrow> nat \<Rightarrow> nat
   \<Rightarrow> nat \<Rightarrow> bytes \<Rightarrow> int \<Rightarrow> 's bounded \<Rightarrow> ('e + verdict \<times> coverage) option" where
  "scan_reads read room room' copy_err judge ctx wsize over i tail scanned b =
     (case ctx i of
        Some e \<Rightarrow> Some (Inl e)
      | None \<Rightarrow>
          Option.bind (read_byte (bounded_Read read) b) (\<lambda>(head, b1).
            (case head of
               Inl _ \<Rightarrow> finish_scan read scanned b1
             | Inr c \<Rightarrow>
                 (let capacity = wsize - length tail in
                  Option.bind (copy_all (window_Read read) (room i) 0 (tail, newTailBuffer over, [c], capacity - 1, b1))
                    (\<lambda>(seen, err, w1).
                      (case judge i \<lparr>sdata = seen, sbroken = (err = Failed)\<rparr> of
                         Inl e \<Rightarrow>
                           (case w1 of (_, _, _, _, _, src_err, _) \<Rightarrow>
                              Some (if src_err then Inr (clean, \<lparr>Complete = False, Bytes = scanned\<rparr>) else Inl e))
                       | Inr v \<Rightarrow>
                           Option.bind (copy_all (window_Read read) room' 0 w1)
                             (\<lambda>(_, err2, w2).
                               (case w2 of (_, ring, _, fresh_N, b2) \<Rightarrow>
                                  if err2 = Failed then
                                    Some (if fst (snd b2) then Inr (clean, \<lparr>Complete = False, Bytes = scanned\<rparr>)
                                          else Inl copy_err)
                                  else
                                    (let scanned' = scanned + (int capacity - int fresh_N) in
                                     if Infected v then Some (Inr (v, \<lparr>Complete = False, Bytes = scanned'\<rparr>))
                                     else if 0 < fresh_N then finish_scan read scanned' b2
                                     else scan_reads read room room' copy_err judge ctx wsize over (Suc i)
                                            (tb_buf ring) scanned' b2))))))))) "

section \<open>Their contract\<close>

definition recorder_rest :: "('s \<Rightarrow> stream) \<Rightarrow> bool \<times> 's \<Rightarrow> stream" where
  "recorder_rest rest st = rest (snd st)"

lemma recorder_reader:
  assumes "io_reader read rest delay"
  shows "io_reader (errRecorder_Read read) (recorder_rest rest) (delay \<circ> snd)"
proof -
  note laws = io_reader.read_length [OF assms] io_reader.read_rest [OF assms] io_reader.read_end [OF assms]
    io_reader.read_failed [OF assms] io_reader.read_delay [OF assms]
  show ?thesis
    by unfold_locales (auto simp: errRecorder_Read_def recorder_rest_def dest: laws split: if_splits prod.splits)
qed

definition bounded_rest :: "('s \<Rightarrow> stream) \<Rightarrow> 's bounded \<Rightarrow> stream" where
  "bounded_rest rest = limited_rest (recorder_rest rest)"

definition window_rest :: "('s \<Rightarrow> stream) \<Rightarrow> 's window \<Rightarrow> stream" where
  "window_rest rest = multi_rest (tee_rest (multi_rest (limited_rest (bounded_rest rest))))"

lemmas stacks = bounded_Read_def window_Read_def bounded_rest_def window_rest_def

lemma bounded_reader:
  "io_reader read rest delay \<Longrightarrow> io_reader (bounded_Read read) (bounded_rest rest) ((delay \<circ> snd) \<circ> snd)"
  unfolding stacks by (intro limited_reader recorder_reader)

lemma window_reader:
  assumes "io_reader read rest delay"
  obtains d where "io_reader (window_Read read) (window_rest rest) d"
  using multi_reader [OF tee_reader [OF multi_reader [OF limited_reader [OF bounded_reader [OF assms]]], of tailBuffer_Write]]
  unfolding window_Read_def window_rest_def by blast

lemma rests [simp]:
  "bounded_rest rest (left, e, s) = limit_to left (rest s)"
  "window_rest rest (a, t, h, m, b) =
     \<lparr>sdata = a @ h @ sdata (limit_to m (bounded_rest rest b)), sbroken = sbroken (limit_to m (bounded_rest rest b))\<rparr>"
  by (simp_all add: stacks limited_rest_def recorder_rest_def multi_rest_def tee_rest_def)

section \<open>One window\<close>

text \<open>
  How far a window that began in state \<open>(a, t, h, m, left, e, s)\<close> has been read: \<open>k\<close> fresh bytes, and \<open>p\<close> of what passes
  the tee.
\<close>

definition progressed ::
  "('s \<Rightarrow> stream) \<Rightarrow> bytes \<Rightarrow> tailBuffer \<Rightarrow> bytes \<Rightarrow> nat \<Rightarrow> nat \<Rightarrow> 's \<Rightarrow> bool \<Rightarrow> 's window \<Rightarrow> bool" where
  "progressed rest xs t h m left s e w \<longleftrightarrow>
     (\<exists>a' t' h' k s' p. w = (a', t', h', m - k, left - k, e, s') \<and> k \<le> m \<and> k \<le> left \<and> k \<le> length (sdata (rest s))
        \<and> rest s' = advance k (rest s) \<and> tb_size t' = tb_size t \<and> tb_buf t' = take_last (tb_size t) (xs @ p)
        \<and> p @ h' = h @ take k (sdata (rest s)) \<and> (h' \<noteq> [] \<longrightarrow> k = 0))"

lemma progressed_step:
  assumes "io_reader read rest delay" "window_Read read n w = ((bs, err), w')" "progressed rest xs t h m left s e w"
  shows "progressed rest xs t h m left s (e \<or> err = Some Failed) w'"
proof -
  obtain a' t' h' k s' p where w: "w = (a', t', h', m - k, left - k, e, s')" "k \<le> m" "k \<le> left" "k \<le> length (sdata (rest s))"
    "rest s' = advance k (rest s)" "tb_size t' = tb_size t" "tb_buf t' = take_last (tb_size t) (xs @ p)"
    "p @ h' = h @ take k (sdata (rest s))" "h' \<noteq> [] \<longrightarrow> k = 0"
    using assms(3) unfolding progressed_def by blast
  have ring: "tb_size (if q \<noteq> [] then tailBuffer_Write q t' else t') = tb_size t"
    "tb_buf (if q \<noteq> [] then tailBuffer_Write q t' else t') = take_last (tb_size t) (xs @ p @ q)" for q
    using w(6,7) tailBuffer_Write_take_last [of t' "xs @ p" q] by auto
  consider (tail) "a' \<noteq> []" | (head) "a' = []" "h' \<noteq> []" | (fresh) "a' = []" "h' = []" by blast
  then show ?thesis
  proof cases
    case tail
    then have "w' = (drop n a', t', h', m - k, left - k, e, s')" "err = None"
      using assms(2) by (simp_all add: w(1) window_Read_def multi_Read_def)
    with w show ?thesis unfolding progressed_def by auto
  next
    case head
    then have "w' = ([], if take n h' \<noteq> [] then tailBuffer_Write (take n h') t' else t', drop n h', m - k, left - k, e, s')"
      "err = None"
      using assms(2) by (auto simp: w(1) window_Read_def multi_Read_def tee_Read_def)
    moreover have "(p @ take n h') @ drop n h' = h @ take k (sdata (rest s))" using w(8) by simp
    ultimately show ?thesis
      using w ring [of "take n h'"] unfolding progressed_def by (auto intro!: exI [of _ "p @ take n h'"])
  next
    case fresh
    show ?thesis
    proof (cases "m = k \<or> left = k")
      case True
      then have "w' = w" "err = Some EOF"
        using assms(2) fresh by (auto simp: w(1) stacks multi_Read_def tee_Read_def limited_Read_def split: if_splits)
      with assms(3) show ?thesis by simp
    next
      case False
      obtain q er s'' where q: "read (min (min n (m - k)) (left - k)) s' = ((q, er), s'')" by (metis prod.collapse)
      have failed: "er \<noteq> None \<and> er \<noteq> Some EOF \<longleftrightarrow> er = Some Failed" by (cases er; cases "the er") auto
      have "window_Read read n w = ((q, er), [], if q \<noteq> [] then tailBuffer_Write q t' else t', [], m - k - length q,
          left - k - length q, e \<or> er = Some Failed, s'')"
        using fresh False w(2,3) q failed
        by (simp add: w(1) stacks multi_Read_def tee_Read_def limited_Read_def errRecorder_Read_def)
      then have r: "read (min (min n (m - k)) (left - k)) s' = ((bs, err), s'')"
        and w': "w' = ([], if bs \<noteq> [] then tailBuffer_Write bs t' else t', [], m - k - length bs, left - k - length bs,
           e \<or> err = Some Failed, s'')"
        using assms(2) q by simp_all
      note len = io_reader.read_length [OF assms(1) r] and rst = io_reader.read_rest [OF assms(1) r]
      have "sdata (rest s') = bs @ sdata (rest s'')" "sbroken (rest s') = sbroken (rest s'')" using rst by simp_all
      then have d: "drop k (sdata (rest s)) = bs @ sdata (rest s'')" "sbroken (rest s'') = sbroken (rest s)"
        by (simp_all add: w(5))
      have "take (k + length bs) (sdata (rest s)) = take k (sdata (rest s)) @ bs" using d(1) by (simp add: take_add)
      moreover have "rest s'' = advance (k + length bs) (rest s)"
        using d drop_drop [of "length bs" k "sdata (rest s)"] by (intro stream.equality) (simp_all add: add.commute)
      moreover have "k + length bs \<le> length (sdata (rest s))" using d(1) w(4) by (metis add_le_cancel_left length_append length_drop le_add1 le_add_diff_inverse)
      ultimately show ?thesis
        using w fresh len ring [of bs] unfolding progressed_def w'
        by (auto intro!: exI [of _ "k + length bs"] exI [of _ "p @ bs"])
    qed
  qed
qed

text \<open>A window that is copied out, whatever the buffers: what came out of it, and the state behind it.\<close>

lemma window_copied:
  fixes s :: 's and m left :: nat
  assumes "io_reader read rest delay" "\<And>k. 0 < room k" "tb_buf t = take_last (tb_size t) xs"
  defines "f \<equiv> limit_to m (limit_to left (rest s))"
  obtains t' s' where
    "copy_all (window_Read read) room j (a, t, h, m, left, e, s) =
       Some (a @ h @ sdata f, if sbroken f then Failed else EOF,
             ([], t', [], m - length (sdata f), left - length (sdata f), e \<or> sbroken f, s'))"
    "tb_size t' = tb_size t" "tb_buf t' = take_last (tb_size t) (xs @ h @ sdata f)"
    "rest s' = advance (length (sdata f)) (rest s)"
proof -
  let ?w0 = "(a, t, h, m, left, e, s)" and ?err = "if sbroken f then Failed else EOF"
  obtain d where win: "io_reader (window_Read read) (window_rest rest) d" using window_reader [OF assms(1)] .
  have rest0: "window_rest rest ?w0 = \<lparr>sdata = a @ h @ sdata f, sbroken = sbroken f\<rparr>" by (simp add: f_def)
  obtain w1 where c: "copy_all (window_Read read) room j ?w0 = Some (a @ h @ sdata f, ?err, w1)"
    and w1: "window_rest rest w1 = \<lparr>sdata = [], sbroken = sbroken f\<rparr>"
    using io_reader.copy_all_rest [OF win, of room j ?w0] assms(2) unfolding rest0 stream.simps by metis
  let ?P = "progressed rest xs t h m left s"
  have start: "?P e ?w0"
    using assms(3) by (auto simp: progressed_def advance_def intro!: exI [of _ 0] exI [of _ "[]"])
  have step: "?P e w'" if "window_Read read n w = ((bs, None), w')" "?P e w" for n w bs w'
    using progressed_step [OF assms(1) that] by simp
  have "\<exists>n w bs. ?P e w \<and> window_Read read n w = ((bs, Some ?err), w1)"
    using io_reader.copy_all_last [OF win _ c, of "?P e"] assms(2) start step by blast
  then obtain n w bs where "?P e w" "window_Read read n w = ((bs, Some ?err), w1)" by blast
  from progressed_step [OF assms(1) this(2,1)]
  have "progressed rest xs t h m left s (e \<or> sbroken f) w1" by (simp split: if_splits)
  then obtain a' t' h' k s' p where w: "w1 = (a', t', h', m - k, left - k, e \<or> sbroken f, s')" "k \<le> m" "k \<le> left"
    "k \<le> length (sdata (rest s))" "rest s' = advance k (rest s)" "tb_size t' = tb_size t"
    "tb_buf t' = take_last (tb_size t) (xs @ p)" "p @ h' = h @ take k (sdata (rest s))"
    unfolding progressed_def by blast
  have "a' = []" "h' = []" "m = k \<or> left = k \<or> length (sdata (rest s)) = k"
    using w1 w(2-5) by (auto simp: w(1))
  moreover from this w have "length (sdata f) = k" "take k (sdata (rest s)) = sdata f" by (auto simp: f_def min_def)
  ultimately show thesis using that c w by simp
qed

section \<open>The byte read ahead, and the end\<close>

lemma byte_ahead:
  assumes "io_reader read rest delay"
  defines "f \<equiv> \<lambda>left s. limit_to left (rest s)"
  shows "\<exists>x s'. read_byte (bounded_Read read) (left, False, s) = Some (x, (left - length (take 1 (sdata (f left s))),
            sdata (f left s) = [] \<and> sbroken (f left s), s'))
     \<and> rest s' = advance (length (take 1 (sdata (f left s)))) (rest s)
     \<and> (case x of Inl _ \<Rightarrow> sdata (f left s) = [] | Inr c \<Rightarrow> take 1 (sdata (f left s)) = [c])"
proof (induction "delay s" arbitrary: s rule: less_induct)
  case less
  show ?case
  proof (cases left)
    case 0
    then have "bounded_Read read 1 (left, False, s) = (([], Some EOF), (left, False, s))"
      by (simp add: bounded_Read_def limited_Read_def)
    with 0 show ?thesis by (simp add: read_byte.simps [of "bounded_Read read"] f_def advance_def)
  next
    case (Suc l)
    obtain bs err s1 where r: "read 1 s = ((bs, err), s1)" by (metis prod.collapse)
    note rst = io_reader.read_rest [OF assms(1) r]
    have failed: "err \<noteq> None \<and> err \<noteq> Some EOF \<longleftrightarrow> err = Some Failed" by (cases err; cases "the err") auto
    have b: "bounded_Read read 1 (left, False, s) = ((bs, err), (left - length bs, err = Some Failed, s1))"
      using r Suc failed by (simp add: bounded_Read_def limited_Read_def errRecorder_Read_def min_def)
    show ?thesis
    proof (cases bs)
      case (Cons c cs)
      then have "bs = [c]" "err \<noteq> Some Failed"
        using io_reader.read_length [OF assms(1) r] io_reader.read_failed [OF assms(1)] r by auto
      then show ?thesis
        using b rst Suc by (auto simp: read_byte.simps [of "bounded_Read read"] f_def advance_def)
    next
      case Nil
      then have same: "rest s = rest s1" using rst by simp
      show ?thesis
      proof (cases err)
        case None
        then have "delay s1 < delay s" using io_reader.read_delay [OF assms(1)] r by auto
        note ih = less [OF this]
        have "read_byte (bounded_Read read) (left, False, s) = read_byte (bounded_Read read) (left, False, s1)"
          using b None Nil by (simp add: read_byte.simps [of "bounded_Read read" "(left, False, s)"])
        moreover have "f left s = f left s1" by (simp add: f_def same)
        ultimately show ?thesis unfolding same using ih by metis
      next
        case (Some e)
        with io_reader.read_end [OF assms(1)] r have "rest s1 = \<lparr>sdata = [], sbroken = (e = Failed)\<rparr>" by blast
        with b Some Nil Suc same show ?thesis
          by (simp add: read_byte.simps [of "bounded_Read read"] f_def advance_def)
      qed
    qed
  qed
qed

lemma finish_scan_rest:
  assumes "io_reader read rest delay"
  shows "finish_scan read scanned (left, e, s) = Some (Inr (clean, \<lparr>Complete = \<not> e \<and> complete left (rest s), Bytes = scanned\<rparr>))"
  using io_reader.read_byte_rest [OF recorder_reader [OF assms], of "(False, s)"]
  by (cases "sdata (rest s)") (auto simp: finish_scan_def complete_def recorder_rest_def)

text \<open>The readers of one round against the streams of \<open>fresh_part\<close> and \<open>window_of\<close>.\<close>

lemma fresh_after_byte:
  fixes tail :: bytes and wsize :: nat
  assumes "take 1 (sdata (limit_to left r)) = [c]"
  defines "f \<equiv> limit_to (wsize - length tail - 1) (limit_to (left - 1) (advance 1 r))"
  shows "fresh_part wsize tail left r = \<lparr>sdata = c # sdata f, sbroken = sbroken f\<rparr>"
    "window_of wsize tail left r = \<lparr>sdata = tail @ c # sdata f, sbroken = sbroken f\<rparr>"
proof -
  have "left \<noteq> 0" "sdata r \<noteq> []" using assms(1) by (cases left; auto)+
  then have "limit_to (left - 1) (advance 1 r) = advance 1 (limit_to left r)"
    by (cases r; cases "sdata r"; cases left) (simp_all add: limit_to_def advance_def)
  then show "fresh_part wsize tail left r = \<lparr>sdata = c # sdata f, sbroken = sbroken f\<rparr>"
    using assms(1) by (simp add: fresh_part_def f_def Let_def)
  then show "window_of wsize tail left r = \<lparr>sdata = tail @ c # sdata f, sbroken = sbroken f\<rparr>"
    by (simp add: window_of_def Let_def)
qed

text \<open>What is left of a limited stream that has been read to its end.\<close>

lemma limit_spent:
  fixes r :: stream and m left :: nat
  defines "f \<equiv> limit_to m (limit_to left r)"
  shows "limit_to (m - length (sdata f)) (limit_to (left - length (sdata f)) (advance (length (sdata f)) r))
     = \<lparr>sdata = [], sbroken = sbroken f\<rparr>"
  unfolding f_def limit_to_def advance_def by (cases r) (auto simp: min_def)

section \<open>The scan\<close>

text \<open>The loop, one round at a time.\<close>

lemma scan_reads_stop:
  "ctx i = Some e \<Longrightarrow> scan_reads read room room' copy_err judge ctx wsize over i tail scanned b = Some (Inl e)"
  by (subst scan_reads.simps) simp

lemma scan_reads_end:
  "ctx i = None \<Longrightarrow> read_byte (bounded_Read read) b = Some (Inl e, b1) \<Longrightarrow>
   scan_reads read room room' copy_err judge ctx wsize over i tail scanned b = finish_scan read scanned b1"
  by (subst scan_reads.simps) simp

lemma scan_reads_round:
  assumes "ctx i = None" "read_byte (bounded_Read read) b = Some (Inr c, b1)"
    and "copy_all (window_Read read) (room i) 0 (tail, newTailBuffer over, [c], wsize - length tail - 1, b1) =
           Some (seen, err, (a1, t1, h1, m1, l1, e1, s1))"
    and "copy_all (window_Read read) room' 0 (a1, t1, h1, m1, l1, e1, s1) = Some (seen2, err2, (a2, ring, h2, fresh_N, l2, e2, s2))"
  shows "scan_reads read room room' copy_err judge ctx wsize over i tail scanned b =
     (case judge i \<lparr>sdata = seen, sbroken = (err = Failed)\<rparr> of
        Inl e \<Rightarrow> Some (if e1 then Inr (clean, \<lparr>Complete = False, Bytes = scanned\<rparr>) else Inl e)
      | Inr v \<Rightarrow>
          if err2 = Failed then Some (if e2 then Inr (clean, \<lparr>Complete = False, Bytes = scanned\<rparr>) else Inl copy_err)
          else
            (let scanned' = scanned + (int (wsize - length tail) - int fresh_N) in
             if Infected v then Some (Inr (v, \<lparr>Complete = False, Bytes = scanned'\<rparr>))
             else if 0 < fresh_N then finish_scan read scanned' (l2, e2, s2)
             else scan_reads read room room' copy_err judge ctx wsize over (Suc i) (tb_buf ring) scanned' (l2, e2, s2)))"
  using assms by (subst scan_reads.simps) (simp add: Let_def split: sum.split)

lemma scan_reads_windows:
  assumes "io_reader read rest delay" "\<And>i k. 0 < room i k" "\<And>k. 0 < room' k" "over < wsize" "length tail \<le> over"
  shows "scan_reads read room room' copy_err judge ctx wsize over i tail scanned (left, False, s) =
     Some (scan_windows (\<lambda>i w. (judge i w, True)) ctx wsize over i tail scanned left (rest s))"
  using assms(5)
proof (induction "length (sdata (rest s))" arbitrary: i tail scanned left s rule: less_induct)
  case less
  let ?bounded = "limit_to left (rest s)" and ?n1 = "length (take 1 (sdata (limit_to left (rest s))))"
  obtain x s1 where h: "read_byte (bounded_Read read) (left, False, s) =
      Some (x, (left - ?n1, sdata ?bounded = [] \<and> sbroken ?bounded, s1))"
    "rest s1 = advance ?n1 (rest s)" "case x of Inl _ \<Rightarrow> sdata ?bounded = [] | Inr c \<Rightarrow> take 1 (sdata ?bounded) = [c]"
    using byte_ahead [OF assms(1), of left s] by blast
  show ?case
  proof (cases "ctx i")
    case (Some e)
    then show ?thesis by (simp add: scan_reads_stop scan_windows_unfold [of _ ctx])
  next
    case ctx: None
    show ?thesis
    proof (cases x)
      case (Inl err)
      then have e: "sdata ?bounded = []" using h(3) by simp
      then have "?n1 = 0" by (simp only: take_Nil list.size)
      with h(2) have "rest s1 = rest s" by (simp add: advance_def)
      moreover have "read_byte (bounded_Read read) (left, False, s) = Some (Inl err, (left, sbroken ?bounded, s1))"
        using h(1) Inl e \<open>?n1 = 0\<close> by simp
      ultimately show ?thesis
        using ctx e by (simp add: scan_reads_end scan_windows_end finish_scan_rest [OF assms(1)])
    next
      case (Inr c)
      then have c: "take 1 (sdata ?bounded) = [c]" using h(3) by simp
      have n1: "?n1 = 1" using c by simp
      have ne: "sdata ?bounded \<noteq> []" using c by (metis take_Nil list.distinct(1))
      define m where "m = wsize - length tail - 1"
      define f where "f = limit_to m (limit_to (left - 1) (rest s1))"
      define k where "k = length (sdata f)"
      have cap: "wsize - length tail = Suc m" "k \<le> m" using less(2) assms(4) by (simp_all add: m_def k_def f_def)
      have s1: "rest s1 = advance 1 (rest s)" using h(2) n1 by simp
      have byte: "read_byte (bounded_Read read) (left, False, s) = Some (Inr c, (left - 1, False, s1))"
        using h(1) ne by (simp only: n1 Inr simp_thms)
      have buf: "tb_buf (newTailBuffer over) = take_last (tb_size (newTailBuffer over)) []"
        by (simp add: newTailBuffer_def take_last_def)
      obtain t2 s2 where w1: "copy_all (window_Read read) (room i) 0 (tail, newTailBuffer over, [c], m, left - 1, False, s1) =
          Some (tail @ c # sdata f, if sbroken f then Failed else EOF, ([], t2, [], m - k, left - 1 - k, sbroken f, s2))"
        "tb_size t2 = over" "tb_buf t2 = take_last over (c # sdata f)" "rest s2 = advance k (rest s1)"
        by (rule window_copied [OF assms(1) _ buf, where room = "room i" and m = m and left = "left - 1" and s = s1 and j = 0
              and a = tail and h = "[c]" and e = False]) (use assms(2) in \<open>simp_all add: f_def k_def\<close>)
      have spent: "limit_to (m - k) (limit_to (left - 1 - k) (rest s2)) = \<lparr>sdata = [], sbroken = sbroken f\<rparr>"
        using limit_spent [of m "left - 1" "rest s1"] w1(4) by (simp only: f_def k_def)
      obtain t3 s3 where w2: "copy_all (window_Read read) room' 0 ([], t2, [], m - k, left - 1 - k, sbroken f, s2) =
          Some ([], if sbroken f then Failed else EOF, ([], t3, [], m - k, left - 1 - k, sbroken f, s3))"
        "tb_buf t3 = take_last over (c # sdata f)" "rest s3 = rest s2"
        by (rule window_copied [OF assms(1), where room = room' and t = t2 and xs = "c # sdata f" and j = 0 and a = "[]"
              and h = "[]" and m = "m - k" and left = "left - 1 - k" and e = "sbroken f" and s = s2])
           (use assms(3) w1(2,3) in \<open>simp_all only: spent, simp_all add: advance_def\<close>)
      have s3: "rest s3 = advance (Suc k) (rest s)" using w2(3) w1(4) s1 by (simp add: advance_def)
      note streams = fresh_after_byte [OF c, of wsize tail, folded m_def s1, folded f_def]
      have n: "length (c # sdata f) = Suc k" by (simp add: k_def)
      have less': "length (sdata (rest s3)) < length (sdata (rest s))" using ne by (auto simp: s3)
      have "length (take_last over (c # sdata f)) \<le> over" by simp
      note ih = less(1) [OF less' this, of "Suc i" "scanned + int (Suc k)" "left - 1 - k"]
      note round = scan_reads_round [where ctx = ctx and i = i and room = room and room' = room', OF ctx byte
          w1(1) [unfolded m_def] w2(1) [unfolded m_def], folded m_def, unfolded cap(1) w2(2) Let_def]
      show ?thesis
      proof (cases "sbroken f")
        case True
        with ctx ne round show ?thesis
          by (simp add: scan_windows_unfold [of _ ctx] streams split: sum.split del: limit_to_simps)
      next
        case False
        with ctx ne round ih cap n s3 show ?thesis
          by (cases "k = m")
             (simp_all add: scan_windows_unfold [of _ ctx wsize over i] streams finish_scan_rest [OF assms(1)] of_nat_diff
                split: sum.split del: limit_to_simps)
      qed
    qed
  qed
qed

text \<open>C14: the scan made of single reads returns, and returns what the scan over whole streams returns: however the source cuts
  its bytes into reads and whatever buffers the scanner and the drain use, the source's errors, the budget, the window
  boundaries and the carried tail come out the same.\<close>

theorem ScanStream_reads:
  assumes "\<And>i k. 0 < room i k" "\<And>k. 0 < room' k"
  shows "scan_reads source_Read room room' copy_err judge ctx (nat (windowSize w)) (nat (overlap w)) 0 [] 0
      (nat (scan_budget w), False, s)
     = Some (ScanStream (\<lambda>i win. (judge i win, True)) ctx w (source_rest s))"
proof -
  have "overlap w < windowSize w" "0 < windowSize w"
    using window_config_pos [of w] by (auto simp: overlap_def quot_def Let_def)
  then show ?thesis
    unfolding ScanStream_def by (intro scan_reads_windows [OF source.io_reader_axioms assms]) auto
qed

section \<open>Counting readers\<close>

text \<open>
  \<open>countingReader\<close> and \<open>countingScanner\<close>: what is read through them is reported to \<open>add\<close>, which changes the state \<open>'t\<close>.
\<close>

definition countingReader_Read :: "(int \<Rightarrow> 't \<Rightarrow> 't) \<Rightarrow> 's reader \<Rightarrow> ('t \<times> 's) reader" where
  "countingReader_Read add read n st =
     (case st of (t, s) \<Rightarrow>
        (case read n s of ((bs, err), s') \<Rightarrow> ((bs, err), (if 0 < length bs then add (int (length bs)) t else t, s'))))"

definition countingScanner_Scan ::
  "(int \<Rightarrow> 't \<Rightarrow> 't) \<Rightarrow> (nat \<Rightarrow> nat) \<Rightarrow> (stream \<Rightarrow> 'r) \<Rightarrow> 's reader \<Rightarrow> 't \<times> 's \<Rightarrow> ('r \<times> 't \<times> 's) option" where
  "countingScanner_Scan add room inner read st =
     Option.bind (copy_all (countingReader_Read add read) room 0 st)
       (\<lambda>(seen, err, st'). Some (inner \<lparr>sdata = seen, sbroken = (err = Failed)\<rparr>, st'))"

lemma counting_reader:
  assumes "io_reader read rest delay"
  shows "io_reader (countingReader_Read add read) (tee_rest rest) (delay \<circ> snd)"
proof -
  have "countingReader_Read add read = tee_Read (\<lambda>bs. add (int (length bs))) read"
    by (auto simp: fun_eq_iff countingReader_Read_def tee_Read_def split: prod.split)
  with tee_reader [OF assms] show ?thesis by simp
qed

text \<open>Counting changes nothing of a scan, and what was counted at its end is the length of what was scanned, overlap included.\<close>

theorem countingScanner_transparent:
  assumes "\<And>k. 0 < room k"
  shows "\<exists>s'. countingScanner_Scan (+) room inner source_Read (t, s) =
     Some (inner (source_rest s), t + int (length (sdata (source_rest s))), s')"
proof -
  let ?read = "countingReader_Read (+) source_Read" and ?rest = "tee_rest source_rest"
  note io = counting_reader [OF source.io_reader_axioms, of "(+)"]
  obtain t' s' where c: "copy_all ?read room 0 (t, s) = Some (sdata (source_rest s), if sbroken (source_rest s) then Failed else EOF, (t', s'))"
    and e: "sdata (source_rest s') = []"
    using io_reader.copy_all_rest [OF io, of room 0 "(t, s)"] assms by (auto simp: tee_rest_def)
  let ?P = "\<lambda>(u, q). u + int (length (sdata (source_rest q))) = t + int (length (sdata (source_rest s)))"
  have step: "?P st'" if "?read n st = ((bs, err), st')" "?P st" for n st bs err st'
    using that source.read_rest [of n "snd st" bs err "snd st'"]
    by (cases st) (auto simp: countingReader_Read_def split: prod.splits if_splits)
  have "\<exists>n st bs. ?P st \<and> ?read n st = ((bs, Some (if sbroken (source_rest s) then Failed else EOF)), (t', s'))"
    using io_reader.copy_all_last [OF io _ c, of ?P] assms step by blast
  then have "?P (t', s')" using step by blast
  then show ?thesis using c e by (cases "source_rest s") (simp add: countingScanner_Scan_def)
qed

section \<open>Concrete instances\<close>

text \<open>A source that hands out its bytes in odd pieces, scanned with odd buffers.\<close>

definition odd_source :: source where
  "odd_source = \<lparr>src_pieces = [''ab'', [], ''cde'', ''f''], src_broken = False, src_eager = True\<rparr>"

theorem ScanStream_reads_witness:
  "scan_reads source_Read (\<lambda>i k. i + k + 1) (\<lambda>_. 3) ContextErr (\<lambda>i win. Inr clean) (\<lambda>_. None) 4 2 0 [] 0 (9, False, odd_source)
   = Some (Inr (clean, \<lparr>Complete = True, Bytes = 6\<rparr>))"
proof -
  have "ScanStream (\<lambda>i win. (Inr clean, True)) (\<lambda>_. None) small_windows (source_rest odd_source)
      = (Inr (clean, \<lparr>Complete = True, Bytes = 6\<rparr>) :: scan_failure + verdict \<times> coverage)"
    by code_simp
  with ScanStream_reads [of "\<lambda>i k. i + k + 1" "\<lambda>_. 3" ContextErr "\<lambda>i win. Inr clean" "\<lambda>_. None" small_windows odd_source]
  show ?thesis by (simp add: small_windows_def windowSize_def overlap_def scan_budget_def)
qed

end
