(* ===== verification/Interleaving.thy ===== *)
theory Interleaving
  imports Rescore
begin

text \<open>
  The handlers and the re-scoring tool at the granularity of the operations they make on the score file and the log:
  each of these holds its lock for its whole body, but nothing is held from one to the next. A \<open>task\<close> is what is left
  to do of one request with the values it has read so far; tasks of any number of requests interleave. Between
  the server and the re-scoring tool there is no common lock at all; here a single read or write of the file is
  taken to be atomic between them too, which is the kindest reading.

  The lemmas \<open>alone\<close> tie a task that is not interrupted to the handler it comes from.
\<close>

section \<open>Tasks\<close>

record shared =
  sh_scores :: scores_file
  sh_log :: log_file

text \<open>
  \<open>ScoreFind\<close>, \<open>ScoreRead\<close>, \<open>ScoreWrite\<close>: a manual score whose body has been checked. \<open>EraseScore\<close>, \<open>EraseEntry\<close>: a
  deletion whose archive is gone. \<open>KeepScore\<close>, \<open>KeepEntry\<close>: a submission whose archive is stored and whose
  record is computed. \<open>RescoreLog\<close>, \<open>RescoreRead\<close>, \<open>RescoreWrite\<close>: a run with \<^verbatim>\<open>-apply\<close>.
\<close>

datatype task =
    ScoreFind string int
  | ScoreRead string int
  | ScoreWrite string int result
  | EraseScore string
  | EraseEntry string
  | KeepScore result entry
  | KeepEntry entry
  | RescoreLog
  | RescoreRead "entry list"
  | RescoreWrite scores "entry list"
  | Finished

definition manual_result :: "string \<Rightarrow> int \<Rightarrow> result \<Rightarrow> result" where
  "manual_result i irq res = res\<lparr>SubmissionID := i, IncidentScore := Some irq\<rparr>"

inductive score_task :: "decoder \<Rightarrow> task \<times> shared \<Rightarrow> task \<times> shared \<Rightarrow> bool" for dec where
  found: "FileLog_Entries dec u (sh_log s) = Inr es \<Longrightarrow> i \<in> ID ` set es \<Longrightarrow>
    score_task dec (ScoreFind i irq, s) (ScoreRead i irq, s)"
| not_found: "\<nexists>es. FileLog_Entries dec u (sh_log s) = Inr es \<and> i \<in> ID ` set es \<Longrightarrow>
    score_task dec (ScoreFind i irq, s) (Finished, s)"
| scored: "Store_Get u i (sh_scores s) = Inr (Some res) \<Longrightarrow> Scored res \<Longrightarrow>
    score_task dec (ScoreRead i irq, s) (ScoreWrite i irq res, s)"
| not_scored: "\<nexists>res. Store_Get u i (sh_scores s) = Inr (Some res) \<and> Scored res \<Longrightarrow>
    score_task dec (ScoreRead i irq, s) (Finished, s)"
| set_score: "Store_Set u disk (manual_result i irq res) (sh_scores s) = (x, sf') \<Longrightarrow>
    score_task dec (ScoreWrite i irq res, s) (Finished, s\<lparr>sh_scores := sf'\<rparr>)"

inductive erase_task :: "encoder \<Rightarrow> decoder \<Rightarrow> task \<times> shared \<Rightarrow> task \<times> shared \<Rightarrow> bool" for enc dec where
  delete_score: "Store_Delete u disk i (sh_scores s) = (x, sf') \<Longrightarrow>
    erase_task enc dec (EraseScore i, s) (if x = None then EraseEntry i else Finished, s\<lparr>sh_scores := sf'\<rparr>)"
| delete_entry: "FileLog_Delete enc dec u disk i (sh_log s) = (y, lf') \<Longrightarrow>
    erase_task enc dec (EraseEntry i, s) (Finished, s\<lparr>sh_log := lf'\<rparr>)"

text \<open>A write of the submission handler that fails is only logged, and the next one is made.\<close>

inductive keep_task :: "encoder \<Rightarrow> task \<times> shared \<Rightarrow> task \<times> shared \<Rightarrow> bool" for enc where
  save_score: "Store_Set u disk r (sh_scores s) = (x, sf') \<Longrightarrow>
    keep_task enc (KeepScore r e, s) (KeepEntry e, s\<lparr>sh_scores := sf'\<rparr>)"
| record_entry: "FileLog_Record enc flt e (sh_log s) = (z, lf') \<Longrightarrow>
    keep_task enc (KeepEntry e, s) (Finished, s\<lparr>sh_log := lf'\<rparr>)"

inductive rescore_task ::
  "rescore_libs \<Rightarrow> options \<Rightarrow> config \<Rightarrow> decoder \<Rightarrow> task \<times> shared \<Rightarrow> task \<times> shared \<Rightarrow> bool" for l opts cfg dec where
  read_log: "rescore_task l opts cfg dec (RescoreLog, s)
    (case FileLog_Entries dec u (sh_log s) of Inl _ \<Rightarrow> Finished | Inr es \<Rightarrow> RescoreRead es, s)"
| read_scores: "rescore_task l opts cfg dec (RescoreRead es, s)
    (case Store_ByID u (sh_scores s) of Inl _ \<Rightarrow> Finished | Inr prev \<Rightarrow> RescoreWrite prev es, s)"
| skip: "rescoreOne l opts e cfg = Inl err \<Longrightarrow>
    rescore_task l opts cfg dec (RescoreWrite prev (e # es), s) (RescoreWrite prev es, s)"
| rewrite: "rescoreOne l opts e cfg = Inr r \<Longrightarrow>
    Store_Set u disk (carry_manual (map_of prev (ID e)) r) (sh_scores s) = (x, sf') \<Longrightarrow>
    rescore_task l opts cfg dec (RescoreWrite prev (e # es), s)
      (if x = None then RescoreWrite prev es else Finished, s\<lparr>sh_scores := sf'\<rparr>)"
| all_done: "rescore_task l opts cfg dec (RescoreWrite prev [], s) (Finished, s)"

record world =
  w_enc :: encoder
  w_dec :: decoder
  w_libs :: rescore_libs
  w_opts :: options
  w_cfg :: config

inductive task_step :: "world \<Rightarrow> task \<times> shared \<Rightarrow> task \<times> shared \<Rightarrow> bool" for w where
  by_score: "score_task (w_dec w) p q \<Longrightarrow> task_step w p q"
| by_erase: "erase_task (w_enc w) (w_dec w) p q \<Longrightarrow> task_step w p q"
| by_keep: "keep_task (w_enc w) p q \<Longrightarrow> task_step w p q"
| by_rescore: "rescore_task (w_libs w) (w_opts w) (w_cfg w) (w_dec w) p q \<Longrightarrow> task_step w p q"

lemmas score_find = by_score [OF score_task.found]
  and score_read = by_score [OF score_task.scored]
  and score_write = by_score [OF score_task.set_score]
  and erase_score = by_erase [OF erase_task.delete_score]
  and erase_entry = by_erase [OF erase_task.delete_entry]
  and keep_score = by_keep [OF keep_task.save_score]
  and keep_entry = by_keep [OF keep_task.record_entry]
  and rescore_log = by_rescore [OF rescore_task.read_log]
  and rescore_read = by_rescore [OF rescore_task.read_scores]
  and rescore_skip = by_rescore [OF rescore_task.skip]
  and rescore_write = by_rescore [OF rescore_task.rewrite]
  and rescore_end = by_rescore [OF rescore_task.all_done]

text \<open>Any of the requests takes its next step.\<close>

inductive pool_step :: "world \<Rightarrow> ('r \<Rightarrow> task) \<times> shared \<Rightarrow> ('r \<Rightarrow> task) \<times> shared \<Rightarrow> bool" for w where
  run: "task_step w (ts r, s) (t, s') \<Longrightarrow> pool_step w (ts, s) (ts(r := t), s')"

inductive_cases pool_stepE: "pool_step w p p'"

section \<open>Tasks that run alone\<close>

lemma score_alone:
  assumes "AdminScoreHandler (w_dec w) lb sb disk i r lf sf = ((200, out), sf')"
  shows "\<exists>irq. (task_step w)\<^sup>*\<^sup>* (ScoreFind i irq, \<lparr>sh_scores = sf, sh_log = lf\<rparr>) (Finished, \<lparr>sh_scores = sf', sh_log = lf\<rparr>)"
  using assms
proof (cases rule: AdminScore_cases)
  case (set irq res x)
  let ?s = "\<lparr>sh_scores = sf, sh_log = lf\<rparr>"
  have "task_step w (ScoreFind i irq, ?s) (ScoreRead i irq, ?s)"
    using set(5) by (auto intro: score_find)
  moreover have "task_step w (ScoreRead i irq, ?s) (ScoreWrite i irq res, ?s)"
    using set(3,4) by (intro score_read) simp_all
  moreover have "task_step w (ScoreWrite i irq res, ?s) (Finished, ?s\<lparr>sh_scores := sf'\<rparr>)"
    using set(6) by (intro score_write) (simp_all add: manual_result_def)
  ultimately show ?thesis by (auto intro!: exI [of _ irq] intro: converse_rtranclp_into_rtranclp)
qed simp

lemma erase_alone:
  assumes "AdminDeleteSubmissionHandler (w_enc w) (w_dec w) lb sb sd ld store_delete i (a, sf, lf) = (204, (a', sf', lf'))"
  shows "(task_step w)\<^sup>*\<^sup>* (EraseScore i, \<lparr>sh_scores = sf, sh_log = lf\<rparr>) (Finished, \<lparr>sh_scores = sf', sh_log = lf'\<rparr>)"
proof -
  let ?s = "\<lparr>sh_scores = sf, sh_log = lf\<rparr>"
  obtain b where d: "Store_Delete sb sd i sf = (None, sf')" "FileLog_Delete (w_enc w) (w_dec w) lb ld i lf = ((b, None), lf')"
    using assms by (auto simp: AdminDeleteSubmissionHandler_def split: if_splits sum.splits option.splits prod.splits)
  have "task_step w (EraseScore i, ?s) (EraseEntry i, ?s\<lparr>sh_scores := sf'\<rparr>)"
    using erase_score [of sb sd i ?s None sf' w] d(1) by simp
  moreover have "task_step w (EraseEntry i, ?s\<lparr>sh_scores := sf'\<rparr>) (Finished, ?s\<lparr>sh_scores := sf', sh_log := lf'\<rparr>)"
    using erase_entry [of w lb ld i "?s\<lparr>sh_scores := sf'\<rparr>"] d(2) by simp
  ultimately show ?thesis by (auto intro: converse_rtranclp_into_rtranclp)
qed

lemma rescore_entries_alone:
  assumes "rescore_entries (w_libs w) (w_opts w) (w_cfg w) True prev disk k tly es sf = ((None, tly'), sf')"
  shows "(task_step w)\<^sup>*\<^sup>* (RescoreWrite prev es, \<lparr>sh_scores = sf, sh_log = lf\<rparr>) (Finished, \<lparr>sh_scores = sf', sh_log = lf\<rparr>)"
  using assms
proof (induction es arbitrary: k tly sf)
  case Nil
  then show ?case using rescore_end [of w prev] by (auto intro: r_into_rtranclp)
next
  case (Cons e es)
  let ?s = "\<lparr>sh_scores = sf, sh_log = lf\<rparr>"
  show ?case
  proof (cases "rescoreOne (w_libs w) (w_opts w) e (w_cfg w)")
    case (Inl err)
    with Cons have "(task_step w)\<^sup>*\<^sup>* (RescoreWrite prev es, ?s) (Finished, \<lparr>sh_scores = sf', sh_log = lf\<rparr>)" by auto
    with rescore_skip [OF Inl, of prev es ?s] show ?thesis by (rule converse_rtranclp_into_rtranclp)
  next
    case (Inr r)
    obtain x sf1 where s: "Store_Set False (disk k) (carry_manual (map_of prev (ID e)) r) sf = (x, sf1)" by fastforce
    with Cons.prems Inr have x: "x = None" by (cases x) (auto simp: Let_def)
    have "task_step w (RescoreWrite prev (e # es), ?s) (RescoreWrite prev es, ?s\<lparr>sh_scores := sf1\<rparr>)"
      using rescore_write [OF Inr, of False "disk k" prev ?s None sf1] s x by simp
    moreover obtain tly1 where "rescore_entries (w_libs w) (w_opts w) (w_cfg w) True prev disk (Suc k) tly1 es sf1 = ((None, tly'), sf')"
      using Cons.prems Inr s x by (auto simp: Let_def)
    note Cons.IH [OF this]
    ultimately show ?thesis by (auto intro: converse_rtranclp_into_rtranclp)
  qed
qed

lemma rescore_alone:
  assumes "rescore_run (w_libs w) (w_dec w) disk m True cf lf sf = (Inr tly, sf')"
    and "FileStore_Get False cf = Inr (w_cfg w)" "w_opts w = \<lparr>MaxLogSize = m, MaxMetadataSize = 0\<rparr>"
  shows "(task_step w)\<^sup>*\<^sup>* (RescoreLog, \<lparr>sh_scores = sf, sh_log = lf\<rparr>) (Finished, \<lparr>sh_scores = sf', sh_log = lf\<rparr>)"
proof -
  let ?s = "\<lparr>sh_scores = sf, sh_log = lf\<rparr>"
  obtain es prev where r: "FileLog_Entries (w_dec w) False lf = Inr es" "Store_ByID False sf = Inr prev"
    "rescore_entries (w_libs w) (w_opts w) (w_cfg w) True prev disk 0 \<lparr>changed = 0, failed = 0\<rparr> es sf = ((None, tly), sf')"
    using assms by (auto simp: rescore_run_def split: sum.splits if_splits prod.splits option.splits)
  have "task_step w (RescoreLog, ?s) (RescoreRead es, ?s)" using rescore_log [of w ?s False] r(1) by simp
  moreover have "task_step w (RescoreRead es, ?s) (RescoreWrite prev es, ?s)" using rescore_read [of w es ?s False] r(2) by simp
  ultimately show ?thesis
    using rescore_entries_alone [OF r(3), of lf] by (auto intro: converse_rtranclp_into_rtranclp)
qed

lemma keep_alone:
  assumes "ExerciseWired h" "ScoresWired h" "LogWired h" "FileStore_Get (cfg_unreadable wt) (exercise_file p) = Inr cfg"
    and "h_enc h = w_enc w" "p' = log_step h wt addr i fname au (score_step h wt i au data p)"
  shows "(task_step w)\<^sup>*\<^sup>*
     (KeepScore (score_record h wt i au data cfg) (submission_entry h wt addr i fname au), \<lparr>sh_scores = scores_of p, sh_log = log_of p\<rparr>)
     (Finished, \<lparr>sh_scores = scores_of p', sh_log = log_of p'\<rparr>)"
proof -
  let ?r = "score_record h wt i au data cfg" and ?e = "submission_entry h wt addr i fname au"
  let ?s = "\<lparr>sh_scores = scores_of p, sh_log = log_of p\<rparr>"
  obtain x sf z lf where s: "Store_Set (scores_unreadable wt) (scores_disk wt) ?r (scores_of p) = (x, sf)"
    and l: "FileLog_Record (w_enc w) (log_faults wt) ?e (log_of p) = (z, lf)" by fastforce
  have p': "scores_of p' = sf" "log_of p' = lf"
    using assms s l by (simp_all add: score_step_def log_step_def)
  have "task_step w (KeepScore ?r ?e, ?s) (KeepEntry ?e, ?s\<lparr>sh_scores := sf\<rparr>)"
    using s by (intro keep_score) simp
  moreover have "task_step w (KeepEntry ?e, ?s\<lparr>sh_scores := sf\<rparr>) (Finished, ?s\<lparr>sh_scores := sf, sh_log := lf\<rparr>)"
    using keep_entry [of w "log_faults wt" ?e "?s\<lparr>sh_scores := sf\<rparr>" z lf] l by simp
  ultimately show ?thesis using p' by (auto intro: converse_rtranclp_into_rtranclp)
qed

section \<open>The invariant under any interleaving\<close>

text \<open>What holds of the values a task has read or was given.\<close>

definition task_ok :: "task \<Rightarrow> bool" where
  "task_ok t \<longleftrightarrow>
     (case t of
        ScoreFind i irq \<Rightarrow> 0 \<le> irq \<and> irq \<le> 25
      | ScoreRead i irq \<Rightarrow> 0 \<le> irq \<and> irq \<le> 25
      | ScoreWrite i irq res \<Rightarrow> 0 \<le> irq \<and> irq \<le> 25 \<and> result_ok res \<and> Scored res
      | KeepScore r e \<Rightarrow> result_ok r
      | RescoreWrite prev es \<Rightarrow> scores_ok prev
      | _ \<Rightarrow> True)"

lemma task_step_ok:
  assumes "task_step w (t, s) (t', s')" "scores_file_ok (sh_scores s)" "task_ok t"
  shows "scores_file_ok (sh_scores s') \<and> task_ok t'"
proof -
  note set_ok = Store_Set_ok [OF assms(2)] and delete_ok = Store_Delete_ok [OF assms(2)]
  from assms(1) show ?thesis
  proof cases
    case by_score
    then show ?thesis
    proof (cases rule: score_task.cases)
      case (scored u i res irq)
      with assms Store_Get_ok show ?thesis by (auto simp: task_ok_def)
    next
      case (set_score u disk i irq res x sf')
      then have "result_ok (manual_result i irq res)" using assms(3) by (auto simp: task_ok_def result_ok_def manual_result_def)
      with set_score set_ok [of _ u disk] show ?thesis by (auto simp: task_ok_def) (metis snd_conv)
    qed (use assms in \<open>auto simp: task_ok_def\<close>)
  next
    case by_erase
    then show ?thesis
    proof (cases rule: erase_task.cases)
      case (delete_score u disk i x sf')
      with delete_ok [of u disk i] show ?thesis by (auto simp: task_ok_def)
    qed (use assms in \<open>auto simp: task_ok_def\<close>)
  next
    case by_keep
    then show ?thesis
    proof (cases rule: keep_task.cases)
      case (save_score u disk r x sf' e)
      with assms(3) set_ok [of r u disk] show ?thesis by (auto simp: task_ok_def)
    qed (use assms in \<open>auto simp: task_ok_def\<close>)
  next
    case by_rescore
    then show ?thesis
    proof (cases rule: rescore_task.cases)
      case (read_scores es u)
      with assms Store_all_ok [OF assms(2)] show ?thesis by (auto simp: task_ok_def Store_ByID_def split: sum.split)
    next
      case (rewrite e r u disk prev x sf' es)
      then have "result_ok (carry_manual (map_of prev (ID e)) r)" using assms(3) carry_manual_ok by (auto simp: task_ok_def)
      with rewrite assms(3) set_ok [of _ u disk] show ?thesis by (auto simp: task_ok_def) (metis snd_conv)+
    qed (use assms in \<open>auto simp: task_ok_def split: sum.split\<close>)
  qed
qed

lemma pool_steps_ok:
  assumes "(pool_step w)\<^sup>*\<^sup>* (ts, s) (ts', s')" "scores_file_ok (sh_scores s)" "\<forall>r. task_ok (ts r)"
  shows "scores_file_ok (sh_scores s') \<and> (\<forall>r. task_ok (ts' r))"
  using assms
proof (induction rule: rtranclp_induct2)
  case (step ts1 s1 ts2 s2)
  from step(2) obtain r t where t: "task_step w (ts1 r, s1) (t, s2)" "ts2 = ts1(r := t)" by (auto elim: pool_stepE)
  from task_step_ok [OF t(1)] step(3-5) t(2) show ?case by simp
qed simp

text \<open>C17: however the steps of manual scores, deletions, submissions and re-scoring runs interleave, the score file stays
  well formed: what is read under an identifier belongs to it and is worth between 0 and 100 points.\<close>

theorem interleaved_invariant:
  assumes "(pool_step w)\<^sup>*\<^sup>* (ts, s) (ts', s')" "scores_file_ok (sh_scores s)" "\<forall>r. task_ok (ts r)"
    and "Store_Get u i (sh_scores s') = Inr (Some r)"
  shows "SubmissionID r = i \<and> 0 \<le> TotalScore r \<and> TotalScore r \<le> (if Pending r then 75 else 100)"
  using pool_steps_ok [OF assms(1-3)] Store_Get_ok [OF _ assms(4)] result_ok_total [of r] by blast

section \<open>Isolation\<close>

text \<open>The records a task may still write.\<close>

fun may_write :: "task \<Rightarrow> string \<Rightarrow> bool" where
  "may_write (ScoreFind i irq) j = (i = j)"
| "may_write (ScoreRead i irq) j = (i = j)"
| "may_write (ScoreWrite i irq res) j = (i = j)"
| "may_write (EraseScore i) j = (i = j)"
| "may_write (KeepScore r e) j = (SubmissionID r = j)"
| "may_write RescoreLog j = True"
| "may_write (RescoreRead es) j = (j \<in> ID ` set es)"
| "may_write (RescoreWrite prev es) j = (j \<in> ID ` set es)"
| "may_write _ j = False"

lemma Store_Set_other: "i \<noteq> SubmissionID r \<Longrightarrow> Store_Set u d r f = (x, f') \<Longrightarrow> Store_Get False i f' = Store_Get False i f"
  using scores.put_other [of i r d f] by (cases u) (auto simp: Store_Set_def Store_all_def load_file_def)

lemma Store_Delete_other: "i \<noteq> k \<Longrightarrow> Store_Delete u d k f = (x, f') \<Longrightarrow> Store_Get False i f' = Store_Get False i f"
  using scores.del_other [of i k d f] by (cases u) (auto simp: Store_Delete_def Store_all_def load_file_def)

lemma task_step_other:
  assumes "task_step w (t, s) (t', s')" "\<not> may_write t i"
  shows "\<not> may_write t' i \<and> Store_Get False i (sh_scores s') = Store_Get False i (sh_scores s)"
  using assms(1)
proof cases
  case by_score
  then show ?thesis
  proof (cases rule: score_task.cases)
    case (set_score u disk j irq res x sf')
    then show ?thesis using assms(2) Store_Set_other [of i "manual_result j irq res"] by (auto simp: manual_result_def)
  qed (use assms in auto)
next
  case by_erase
  then show ?thesis by (cases rule: erase_task.cases) (use assms in \<open>auto intro: Store_Delete_other\<close>)
next
  case by_keep
  then show ?thesis by (cases rule: keep_task.cases) (use assms in \<open>auto intro: Store_Set_other\<close>)
next
  case by_rescore
  then show ?thesis
  proof (cases rule: rescore_task.cases)
    case (rewrite e r u disk prev x sf' es)
    then show ?thesis
      using assms(2) Store_Set_other [of i "carry_manual (map_of prev (ID e)) r"] rescoreOne_fields [OF rewrite(4)] by auto
  qed (use assms in \<open>auto split: sum.split\<close>)
qed

text \<open>Requests do not disturb each other's records: through any interleaving, with whatever faults, the score record that
  no running request names reads the same before and after.\<close>

theorem interleaved_isolation:
  assumes "(pool_step w)\<^sup>*\<^sup>* (ts, s) (ts', s')" "\<forall>r. \<not> may_write (ts r) i"
  shows "Store_Get False i (sh_scores s') = Store_Get False i (sh_scores s)"
proof -
  have "Store_Get False i (sh_scores s') = Store_Get False i (sh_scores s) \<and> (\<forall>r. \<not> may_write (ts' r) i)"
    using assms
  proof (induction rule: rtranclp_induct2)
    case (step ts1 s1 ts2 s2)
    from step(2) obtain r t where t: "task_step w (ts1 r, s1) (t, s2)" "ts2 = ts1(r := t)" by (auto elim: pool_stepE)
    with task_step_other [OF t(1), of i] step(3,4) show ?case by auto
  qed simp
  then show ?thesis by blast
qed

section \<open>Lost updates\<close>

lemma pool_run:
  assumes "task_step w (ts r, s) (t, s')" "ts' = ts(r := t)"
  shows "(pool_step w)\<^sup>*\<^sup>* (ts, s) (ts', s')"
  using pool_step.run [of w ts r s t s', OF assms(1)] assms(2) by auto

lemma Store_Set_succeeds:
  assumes "Store_all False sf = Inr m" "scores_encodable (AList.update (SubmissionID r) r m)"
  shows "Store_Set False (\<lambda>_. False) r sf = (None, Some (Doc (AList.update (SubmissionID r) r m)))"
  using assms by (simp add: Store_Set_def Store_save_def save_file_cases fails_def fails_early_def)

lemma manual_of_doc: "manual_of (Some (Doc m)) i = (case map_of m i of Some r \<Rightarrow> IncidentScore r | None \<Rightarrow> None)"
  by (simp add: manual_of_def Store_Get_def Store_all_def load_file_def split: option.split)

text \<open>C19: a re-scoring run takes the manual scores from what it read at its start, so it wipes out one that is entered while it
  runs: there is an execution in which the manual score is saved and read back, and then overwritten by the
  run with none.\<close>

theorem rescore_loses_manual_score:
  assumes "FileLog_Entries (w_dec w) False lf = Inr [e]"
    and "Store_all False sf = Inr [(ID e, res)]" "Scored res" "IncidentScore res = None" "result_encodable res"
    and "rescoreOne (w_libs w) (w_opts w) e (w_cfg w) = Inr r" "result_encodable r"
  shows "\<exists>ts1 s1 s2. (pool_step w)\<^sup>*\<^sup>*
            (\<lambda>k. if k then RescoreLog else ScoreFind (ID e) irq, \<lparr>sh_scores = sf, sh_log = lf\<rparr>) (ts1, s1)
     \<and> ts1 False = Finished \<and> manual_of (sh_scores s1) (ID e) = Some irq
     \<and> (pool_step w)\<^sup>*\<^sup>* (ts1, s1) (\<lambda>_. Finished, s2) \<and> manual_of (sh_scores s2) (ID e) = None"
proof -
  let ?s = "\<lparr>sh_scores = sf, sh_log = lf\<rparr>" and ?i = "ID e" and ?prev = "[(ID e, res)]"
  let ?m = "manual_result ?i irq res"
  have r: "SubmissionID r = ?i" "IncidentScore r = None" using rescoreOne_fields [OF assms(6)] by simp_all
  let ?u = "carry_manual (Some res) r"
  have enc: "result_encodable ?m" "result_encodable ?u"
    using assms(5,7) by (simp_all add: result_encodable_def manual_result_def carry_manual_def)
  let ?s1 = "\<lparr>sh_scores = Some (Doc [(?i, ?m)]), sh_log = lf\<rparr>" and ?s2 = "\<lparr>sh_scores = Some (Doc [(?i, ?u)]), sh_log = lf\<rparr>"
  have set1: "Store_Set False (\<lambda>_. False) ?m sf = (None, Some (Doc [(?i, ?m)]))"
    using Store_Set_succeeds [OF assms(2), of ?m] enc(1) by (simp add: manual_result_def scores_encodable_def)
  have set2: "Store_Set False (\<lambda>_. False) ?u (Some (Doc [(?i, ?m)])) = (None, Some (Doc [(?i, ?u)]))"
    using Store_Set_succeeds [of "Some (Doc [(?i, ?m)])" "[(?i, ?m)]" ?u] enc(2) r(1)
    by (simp add: Store_all_def load_file_def scores_encodable_def)
  let ?ts = "\<lambda>a b k. if k then a else b"
  note run_log = pool_run [where r = True and ts = "?ts RescoreLog (ScoreFind ?i irq)" and t = "RescoreRead [e]"]
    and run_read = pool_run [where r = True and ts = "?ts (RescoreRead [e]) (ScoreFind ?i irq)" and t = "RescoreWrite ?prev [e]"]
    and score_look = pool_run [where r = False and ts = "?ts (RescoreWrite ?prev [e]) (ScoreFind ?i irq)" and t = "ScoreRead ?i irq"]
    and score_get = pool_run [where r = False and ts = "?ts (RescoreWrite ?prev [e]) (ScoreRead ?i irq)" and t = "ScoreWrite ?i irq res"]
    and score_set = pool_run [where r = False and ts = "?ts (RescoreWrite ?prev [e]) (ScoreWrite ?i irq res)" and t = Finished]
    and run_set = pool_run [where r = True and ts = "?ts (RescoreWrite ?prev [e]) Finished" and t = "RescoreWrite ?prev []"]
    and run_end = pool_run [where r = True and ts = "?ts (RescoreWrite ?prev []) Finished" and t = Finished]
  have "(pool_step w)\<^sup>*\<^sup>* (?ts RescoreLog (ScoreFind ?i irq), ?s) (?ts (RescoreRead [e]) (ScoreFind ?i irq), ?s)"
    using rescore_log [of w ?s False] assms(1) by (intro run_log) auto
  also have "(pool_step w)\<^sup>*\<^sup>* \<dots> (?ts (RescoreWrite ?prev [e]) (ScoreFind ?i irq), ?s)"
    using rescore_read [of w "[e]" ?s False] assms(2) by (intro run_read) (auto simp: Store_ByID_def)
  also have "(pool_step w)\<^sup>*\<^sup>* \<dots> (?ts (RescoreWrite ?prev [e]) (ScoreRead ?i irq), ?s)"
    using score_find [of w False ?s "[e]" ?i irq] assms(1) by (intro score_look) auto
  also have "(pool_step w)\<^sup>*\<^sup>* \<dots> (?ts (RescoreWrite ?prev [e]) (ScoreWrite ?i irq res), ?s)"
    using score_read [of False ?i ?s res w irq] assms(2,3) by (intro score_get) (auto simp: Store_Get_def)
  also have "(pool_step w)\<^sup>*\<^sup>* \<dots> (?ts (RescoreWrite ?prev [e]) Finished, ?s1)"
    using score_write [of False "\<lambda>_. False" ?i irq res ?s] set1 by (intro score_set) auto
  finally have "(pool_step w)\<^sup>*\<^sup>* (?ts RescoreLog (ScoreFind ?i irq), ?s) (?ts (RescoreWrite ?prev [e]) Finished, ?s1)" .
  moreover have "manual_of (sh_scores ?s1) ?i = Some irq" by (simp add: manual_of_doc manual_result_def)
  moreover have "(pool_step w)\<^sup>*\<^sup>* (?ts (RescoreWrite ?prev [e]) Finished, ?s1) (?ts (RescoreWrite ?prev []) Finished, ?s2)"
    using rescore_write [OF assms(6), of False "\<lambda>_. False" ?prev ?s1] set2 by (intro run_set) auto
  moreover have "(pool_step w)\<^sup>*\<^sup>* (?ts (RescoreWrite ?prev []) Finished, ?s2) (\<lambda>_. Finished, ?s2)"
    using rescore_end [of w ?prev ?s2] by (intro run_end) auto
  moreover have "manual_of (sh_scores ?s2) ?i = None"
    using assms(4) by (simp add: manual_of_doc carry_manual_def)
  ultimately show ?thesis
    by (intro exI [of _ "?ts (RescoreWrite ?prev [e]) Finished"] exI [of _ ?s1] exI [of _ ?s2]) (auto intro: rtranclp_trans)
qed

text \<open>C20: a manual score can outlive the submission it belongs to: when the deletion comes between the reading of the record and
  its writing, both requests run to their end, the log no longer has the submission, and the score file has its
  record back; a second deletion is answered 404 and leaves it there.\<close>

theorem manual_score_outlives_deletion:
  assumes "represents (w_enc w) (w_dec w) lf [e]" "Store_all False sf = Inr [(ID e, res)]" "Scored res" "result_encodable res"
  shows "\<exists>s2. (pool_step w)\<^sup>*\<^sup>*
            (\<lambda>k. if k then EraseScore (ID e) else ScoreFind (ID e) irq, \<lparr>sh_scores = sf, sh_log = lf\<rparr>) (\<lambda>_. Finished, s2)
     \<and> FileLog_Entries (w_dec w) False (sh_log s2) = Inr []
     \<and> Store_Get False (ID e) (sh_scores s2) = Inr (Some (manual_result (ID e) irq res))
     \<and> AdminDeleteSubmissionHandler (w_enc w) (w_dec w) False u d d' del (ID e) (a, sh_scores s2, sh_log s2)
         = (if ID e = [] then 400 else 404, (a, sh_scores s2, sh_log s2))"
proof -
  let ?i = "ID e" and ?m = "manual_result (ID e) irq res" and ?s = "\<lparr>sh_scores = sf, sh_log = lf\<rparr>"
  have es: "FileLog_Entries (w_dec w) False lf = Inr [e]" using represents_entries [OF assms(1)] by (simp add: FileLog_Entries_def)
  have del: "Store_Delete False (\<lambda>_. False) ?i sf = (None, Some (Doc []))"
    using assms(2) by (simp add: Store_Delete_def Store_save_def save_file_cases scores_encodable_def fails_def fails_early_def)
  have set: "Store_Set False (\<lambda>_. False) ?m (Some (Doc [])) = (None, Some (Doc [(?i, ?m)]))"
    using Store_Set_succeeds [of "Some (Doc [])" "[]" ?m] assms(4)
    by (simp add: Store_all_def load_file_def manual_result_def scores_encodable_def result_encodable_def)
  obtain b y lf' where l: "FileLog_Delete (w_enc w) (w_dec w) False (\<lambda>_. False) ?i lf = ((b, y), lf')" by (metis prod.collapse)
  then have y: "y = None"
    using es by (auto simp: FileLog_Delete_def FileLog_Entries_def Let_def replace_content_eq fails_def fails_early_def split: if_splits)
  have lf': "FileLog_Entries (w_dec w) False lf' = Inr []"
    using Delete_represents(1) [OF assms(1) l y] represents_entries by (fastforce simp: FileLog_Entries_def)
  let ?ts = "\<lambda>a b k. if k then a else b"
  let ?s1 = "\<lparr>sh_scores = Some (Doc []), sh_log = lf\<rparr>" and ?s2 = "\<lparr>sh_scores = Some (Doc []), sh_log = lf'\<rparr>"
    and ?s3 = "\<lparr>sh_scores = Some (Doc [(?i, ?m)]), sh_log = lf'\<rparr>"
  note look = pool_run [where r = False and ts = "?ts (EraseScore ?i) (ScoreFind ?i irq)" and t = "ScoreRead ?i irq"]
    and get = pool_run [where r = False and ts = "?ts (EraseScore ?i) (ScoreRead ?i irq)" and t = "ScoreWrite ?i irq res"]
    and drop_score = pool_run [where r = True and ts = "?ts (EraseScore ?i) (ScoreWrite ?i irq res)" and t = "EraseEntry ?i"]
    and drop_entry = pool_run [where r = True and ts = "?ts (EraseEntry ?i) (ScoreWrite ?i irq res)" and t = Finished]
    and put = pool_run [where r = False and ts = "?ts Finished (ScoreWrite ?i irq res)" and t = Finished]
  have "(pool_step w)\<^sup>*\<^sup>* (?ts (EraseScore ?i) (ScoreFind ?i irq), ?s) (?ts (EraseScore ?i) (ScoreRead ?i irq), ?s)"
    using score_find [of w False ?s "[e]" ?i irq] es by (intro look) auto
  also have "(pool_step w)\<^sup>*\<^sup>* \<dots> (?ts (EraseScore ?i) (ScoreWrite ?i irq res), ?s)"
    using score_read [of False ?i ?s res w irq] assms(2,3) by (intro get) (auto simp: Store_Get_def)
  also have "(pool_step w)\<^sup>*\<^sup>* \<dots> (?ts (EraseEntry ?i) (ScoreWrite ?i irq res), ?s1)"
    using erase_score [of False "\<lambda>_. False" ?i ?s None "Some (Doc [])" w] del by (intro drop_score) auto
  also have "(pool_step w)\<^sup>*\<^sup>* \<dots> (?ts Finished (ScoreWrite ?i irq res), ?s2)"
    using erase_entry [of w False "\<lambda>_. False" ?i ?s1 "(b, y)" lf'] l by (intro drop_entry) auto
  also have "(pool_step w)\<^sup>*\<^sup>* \<dots> (\<lambda>_. Finished, ?s3)"
    using score_write [of False "\<lambda>_. False" ?i irq res ?s2] set by (intro put) auto
  finally have "(pool_step w)\<^sup>*\<^sup>* (?ts (EraseScore ?i) (ScoreFind ?i irq), ?s) (\<lambda>_. Finished, ?s3)" .
  then show ?thesis
    using lf' by (intro exI [of _ ?s3])
      (auto simp: Store_Get_def Store_all_def load_file_def AdminDeleteSubmissionHandler_def)
qed

section \<open>Concrete instances\<close>

text \<open>One submission with a log that does not decompress, scored before and scored again.\<close>

definition sample_world :: world where
  "sample_world =
     \<lparr>w_enc = one_enc sample_logged, w_dec = one_dec sample_logged, w_libs = sample_libs\<lparr>r_gunzip := \<lambda>_. None\<rparr>,
      w_opts = sample_options, w_cfg = sample_config\<rparr>"

definition before_result :: result where
  "before_result = (blank_result (ID sample_logged))\<lparr>Scored := True, MetadataScore := 25, LogScore := 13\<rparr>"

definition before_scores :: scores_file where
  "before_scores = Some (Doc [(ID sample_logged, before_result)])"

definition before_log :: log_file where
  "before_log = snd (FileLog_Record (one_enc sample_logged) \<lparr>open_err = False, written = None\<rparr> sample_logged None)"

lemma blank_encodable: "check_encodable zero_check"
proof -
  have "marshalable zero_time" by code_simp
  then show ?thesis by (simp add: check_encodable_def zero_check_def)
qed

lemma before_represents: "represents (w_enc sample_world) (w_dec sample_world) before_log [sample_logged]"
proof -
  obtain f1 where r: "FileLog_Record (one_enc sample_logged) \<lparr>open_err = False, written = None\<rparr> sample_logged None = (None, f1)"
    by (simp add: FileLog_Record_def one_enc_def)
  from Record_represents [OF nothing_represented one_lawful r] r show ?thesis by (simp add: before_log_def sample_world_def)
qed

lemma before_read:
  "FileLog_Entries (w_dec sample_world) False before_log = Inr [sample_logged]"
  "Store_all False before_scores = Inr [(ID sample_logged, before_result)]"
  "Scored before_result" "IncidentScore before_result = None" "result_encodable before_result"
proof -
  show "FileLog_Entries (w_dec sample_world) False before_log = Inr [sample_logged]"
    using represents_entries [OF before_represents] by (simp add: FileLog_Entries_def)
qed (simp_all add: before_scores_def before_result_def Store_all_def load_file_def result_encodable_def blank_result_def blank_encodable)

lemma rescored:
  obtains r where "rescoreOne (w_libs sample_world) (w_opts sample_world) sample_logged (w_cfg sample_world) = Inr r" "result_encodable r"
proof -
  let ?l = "w_libs sample_world"
  obtain ar where "ValidateArchive (\<lambda>_. Some (sample_tar ''ok'')) (\<lambda>_. False) ''tar'' sample_options = Inr ar"
    "ValidateMetadata (\<lambda>_. Some (metadata_doc sample_metadata)) (Metadata ar) = Inr (au_meta sample_upload)"
    using sample_upload_ok by (auto simp: upload_ok_def)
  then have "rescoreOne ?l sample_options sample_logged sample_config = Inr (automatic_result (ID sample_logged)
     (fst (MetadataChecks (au_meta sample_upload) sample_config)) (snd (MetadataChecks (au_meta sample_upload) sample_config))
     (archive_windows (r_gunzip ?l) (r_json_ts ?l) sample_config (members (sample_tar ''ok'')))
     (SentryLogPresent ar) (SubmittedAt sample_logged) sample_config)"
    by (intro rescoreOne_accepted [where data = "''tar''"])
       (simp_all add: sample_sane sample_world_def sample_libs_def sample_logged_def submission_entry_def)
  moreover have "archive_windows (r_gunzip ?l) g sample_config es = \<lparr>validator_window = zero_check, sentry_window = zero_check\<rparr>" for g es
    by (simp add: archive_windows_def ScanLogWindow_def scanLogWindow_def sample_world_def split: option.split)
  ultimately show ?thesis
    using that by (simp add: sample_world_def result_encodable_def automatic_result_def blank_encodable)
qed

theorem rescore_loses_manual_score_witness:
  "\<exists>ts1 s1 s2. (pool_step sample_world)\<^sup>*\<^sup>*
       (\<lambda>k. if k then RescoreLog else ScoreFind (ID sample_logged) 20, \<lparr>sh_scores = before_scores, sh_log = before_log\<rparr>) (ts1, s1)
     \<and> ts1 False = Finished \<and> manual_of (sh_scores s1) (ID sample_logged) = Some 20
     \<and> (pool_step sample_world)\<^sup>*\<^sup>* (ts1, s1) (\<lambda>_. Finished, s2) \<and> manual_of (sh_scores s2) (ID sample_logged) = None"
proof -
  obtain r where r: "rescoreOne (w_libs sample_world) (w_opts sample_world) sample_logged (w_cfg sample_world) = Inr r" "result_encodable r"
    by (rule rescored)
  show ?thesis by (rule rescore_loses_manual_score [OF before_read r])
qed

theorem manual_score_outlives_deletion_witness:
  "\<exists>s2. (pool_step sample_world)\<^sup>*\<^sup>*
       (\<lambda>k. if k then EraseScore (ID sample_logged) else ScoreFind (ID sample_logged) 20, \<lparr>sh_scores = before_scores, sh_log = before_log\<rparr>)
       (\<lambda>_. Finished, s2)
     \<and> FileLog_Entries (w_dec sample_world) False (sh_log s2) = Inr []
     \<and> Store_Get False (ID sample_logged) (sh_scores s2) = Inr (Some (manual_result (ID sample_logged) 20 before_result))"
  using manual_score_outlives_deletion [where a = "()" and del = "\<lambda>_ s. (None :: unit option, s)" and irq = 20,
      OF before_represents before_read(2,3,5)] by blast

abbreviation before_shared :: shared where
  "before_shared \<equiv> \<lparr>sh_scores = before_scores, sh_log = before_log\<rparr>"

definition after_result :: result where
  "after_result = manual_result (ID sample_logged) 20 before_result"

definition after_shared :: shared where
  "after_shared = \<lparr>sh_scores = Some (Doc [(ID sample_logged, after_result)]), sh_log = before_log\<rparr>"

text \<open>One of two organisers' requests runs to its end, the other has not begun.\<close>

lemma sample_scoring:
  "(pool_step sample_world)\<^sup>*\<^sup>* (\<lambda>_ :: bool. ScoreRead (ID sample_logged) 20, before_shared)
     ((\<lambda>_. ScoreRead (ID sample_logged) 20)(True := Finished), after_shared)"
proof -
  let ?i = "ID sample_logged" and ?ts = "\<lambda>_ :: bool. ScoreRead (ID sample_logged) 20"
  have "(pool_step sample_world)\<^sup>*\<^sup>* (?ts, before_shared) (?ts(True := ScoreWrite ?i 20 before_result), before_shared)"
    using before_read(2,3) score_read [of False ?i before_shared before_result]
    by (intro pool_run [where r = True and t = "ScoreWrite ?i 20 before_result"]) (auto simp: Store_Get_def)
  also have "(pool_step sample_world)\<^sup>*\<^sup>* \<dots> (?ts(True := Finished), after_shared)"
    using Store_Set_succeeds [OF before_read(2), of after_result] before_read(5)
      score_write [of False "\<lambda>_. False" ?i 20 before_result before_shared None "sh_scores after_shared" sample_world]
    by (intro pool_run [where r = True and t = Finished])
       (auto simp: after_result_def manual_result_def after_shared_def scores_encodable_def result_encodable_def)
  finally show ?thesis .
qed

theorem interleaved_invariant_witness:
  "SubmissionID after_result = ID sample_logged \<and> 0 \<le> TotalScore after_result \<and> TotalScore after_result \<le> 100"
proof -
  have "scores_file_ok before_scores"
    by (simp add: scores_file_ok_def before_scores_def scores_ok_def before_result_def result_ok_def blank_result_def)
  moreover have "Store_Get False (ID sample_logged) (sh_scores after_shared) = Inr (Some after_result)"
    by (simp add: Store_Get_def Store_all_def load_file_def after_shared_def)
  ultimately have "SubmissionID after_result = ID sample_logged \<and> 0 \<le> TotalScore after_result
     \<and> TotalScore after_result \<le> (if Pending after_result then 75 else 100)"
    using interleaved_invariant [OF sample_scoring, of False "ID sample_logged" after_result] by (simp add: task_ok_def)
  then show ?thesis by (simp split: if_splits)
qed

theorem interleaved_isolation_witness:
  "Store_Get False ''other'' (sh_scores after_shared) = Inr None"
  using interleaved_isolation [OF sample_scoring, of "''other''"]
  by (simp add: sample_logged_def before_scores_def Store_Get_def Store_all_def load_file_def)

end
