(* ===== verification/Archive_Races.thy ===== *)
theory Archive_Races
  imports Interleaving
begin

text \<open>
  Uploads and deletions interleaved at the archive store as well: \<^verbatim>\<open>portal/submit.go\<close> stores the archive before it
  writes score and log, and \<^verbatim>\<open>portal/delete.go\<close> removes it before it touches either. A job is what is left of one request; from the
  store on it is a task of \<^verbatim>\<open>Interleaving\<close>. The store is the local directory, whose exclusive creation decides between
  uploads under one name.
\<close>

section \<open>Jobs\<close>

text \<open>
  \<open>Upload\<close>: a checked upload with the record and the entry it will leave. \<open>Lookup\<close> and \<open>Remove\<close>: a deletion before and after it
  has found the file name. \<open>Refused\<close>: answered with an error before anything was recorded.
\<close>

datatype job =
    Upload string bytes result entry
  | Lookup string
  | Remove string string
  | Kept task
  | Refused

type_synonym yard = "shared \<times> upload_dir"

inductive upload_job :: "job \<times> yard \<Rightarrow> job \<times> yard \<Rightarrow> bool" where
  stored: "LocalStore_Save flt f (whole data) d = (None, d') \<Longrightarrow> upload_job (Upload f data r e, s, d) (Kept (KeepScore r e), s, d')"
| not_stored: "LocalStore_Save flt f (whole data) d = (Some x, d') \<Longrightarrow> upload_job (Upload f data r e, s, d) (Refused, s, d')"

inductive delete_job :: "decoder \<Rightarrow> job \<times> yard \<Rightarrow> job \<times> yard \<Rightarrow> bool" for dec where
  located: "FileLog_Entries dec u (sh_log s) = Inr es \<Longrightarrow> find (\<lambda>e. ID e = i) es = Some e \<Longrightarrow>
    delete_job dec (Lookup i, s, d) (Remove i (Filename e), s, d)"
| unknown: "\<nexists>es e. FileLog_Entries dec u (sh_log s) = Inr es \<and> find (\<lambda>e. ID e = i) es = Some e \<Longrightarrow>
    delete_job dec (Lookup i, s, d) (Refused, s, d)"
| removed: "LocalStore_Delete flt f d = (None, d') \<Longrightarrow> delete_job dec (Remove i f, s, d) (Kept (EraseScore i), s, d')"
| not_removed: "LocalStore_Delete flt f d = (Some x, d') \<Longrightarrow> delete_job dec (Remove i f, s, d) (Refused, s, d')"

inductive job_step :: "world \<Rightarrow> job \<times> yard \<Rightarrow> job \<times> yard \<Rightarrow> bool" for w where
  by_upload: "upload_job p q \<Longrightarrow> job_step w p q"
| by_delete: "delete_job (w_dec w) p q \<Longrightarrow> job_step w p q"
| by_task: "task_step w (t, s) (t', s') \<Longrightarrow> job_step w (Kept t, s, d) (Kept t', s', d)"

inductive yard_step :: "world \<Rightarrow> ('r \<Rightarrow> job) \<times> yard \<Rightarrow> ('r \<Rightarrow> job) \<times> yard \<Rightarrow> bool" for w where
  work: "job_step w (js r, y) (j, y') \<Longrightarrow> yard_step w (js, y) (js(r := j), y')"

inductive_cases yard_stepE: "yard_step w p p'"
inductive_cases job_stepE: "job_step w (j, y) q"
inductive_simps upload_job_simps:
  "upload_job (Upload f data r e, y) q" "upload_job (Lookup i, y) q" "upload_job (Remove i f, y) q"
  "upload_job (Kept t, y) q" "upload_job (Refused, y) q"
inductive_simps delete_job_simps:
  "delete_job dec (Upload f data r e, y) q" "delete_job dec (Kept t, y) q" "delete_job dec (Refused, y) q"

section \<open>Nothing is recorded that is not stored\<close>

text \<open>The uploads among the jobs that have passed the store, under the name and with the bytes they came with.\<close>

definition accepted :: "job \<Rightarrow> bool" where
  "accepted j \<longleftrightarrow> (case j of Kept _ \<Rightarrow> True | _ \<Rightarrow> False)"

definition no_deletion :: "('r \<Rightarrow> job) \<Rightarrow> bool" where
  "no_deletion js \<longleftrightarrow> (\<forall>r. case js r of Lookup _ \<Rightarrow> False | Remove _ _ \<Rightarrow> False | _ \<Rightarrow> True)"

lemma Save_keeps: "LocalStore_Save flt f src d = (x, d') \<Longrightarrow> d p = Some c \<Longrightarrow> d' p = Some c"
  by (auto simp: LocalStore_Save_def Let_def split: if_splits)

lemma Save_stores:
  "LocalStore_Save flt f (whole data) d = (None, d') \<Longrightarrow> d (dest_of f) = None \<and> d' (dest_of f) = Some data"
  by (auto simp: LocalStore_Save_def whole_def Let_def split: if_splits option.splits)

text \<open>What holds of a job that began as an upload, while nothing is deleted.\<close>

definition upload_ok_so_far :: "('r \<Rightarrow> job) \<Rightarrow> ('r \<Rightarrow> job) \<Rightarrow> upload_dir \<Rightarrow> bool" where
  "upload_ok_so_far js0 js d \<longleftrightarrow>
     (\<forall>r f data res e. js0 r = Upload f data res e \<longrightarrow>
        js r = Upload f data res e \<or> js r = Refused
        \<or> accepted (js r) \<and> d (dest_of f) = Some data
           \<and> (\<forall>r' data' res' e'. r' \<noteq> r \<longrightarrow> js0 r' = Upload f data' res' e' \<longrightarrow> \<not> accepted (js r')))"

lemma job_step_no_deletion:
  assumes "job_step w (j, s, d) (j', s', d')" "case j of Lookup _ \<Rightarrow> False | Remove _ _ \<Rightarrow> False | _ \<Rightarrow> True"
  obtains (stored) f data res e flt where "j = Upload f data res e" "j' = Kept (KeepScore res e)" "s' = s"
      "LocalStore_Save flt f (whole data) d = (None, d')"
  | (refused) f data res e flt x where "j = Upload f data res e" "j' = Refused" "s' = s"
      "LocalStore_Save flt f (whole data) d = (Some x, d')"
  | (task) t t' where "j = Kept t" "j' = Kept t'" "d' = d"
  using assms by (cases j) (auto elim!: job_stepE simp: upload_job_simps delete_job_simps)

lemma upload_ok_soD:
  assumes "upload_ok_so_far js0 js d" "js0 r = Upload f data res e"
  shows "js r = Upload f data res e \<or> js r = Refused \<or> accepted (js r) \<and> d (dest_of f) = Some data
      \<and> (\<forall>r' data' res' e'. r' \<noteq> r \<longrightarrow> js0 r' = Upload f data' res' e' \<longrightarrow> \<not> accepted (js r'))"
  using assms unfolding upload_ok_so_far_def by blast

lemma upload_ok_stored:
  assumes "upload_ok_so_far js0 js d" "js r = Upload f data res e" "LocalStore_Save flt f (whole data) d = (None, d')"
  shows "upload_ok_so_far js0 (js(r := Kept t)) d'"
  unfolding upload_ok_so_far_def
proof (intro allI impI)
  fix r2 f2 data2 res2 e2 assume r2: "js0 r2 = Upload f2 data2 res2 e2"
  note save = Save_stores [OF assms(3)] and keep = Save_keeps [OF assms(3)]
  have same: "f' = f \<and> data' = data" if "js0 r = Upload f' data' res' e'" for f' data' res' e'
    using upload_ok_soD [OF assms(1) that] assms(2) by (auto simp: accepted_def)
  have free: "\<not> accepted (js r')" if "js0 r' = Upload f data' res' e'" for r' data' res' e'
    using upload_ok_soD [OF assms(1) that] save by (auto simp: accepted_def)
  show "(js(r := Kept t)) r2 = Upload f2 data2 res2 e2 \<or> (js(r := Kept t)) r2 = Refused
     \<or> accepted ((js(r := Kept t)) r2) \<and> d' (dest_of f2) = Some data2
       \<and> (\<forall>r' data' res' e'. r' \<noteq> r2 \<longrightarrow> js0 r' = Upload f2 data' res' e' \<longrightarrow> \<not> accepted ((js(r := Kept t)) r'))"
  proof (cases "r2 = r")
    case True
    with same r2 have "f2 = f" "data2 = data" by auto
    with True save free show ?thesis by (auto simp: accepted_def)
  next
    case False
    with upload_ok_soD [OF assms(1) r2] keep same free r2 show ?thesis by (auto simp: accepted_def)
  qed
qed

lemma upload_ok_frame:
  assumes "upload_ok_so_far js0 js d" "\<And>p c. d p = Some c \<Longrightarrow> d' p = Some c"
    and "j = Refused \<and> \<not> accepted (js r) \<or> accepted j \<and> accepted (js r)"
  shows "upload_ok_so_far js0 (js(r := j)) d'"
  unfolding upload_ok_so_far_def
proof (intro allI impI)
  fix r2 f2 data2 res2 e2 assume r2: "js0 r2 = Upload f2 data2 res2 e2"
  from upload_ok_soD [OF assms(1) r2] assms(2,3)
  show "(js(r := j)) r2 = Upload f2 data2 res2 e2 \<or> (js(r := j)) r2 = Refused
     \<or> accepted ((js(r := j)) r2) \<and> d' (dest_of f2) = Some data2
       \<and> (\<forall>r' data' res' e'. r' \<noteq> r2 \<longrightarrow> js0 r' = Upload f2 data' res' e' \<longrightarrow> \<not> accepted ((js(r := j)) r'))"
    by (cases "r2 = r") (auto simp: accepted_def)
qed

lemma uploads_steps:
  assumes "(yard_step w)\<^sup>*\<^sup>* (js0, s0, d0) (js, s, d)" "no_deletion js0"
  shows "no_deletion js \<and> upload_ok_so_far js0 js d \<and> (\<forall>p c. d0 p = Some c \<longrightarrow> d p = Some c)"
  using assms
proof (induction "(js, s, d)" arbitrary: js s d rule: rtranclp_induct)
  case base
  then show ?case by (simp add: upload_ok_so_far_def)
next
  case (step y)
  obtain js1 s1 d1 where y: "y = (js1, s1, d1)" by (cases y)
  with step have ih: "no_deletion js1" "upload_ok_so_far js0 js1 d1" "\<forall>p c. d0 p = Some c \<longrightarrow> d1 p = Some c" by blast+
  from step(2) y obtain r j where j: "job_step w (js1 r, s1, d1) (j, s, d)" "js = js1(r := j)" by (auto elim: yard_stepE)
  have "case js1 r of Lookup _ \<Rightarrow> False | Remove _ _ \<Rightarrow> False | _ \<Rightarrow> True" using ih(1) by (simp add: no_deletion_def)
  with j(1) show ?case
  proof (cases rule: job_step_no_deletion)
    case (stored f data res e flt)
    with ih j(2) upload_ok_stored [OF ih(2)] Save_keeps [OF stored(4)] show ?thesis by (auto simp: no_deletion_def)
  next
    case (refused f data res e flt x)
    with ih j(2) upload_ok_frame [OF ih(2), of d Refused r] Save_keeps [OF refused(4)] show ?thesis
      by (auto simp: no_deletion_def accepted_def)
  next
    case (task t t')
    with ih j(2) upload_ok_frame [OF ih(2), of d j r] show ?thesis by (auto simp: no_deletion_def accepted_def)
  qed
qed

text \<open>C18: however uploads interleave with each other, with manual scores and with re-scoring runs, as long as nothing is deleted:
  an upload gets past the store only with its archive stored whole and unchanged from then on, so nothing is scored
  or logged that is not there to be looked at; of several uploads under one name at most one gets past it; and no
  archive that was stored before changes.\<close>

theorem uploads_interleaved:
  assumes "(yard_step w)\<^sup>*\<^sup>* (js, s, d) (js', s', d')" "no_deletion js"
  shows "(js r = Upload f data res e \<and> accepted (js' r) \<longrightarrow> d' (dest_of f) = Some data)
     \<and> (js r = Upload f data res e \<and> js r2 = Upload f data2 res2 e2 \<and> r \<noteq> r2 \<longrightarrow> \<not> (accepted (js' r) \<and> accepted (js' r2)))
     \<and> (d p = Some c \<longrightarrow> d' p = Some c)"
  using uploads_steps [OF assms] upload_ok_soD [of js js' d' r f data res e] by (auto simp: accepted_def)

section \<open>Two deletions of one submission\<close>

text \<open>Three jobs: two deletions and an upload.\<close>

definition three :: "job \<Rightarrow> job \<Rightarrow> job \<Rightarrow> bool option \<Rightarrow> job" where
  "three a b c k = (case k of Some x \<Rightarrow> if x then a else b | None \<Rightarrow> c)"

lemma three_upd [simp]:
  "(three a b c)(Some True := x) = three x b c" "(three a b c)(Some False := x) = three a x c" "(three a b c)(None := x) = three a b x"
  by (auto simp: three_def fun_eq_iff split: option.splits)

lemma three_works:
  "job_step w (a, y) (a', y') \<Longrightarrow> yard_step w (three a b c, y) (three a' b c, y')"
  "job_step w (b, y) (b', y') \<Longrightarrow> yard_step w (three a b c, y) (three a b' c, y')"
  "job_step w (c, y) (c', y') \<Longrightarrow> yard_step w (three a b c, y) (three a b c', y')"
  using work [of w "three a b c" "Some True" y a' y'] work [of w "three a b c" "Some False" y b' y']
    work [of w "three a b c" None y c' y'] by (simp_all add: three_def)

text \<open>C21: a deletion removes the archive under the name it read before: when two deletions of one submission overlap, the name is
  free once the first has removed the archive, a new upload may take it, be scored, logged and answered with success,
  and the second deletion then removes the new archive, whose entry stays in the log.\<close>

theorem overlapping_deletions:
  assumes "represents (w_enc w) (w_dec w) lf [e]" "lawful (w_enc w) (w_dec w) e'" "Filename e' = Filename e" "validKey (Filename e)"
  shows "\<exists>a b s' d'. (yard_step w)\<^sup>*\<^sup>*
       (three (Lookup (ID e)) (Lookup (ID e)) (Upload (Filename e') data r e'), \<lparr>sh_scores = sf, sh_log = lf\<rparr>, d)
       (three a b (Kept Finished), s', d')
     \<and> FileLog_Entries (w_dec w) False (sh_log s') = Inr [e, e'] \<and> d' (dest_of (Filename e')) = None"
proof -
  let ?f = "Filename e" and ?i = "ID e" and ?s = "\<lparr>sh_scores = sf, sh_log = lf\<rparr>"
  let ?d0 = "d([?f] := None)" and ?d1 = "d([?f] \<mapsto> data)" and ?up = "Upload ?f data r e'"
  have look: "job_step w (Lookup ?i, ?s, d) (Remove ?i ?f, ?s, d)"
    using represents_entries [OF assms(1)]
    by (intro by_delete delete_job.located [where u = False and es = "[e]"]) (simp_all add: FileLog_Entries_def)
  have del: "job_step w (Remove ?i ?f, s, c) (Kept (EraseScore ?i), s, c([?f] := None))" for s c
    using assms(4) by (intro by_delete delete_job.removed [where flt = no_faults]) (simp add: LocalStore_Delete_def no_faults_def)
  have store: "job_step w (?up, ?s, ?d0) (Kept (KeepScore r e'), ?s, ?d1)"
    using assms(4)
    by (intro by_upload upload_job.stored [where flt = no_faults]) (simp add: LocalStore_Save_def no_faults_def whole_def)
  obtain x sf' where "Store_Set False (\<lambda>_. False) r sf = (x, sf')" by fastforce
  then have score: "job_step w (Kept (KeepScore r e'), ?s, ?d1) (Kept (KeepEntry e'), \<lparr>sh_scores = sf', sh_log = lf\<rparr>, ?d1)"
    using keep_score [of False "\<lambda>_. False" r ?s x sf' w e'] by (intro by_task) simp
  obtain lf' where rec: "FileLog_Record (w_enc w) \<lparr>open_err = False, written = None\<rparr> e' lf = (None, lf')"
    using assms(2) by (auto simp: FileLog_Record_def lawful_def split: option.splits)
  have log: "job_step w (Kept (KeepEntry e'), \<lparr>sh_scores = sf', sh_log = lf\<rparr>, ?d1)
      (Kept Finished, \<lparr>sh_scores = sf', sh_log = lf'\<rparr>, ?d1)"
    using keep_entry [of w "\<lparr>open_err = False, written = None\<rparr>" e' "\<lparr>sh_scores = sf', sh_log = lf\<rparr>" None lf'] rec
    by (intro by_task) simp
  let ?rm = "Remove ?i ?f" and ?er = "Kept (EraseScore ?i)" and ?done = "Kept Finished"
  have "(yard_step w)\<^sup>*\<^sup>* (three (Lookup ?i) (Lookup ?i) ?up, ?s, d) (three ?rm (Lookup ?i) ?up, ?s, d)"
    by (intro r_into_rtranclp three_works(1) look)
  also have "(yard_step w)\<^sup>*\<^sup>* \<dots> (three ?rm ?rm ?up, ?s, d)" by (intro r_into_rtranclp three_works(2) look)
  also have "(yard_step w)\<^sup>*\<^sup>* \<dots> (three ?er ?rm ?up, ?s, ?d0)" by (intro r_into_rtranclp three_works(1) del)
  also have "(yard_step w)\<^sup>*\<^sup>* \<dots> (three ?er ?rm (Kept (KeepScore r e')), ?s, ?d1)"
    by (intro r_into_rtranclp three_works(3) store)
  also have "(yard_step w)\<^sup>*\<^sup>* \<dots> (three ?er ?rm (Kept (KeepEntry e')), \<lparr>sh_scores = sf', sh_log = lf\<rparr>, ?d1)"
    by (intro r_into_rtranclp three_works(3) score)
  also have "(yard_step w)\<^sup>*\<^sup>* \<dots> (three ?er ?rm ?done, \<lparr>sh_scores = sf', sh_log = lf'\<rparr>, ?d1)"
    by (intro r_into_rtranclp three_works(3) log)
  also have "(yard_step w)\<^sup>*\<^sup>* \<dots> (three ?er ?er ?done, \<lparr>sh_scores = sf', sh_log = lf'\<rparr>, ?d1([?f] := None))"
    by (intro r_into_rtranclp three_works(2) del)
  finally have "(yard_step w)\<^sup>*\<^sup>* (three (Lookup ?i) (Lookup ?i) (Upload (Filename e') data r e'), ?s, d)
      (three ?er ?er ?done, \<lparr>sh_scores = sf', sh_log = lf'\<rparr>, ?d1([?f] := None))" by (simp add: assms(3))
  moreover have "FileLog_Entries (w_dec w) False lf' = Inr [e, e']"
    using represents_entries [OF Record_represents [OF assms(1,2) rec]] by (simp add: FileLog_Entries_def)
  moreover have "(?d1([?f] := None)) (dest_of (Filename e')) = None" using assms(3,4) by simp
  ultimately show ?thesis
    by (intro exI [of _ ?er] exI [of _ "\<lparr>sh_scores = sf', sh_log = lf'\<rparr>"] exI [of _ "?d1([?f] := None)"]) simp
qed

section \<open>Concrete instances\<close>

text \<open>A second entry under the name of the first, and codecs that know both.\<close>

definition second_logged :: entry where
  "second_logged = sample_logged\<lparr>ID := ''01''\<rparr>"

definition two_world :: world where
  "two_world = sample_world
     \<lparr>w_enc := \<lambda>e. if e = sample_logged then Some ''{1}'' else if e = second_logged then Some ''{2}'' else None,
      w_dec := \<lambda>b. if b = ''{1}'' then Some sample_logged else if b = ''{2}'' then Some second_logged else None\<rparr>"

lemma two_lawful: "lawful (w_enc two_world) (w_dec two_world) sample_logged" "lawful (w_enc two_world) (w_dec two_world) second_logged"
proof -
  have "trim_space ''{1}'' = ''{1}''" "trim_space ''{2}'' = ''{2}''" by code_simp+
  moreover have "second_logged \<noteq> sample_logged" by (simp add: second_logged_def sample_logged_def)
  ultimately show "lawful (w_enc two_world) (w_dec two_world) sample_logged" "lawful (w_enc two_world) (w_dec two_world) second_logged"
    by (simp_all add: lawful_def two_world_def nl_def cr_def MaxScanTokenSize_def)
qed

theorem overlapping_deletions_witness:
  "\<exists>a b s' d'. (yard_step two_world)\<^sup>*\<^sup>*
       (three (Lookup ''00'') (Lookup ''00'') (Upload sample_name ''new'' before_result second_logged),
        \<lparr>sh_scores = None, sh_log = one_line\<rparr>, [[sample_name] \<mapsto> ''old''])
       (three a b (Kept Finished), s', d')
     \<and> FileLog_Entries (w_dec two_world) False (sh_log s') = Inr [sample_logged, second_logged]
     \<and> d' (dest_of sample_name) = None"
proof -
  have "represents (w_enc two_world) (w_dec two_world) one_line [sample_logged]"
    using two_lawful(1) by (simp add: represents_def one_line_def two_world_def)
  moreover have "validKey sample_name" by code_simp
  ultimately show ?thesis
    using overlapping_deletions [of two_world one_line sample_logged second_logged "''new''" before_result None "[[sample_name] \<mapsto> ''old'']"]
      two_lawful(2) by (simp add: second_logged_def sample_logged_def)
qed

theorem uploads_interleaved_witness:
  "\<exists>js' s' d'. (yard_step sample_world)\<^sup>*\<^sup>*
       (\<lambda>k :: bool. Upload sample_name (if k then ''one'' else ''two'') before_result sample_logged,
        before_shared, Map.empty) (js', s', d')
     \<and> accepted (js' True) \<and> \<not> accepted (js' False) \<and> d' (dest_of sample_name) = Some ''one''"
proof -
  let ?up = "\<lambda>k :: bool. Upload sample_name (if k then ''one'' else ''two'') before_result sample_logged"
  let ?kept = "?up(True := Kept (KeepScore before_result sample_logged))" and ?d = "[[sample_name] \<mapsto> ''one'']"
  have key: "validKey sample_name" by code_simp
  have "job_step sample_world (?up True, before_shared, Map.empty) (Kept (KeepScore before_result sample_logged), before_shared, ?d)"
    using key by (intro by_upload) (simp add: upload_job_simps LocalStore_Save_def no_faults_def whole_def exI [of _ no_faults])
  then have run: "(yard_step sample_world)\<^sup>*\<^sup>* (?up, before_shared, Map.empty) (?kept, before_shared, ?d)"
    by (intro r_into_rtranclp work)
  have "accepted (?kept True)" by (simp add: accepted_def)
  with uploads_interleaved [OF run, of True sample_name "''one''" before_result sample_logged False "''two''" before_result sample_logged]
  have "accepted (?kept True) \<and> \<not> accepted (?kept False) \<and> ?d (dest_of sample_name) = Some ''one''"
    by (simp add: no_deletion_def)
  with run show ?thesis by blast
qed

end
