(* ===== verification/Spec2Isabelle.thy ===== *)
theory Spec2Isabelle
  imports Registry Portal_Limit Windowed_Reads Archive_Races
begin

text \<open>
  Validator diagnostics portal: a verification of the server in \<^verbatim>\<open>src/\<close>.

  \<^bold>\<open>The program.\<close> A chain's organisers run an exercise; every validator operator proves who they are by signing a
  challenge, uploads one archive with logs and metadata, and gets points for it. The parts are the login
  (\<^verbatim>\<open>auth\<close>), the validation of an upload (\<^verbatim>\<open>submission\<close>), the antivirus (\<^verbatim>\<open>clamav\<close>), the rubric and the records of
  scores (\<^verbatim>\<open>scoring\<close>), the configuration of the exercise (\<^verbatim>\<open>exercise\<close>), the archive stores (\<^verbatim>\<open>storage\<close>), the HTTP handlers
  that tie them together (\<^verbatim>\<open>portal\<close>), and three programs: the server (\<^verbatim>\<open>cmd/portal\<close>), a reduced server for development
  (\<^verbatim>\<open>cmd/portal-dev\<close>) and a tool that scores stored archives again (\<^verbatim>\<open>cmd/rescore\<close>). A request for \<^verbatim>\<open>/submit\<close> takes a slot
  (\<open>LimitSubmissions\<close>), is checked, scanned, stored, scored and logged, and publishes its progress on the way;
  the organisers read log and scores, add the manual score, delete, and set the exercise.

  \<^bold>\<open>Theories and sources.\<close> The state of a component is a record or a file value, an operation takes the state and
  returns it with its answer; an error is a value of a sum or option type; what the environment decides in one call
  (clock, random source, failing disk, network or context) is an argument.
  \<^item> \<open>Prelude\<close>, \<open>Go_Time\<close>, \<open>Streams\<close>, \<open>Json\<close>, \<open>Base64\<close>: 64-bit wrap-around, strings, instants and \<open>time.Parse\<close>, readers and
    line scanning, decoding of JSON trees into structs, base64 and hexadecimal, as the sources use them.
  \<^item> \<open>Submission_Archive\<close>, \<open>Submission_Name\<close>, \<open>Submission_Metadata\<close>: \<^verbatim>\<open>submission/archive.go\<close>, \<^verbatim>\<open>name.go\<close>, \<^verbatim>\<open>metadata.go\<close>. Each
    validator is shown to accept exactly what an abstract description says, the overflow of a limit included.
  \<^item> \<open>Atomicfile\<close>: \<^verbatim>\<open>internal/atomicfile/write.go\<close> as a sequence of system calls with every intermediate directory; the
    locale \<open>document_store\<close> is the contract of a file replaced this way.
  \<^item> \<open>Exercise\<close>: \<^verbatim>\<open>exercise/*.go\<close>, an instance of that contract. \<open>Scoring\<close>, \<open>Score_Store\<close>: \<^verbatim>\<open>scoring/score.go\<close>, \<^verbatim>\<open>result.go\<close>,
    \<^verbatim>\<open>store.go\<close>; the records are an instance of the locale \<open>keyed_store\<close>, and \<open>result_ok\<close> is their invariant.
  \<^item> \<open>Log_Window\<close>: \<^verbatim>\<open>scoring/checks.go\<close>, the recovery of timestamps and the coverage of the investigation window.
  \<^item> \<open>Clamav\<close>: \<^verbatim>\<open>clamav/*.go\<close>. One session with the daemon at the level of the bytes on the wire, and the windowed scan
    with its overlap; the locale \<open>draining_scanner\<close> is what the windows rely on of a scanner.
  \<^item> \<open>Readers\<close>, \<open>Windowed_Reads\<close>: the readers of \<^verbatim>\<open>io\<close> one \<open>Read\<close> at a time, with the locale \<open>io_reader\<close> for what every one of them
    promises, and the same scan built from them: recorder, limits, byte read ahead, tee, drain. It refines the scan over
    whole streams. The counting readers of \<^verbatim>\<open>portal/progress.go\<close> are readers of this kind.
  \<^item> \<open>Archive_Scan\<close>, \<open>Phase_Timer\<close>, \<open>Portal_Submit\<close>: \<^verbatim>\<open>portal/submit.go\<close>. \<open>Portal_Progress\<close>: \<^verbatim>\<open>portal/progress.go\<close>, with
    generation tokens as 64-bit words. \<open>Portal_Limit\<close>: \<^verbatim>\<open>portal/limit.go\<close> as the wrapper
    around one request and as a step relation over concurrent ones, with the limit switched off by a bound of zero or less.
  \<^item> \<open>Auth\<close>: \<^verbatim>\<open>auth/*.go\<close>. \<open>Storage\<close>: \<^verbatim>\<open>storage/*.go\<close> with the locale \<open>archive_store\<close>. \<open>Portal_Log\<close>: \<^verbatim>\<open>portal/log.go\<close> at the level of
    the bytes of the file, with the locale \<open>entry_log\<close> (a list of entries under append and filter).
  \<^item> \<open>Portal_Admin\<close>: \<^verbatim>\<open>portal/admin.go\<close>, \<^verbatim>\<open>score.go\<close>, \<^verbatim>\<open>delete.go\<close>, \<^verbatim>\<open>summary.go\<close>. \<open>Portal_Summary\<close>: the text of the
    summary, byte for byte. \<open>Rescore\<close>: \<^verbatim>\<open>cmd/rescore/main.go\<close>.
    \<open>Portal_Main\<close>: \<^verbatim>\<open>cmd/portal/main.go\<close> and \<^verbatim>\<open>cmd/portal-dev/main.go\<close>; its \<open>serve\<close> dispatches one request to all the
    handlers over one shared state, each organisers' route behind its own \<open>behind_gate\<close> and \<^verbatim>\<open>/submit\<close> behind the limit.
  \<^item> \<open>Interleaving\<close>: the manual score, the deletion, the end of a submission and the re-scoring run once more, as the
    sequences of lock-protected steps they are (\<open>score_task\<close>, \<open>erase_task\<close>, \<open>keep_task\<close>, \<open>rescore_task\<close>), tied to the handlers by
    lemmas on undisturbed runs, and any number of them interleaved. \<open>Archive_Races\<close> puts the archive store in front of
    them: uploads that create their file and deletions that look up a name and remove it (\<open>upload_job\<close>, \<open>delete_job\<close>).
  \<^item> \<open>Registry\<close>: the abstract machine the server refines when requests do not overlap and nothing fails underneath: a list of
    submissions with score, archive and settings under four guarded actions (\<open>perform\<close>), related to the files by \<open>realises\<close>.
  This theory holds what spans the components: the invariant of a deployment, in which requests and runs of the
  re-scoring tool alternate in any order; which answers a route can give; who can change which file; the separation of operators' and
  administrators' sessions; and the way of a submission from the upload to the dashboard.

  \<^bold>\<open>What the lemmas show.\<close> Safety of the upload path (nothing is stored before every check has passed; nothing is
  recorded that is not stored; a complete clean scan has seen every byte, window boundaries included); faithfulness
  of the records (score and log entry are one event; the second implementation of the score in \<^verbatim>\<open>cmd/rescore\<close>
  agrees with the first; manual scores survive it when nobody enters one meanwhile, and can be lost otherwise; of
  uploads that race for one name one wins, and overlapping deletions can lose a new archive; the published summary
  can be read in one way only; a manual score can outlive its submission); refinement of the server to an abstract
  registry, request by request, and with it that what is listed is stored; refinement of the files to maps and lists under any history of operations and disk
  faults, and of the windowed scan over single reads to the one over streams; the login (nonces are single use, tokens are exactly those issued, an honest
  operator gets in); confinement and durability of stored archives; bounds on concurrency, budgets and points.

  \<^bold>\<open>Parameters.\<close> Code outside the repository is an argument: HMAC-SHA256 (\<open>mac\<close>, with codes of 32 bytes), gno's addresses, sign
  bytes and signature check, the account query, the gzip and tar readers (\<open>untar\<close>, \<open>gunzip\<close>), the text side of
  JSON (\<open>read_json\<close>, \<open>json_ts\<close>, and \<open>enc\<close>/\<open>dec\<close> for log lines, with the hypothesis \<open>lawful\<close>), SHA-256, the clamd daemon,
  the S3 client, \<open>http.FileServer\<close> (\<open>d_files\<close>) and the order \<open>sort.Slice\<close> gives equal monikers. The sections on concrete instances
  instantiate them.

  \<^bold>\<open>Bounds.\<close> No definition uses fuel: every loop is structural or has a termination proof by the bytes that are left. The
  loops over single reads (\<open>copy_all\<close>, \<open>read_byte\<close>, \<open>scan_reads\<close>) are partial functions, for a reader may return nothing for ever;
  that they return is proved for readers that make progress.
  Sizes and durations are integers with \<open>wrap64\<close> where the Go code can overflow; the limits used are the source's own.

  \<^bold>\<open>Where the model is coarser than the code.\<close> \<open>LocalStore_Save\<close> is one step, while the code creates, copies and closes; each
  stage of \<open>Atomicfile\<close> is one step too, and a flush to the disk has no effect of its own, so a missing one would not be noticed. \<open>scan_reads\<close> is for
  scanners that read their window to the end, and a read error comes alone, after the last byte. \<open>equal_fold\<close> decides
  \<open>strings.EqualFold\<close> when one side is ASCII text, as the hash it is used for is; texts that agree only by folding letters outside
  ASCII count as different. The size of an upload is what the multipart reader takes from the body.
  An \<open>http.Error\<close> inside a handler is \<open>NoPayload\<close>, without its text.

  \<^bold>\<open>Not modelled.\<close> The front end under \<^verbatim>\<open>cmd/portal/static\<close>, the texts of log lines and of error messages other than the gate's, HTTP below the
  handlers (header parsing, the multipart reader, the listener and its timeouts), the mutexes (each operation holds its
  own for its whole body and is one step here; requests interleave between operations in \<open>Interleaving\<close>,
  \<open>Archive_Races\<close>, \<open>Portal_Limit\<close> and \<open>Portal_Progress\<close>, and one after the other elsewhere), and the tests.
\<close>

section \<open>The invariant of the running server\<close>

text \<open>
  Between requests the records in the score file are well formed, the exercise file holds nothing that would not
  validate, and no submission is tracked as being in flight.
\<close>

definition portal_ok :: "'s portal \<Rightarrow> bool" where
  "portal_ok p \<longleftrightarrow> scores_file_ok (scores_of p) \<and> config_file_ok (exercise_file p)
     \<and> (case tracker_of p of None \<Rightarrow> False | Some t \<Rightarrow> inflight t = Map.empty)"

lemma tracker_steps_idle:
  assumes "tracker_of p = Some t" "inflight t = Map.empty"
  shows "SubmitHandler_ServeHTTP h w r p = (out, p') \<Longrightarrow> \<exists>t'. tracker_of p' = Some t' \<and> inflight t' = Map.empty"
    and "ProgressHandler mac str now meth hdr (Some t) = (res, trk) \<Longrightarrow> trk = Some t"
proof -
  assume "SubmitHandler_ServeHTTP h w r p = (out, p')"
  from SubmitHandler_tracker [OF this assms(1)] assms show "\<exists>t'. tracker_of p' = Some t' \<and> inflight t' = Map.empty"
    by metis
next
  assume "ProgressHandler mac str now meth hdr (Some t) = (res, trk)"
  with assms(2) show "trk = Some t"
    by (auto simp: ProgressHandler_def Tracker_Get_def split: if_splits sum.splits)
qed

lemma admin_handler_ok: "portal_ok p \<Longrightarrow> portal_ok (snd (admin_handler d c rt r p))"
  by (cases rt)
     (auto simp: admin_handler_def portal_ok_def split: prod.splits
        intro: AdminScore_ok AdminDelete_scores_ok dest: ConfigHandler_config_ok [of _ "c_cfg_bad c" "c_cfg_disk c" "json_of r"])

lemma serve_ok:
  assumes "portal_ok (portal_of s)"
  shows "portal_ok (portal_of (snd (serve d c r s)))"
proof (cases "admin_data_route (newMux (hq_method r) (hq_path r))")
  case True
  from admin_handler_ok [OF assms, of d c "newMux (hq_method r) (hq_path r)" r] assms show ?thesis
    by (auto simp: serve_gated [OF True] split: prod.splits)
next
  case False
  obtain t where t: "tracker_of (portal_of s) = Some t" "inflight t = Map.empty"
    using assms by (auto simp: portal_ok_def split: option.splits)
  show ?thesis
  proof (cases "newMux (hq_method r) (hq_path r)")
    case RouteSubmit
    obtain st rep s' where v: "serve d c r s = ((st, rep), s')" by (metis prod.collapse)
    from v RouteSubmit show ?thesis
    proof (cases rule: serve_submit_cases)
      case (passed out p')
      from SubmitHandler_scores_ok [OF passed(1)] SubmitHandler_exercise [OF passed(1)] tracker_steps_idle(1) [OF t passed(1)] assms
      have "portal_ok p'" by (auto simp: portal_ok_def)
      with passed v show ?thesis by simp
    next
      case turned_away
      with v assms show ?thesis by simp
    qed
  next
    case RouteProgress
    let ?h = "d_handler d"
    obtain res trk where pr: "ProgressHandler (h_mac ?h) (addr_string ?h) (c_now c) (hq_method r) (hq_auth r) (Some t) = (res, trk)"
      by fastforce
    with tracker_steps_idle(2) [OF t pr] RouteProgress False t assms show ?thesis
      by (cases res) (simp add: serve_def portal_ok_def Let_def)
  qed (use False assms in \<open>auto simp: serve_def admin_data_route_def Let_def split: prod.splits\<close>)
qed

text \<open>
  The deployment: the server answers requests, each under its own circumstances, and between them the records may be
  scored again by \<^verbatim>\<open>cmd/rescore\<close> on the same files.
\<close>

definition fresh_server :: "'s \<Rightarrow> 's server" where
  "fresh_server a =
     \<lparr>nonces_of = NewNonceStore,
      portal_of = \<lparr>archives = a, exercise_file = None, scores_of = None, log_of = None,
                    tracker_of = Some NewProgressTracker\<rparr>\<rparr>"

definition rescored ::
  "rescore_libs \<Rightarrow> decoder \<Rightarrow> (nat \<Rightarrow> stage \<Rightarrow> bool) \<Rightarrow> int \<Rightarrow> bool \<Rightarrow> 's portal \<Rightarrow> 's portal" where
  "rescored l dec disk m apply_it p =
     p\<lparr>scores_of := snd (rescore_run l dec disk m apply_it (exercise_file p) (log_of p) (scores_of p))\<rparr>"

inductive deployed :: "('s, 'k) muxDeps \<Rightarrow> 's server \<Rightarrow> bool" for d where
  boot: "deployed d (fresh_server a)"
| request: "deployed d s \<Longrightarrow> deployed d (snd (serve d c r s))"
| rescore: "deployed d s \<Longrightarrow> deployed d (s\<lparr>portal_of := rescored l (d_dec d) disk m apply_it (portal_of s)\<rparr>)"

lemma deployed_ok: "deployed d s \<Longrightarrow> portal_ok (portal_of s)"
proof (induction rule: deployed.induct)
  case (boot a)
  show ?case by (simp add: fresh_server_def portal_ok_def NewProgressTracker_def scores_file_ok_def config_file_ok_def)
next
  case (request s c r)
  then show ?case by (simp add: serve_ok)
next
  case (rescore s l disk m apply_it)
  then show ?case by (simp add: portal_ok_def rescored_def rescore_run_ok)
qed

lemma config_file_ok_Get:
  "config_file_ok cf \<Longrightarrow> FileStore_Get u cf = Inr cfg \<Longrightarrow> cfg = zero_config \<or> Validate cfg = None"
  by (auto simp: config_file_ok_def FileStore_Get_def load_file_def split: option.splits if_splits doc.splits)

text \<open>C1: in every state a deployment can reach from empty files, whatever requests are made by whomever and in whatever
  order, with whatever faults of the disk, the clock and the random source, and however often the records are
  scored again: a score read back belongs to the submission asked for and lies between 0 and 100 points, at most 75
  until the manual part is in; the configuration read back is the empty one or a valid one; and no finished
  submission is left in the tracker.\<close>

theorem deployment_invariant:
  assumes "deployed d s"
  shows "(Store_Get u i (scores_of (portal_of s)) = Inr (Some r) \<longrightarrow>
            SubmissionID r = i \<and> 0 \<le> TotalScore r \<and> TotalScore r \<le> (if Pending r then 75 else 100))
     \<and> (FileStore_Get u (exercise_file (portal_of s)) = Inr cfg \<longrightarrow> cfg = zero_config \<or> Validate cfg = None)
     \<and> (\<exists>t. tracker_of (portal_of s) = Some t \<and> inflight t = Map.empty)"
proof -
  have ok: "scores_file_ok (scores_of (portal_of s))" "config_file_ok (exercise_file (portal_of s))"
    "\<exists>t. tracker_of (portal_of s) = Some t \<and> inflight t = Map.empty"
    using deployed_ok [OF assms] by (auto simp: portal_ok_def split: option.splits)
  from Store_Get_ok [OF ok(1), of u i r] result_ok_total [of r] config_file_ok_Get [OF ok(2), of u cfg] ok(3)
  show ?thesis by argo
qed

section \<open>Who can change what\<close>

definition uploading :: "('s, 'k) muxDeps \<Rightarrow> climate \<Rightarrow> http_request \<Rightarrow> bool" where
  "uploading d c r \<longleftrightarrow>
     newMux (hq_method r) (hq_path r) = RouteSubmit \<and> hq_method r = ''POST''
     \<and> (\<exists>addr. RequireSession (h_mac (d_handler d)) (t_auth (c_weather c)) (hq_auth r) = Inr addr)"

text \<open>
  The organisers' requests by method and path, whatever the routing table makes of them, and the payloads that are
  theirs alone.
\<close>

definition organisers_request :: "http_request \<Rightarrow> bool" where
  "organisers_request r \<longleftrightarrow>
     hq_path r \<in> {[''admin'', ''submissions''], [''admin'', ''exercise''], [''admin'', ''summary'']}
     \<or> (\<exists>i. i \<noteq> []
          \<and> (hq_path r = [''admin'', ''submissions'', i, ''score''] \<and> hq_method r = ''POST''
             \<or> hq_path r = [''admin'', ''submissions'', i] \<and> hq_method r = ''DELETE''))"

definition organisers_data :: "reply \<Rightarrow> bool" where
  "organisers_data rep \<longleftrightarrow>
     (case rep of Rows _ \<Rightarrow> True | ConfigReply _ \<Rightarrow> True | ScoreReply _ \<Rightarrow> True | SummaryReply _ \<Rightarrow> True | _ \<Rightarrow> False)"

lemma organisers_request_route: "organisers_request r \<Longrightarrow> admin_data_route (newMux (hq_method r) (hq_path r))"
  by (auto simp: organisers_request_def newMux_def admin_data_route_def)

lemma ungated_data: "\<not> admin_data_route (newMux (hq_method r) (hq_path r)) \<Longrightarrow> \<not> organisers_data (snd (fst (serve d c r s)))"
  by (cases "newMux (hq_method r) (hq_path r)")
     (auto simp: serve_def organisers_data_def reply_of_def admin_data_route_def serveFile_def assets_handler_def submit_reply_def
       Let_def split: prod.split option.split limited.split)

text \<open>C6: without a valid session of an administrator on the allow list, every organisers' request, told by its method and path,
  is answered 401 when the session is not valid and 403 when its operator is not on the list, with nothing but the text of that error and
  with no change to the server; and no request whatsoever, on any path, is answered with a row, a setting, a score or a summary.\<close>

theorem serve_admin_gate:
  assumes "\<not> authorised d c r"
  shows "(organisers_request r \<longrightarrow>
            serve d c r s =
              (if RequireSession (d_admin_mac d) (c_now c) (hq_auth r) = Inl ErrInvalidSession
               then ((401, ErrorText ''unauthorized''), s) else ((403, ErrorText ''forbidden''), s)))
     \<and> \<not> organisers_data (snd (fst (serve d c r s)))"
proof (cases "admin_data_route (newMux (hq_method r) (hq_path r))")
  case True
  then have "serve d c r s = (denial d c r, s)" using assms by (simp add: serve_gated)
  then show ?thesis by (simp add: denial_def organisers_data_def)
next
  case False
  then show ?thesis using organisers_request_route ungated_data by blast
qed

text \<open>What the handler behind an organisers' route leaves alone.\<close>

lemma ConfigHandler_read_only:
  "hq_method r \<noteq> ''POST'' \<Longrightarrow> snd (ConfigHandler bad disk (json_of r) cf) = cf"
  by (simp add: ConfigHandler_def json_of_def split: sum.split)

lemma admin_handler_exercise:
  assumes "rt \<noteq> RouteExercise \<or> hq_method r \<noteq> ''POST''"
  shows "exercise_file (snd (admin_handler d c rt r p)) = exercise_file p"
proof (cases rt)
  case RouteExercise
  with assms ConfigHandler_read_only [of r "c_cfg_bad c" "c_cfg_disk c" "exercise_file p"] show ?thesis
    by (auto simp: admin_handler_def split: prod.split)
qed (simp_all add: admin_handler_def split: prod.split)

lemma admin_handler_scores:
  "\<nexists>i. rt = RouteScore i \<or> rt = RouteDelete i \<Longrightarrow> scores_of (snd (admin_handler d c rt r p)) = scores_of p"
  by (cases rt) (simp_all add: admin_handler_def split: prod.split)

lemma admin_handler_log:
  assumes "\<nexists>i. rt = RouteDelete i"
  shows "log_of (snd (admin_handler d c rt r p)) = log_of p \<and> archives (snd (admin_handler d c rt r p)) = archives p"
  using assms by (cases rt) (simp_all add: admin_handler_def split: prod.split)

lemma SubmitHandler_needs_session:
  assumes "\<nexists>addr. RequireSession (h_mac h) (t_auth w) (up_auth r) = Inr addr \<and> up_method r = ''POST''"
  shows "snd (SubmitHandler_ServeHTTP h w r p) = p"
  using assms by (auto simp: SubmitHandler_ServeHTTP_def split: sum.split)

text \<open>C7: the files change only at the hands of those entitled to: the configuration by an administrator's \<open>POST\<close>, a score
  by an operator's upload or an administrator's scoring or deletion, the log and the archives by an upload or an
  administrator's deletion; and the nonces only by the three routes of the login.\<close>

theorem serve_writes:
  assumes "snd (serve d c r s) = s'"
    and "rt = newMux (hq_method r) (hq_path r)" and "p = portal_of s" and "p' = portal_of s'"
  shows "(exercise_file p' \<noteq> exercise_file p \<longrightarrow> rt = RouteExercise \<and> hq_method r = ''POST'' \<and> authorised d c r)
     \<and> (scores_of p' \<noteq> scores_of p \<longrightarrow>
          uploading d c r \<or> (\<exists>i. rt = RouteScore i \<or> rt = RouteDelete i) \<and> authorised d c r)
     \<and> (log_of p' \<noteq> log_of p \<or> archives p' \<noteq> archives p \<longrightarrow>
          uploading d c r \<or> (\<exists>i. rt = RouteDelete i) \<and> authorised d c r)
     \<and> (nonces_of s' \<noteq> nonces_of s \<longrightarrow> rt \<in> {RouteChallenge, RouteVerify, RouteAdminVerify})"
proof (cases "admin_data_route rt")
  case True
  then have "s' = (if authorised d c r then s\<lparr>portal_of := snd (admin_handler d c rt r p)\<rparr> else s)"
    using assms by (auto simp: serve_gated split: prod.splits)
  then show ?thesis using admin_handler_exercise [of rt r d c p] admin_handler_scores [of rt d c r p]
      admin_handler_log [of rt d c r p] assms(3,4) by auto
next
  case admin: False
  show ?thesis
  proof (cases "rt = RouteSubmit \<and> uploading d c r")
    case True
    obtain st rep where v: "serve d c r s = ((st, rep), s')" using assms(1) by (metis prod.collapse)
    have "newMux (hq_method r) (hq_path r) = RouteSubmit" using True assms(2) by simp
    with v show ?thesis
    proof (cases rule: serve_submit_cases)
      case (passed out q)
      with SubmitHandler_exercise [OF passed(1)] True assms(3,4) show ?thesis by simp
    qed (use assms(3,4) in simp)
  next
    case False
    have "s' = s" if sub: "rt = RouteSubmit"
    proof -
      obtain st rep where "serve d c r s = ((st, rep), s')" using assms(1) by (metis prod.collapse)
      moreover have "newMux (hq_method r) (hq_path r) = RouteSubmit" using sub assms(2) by simp
      ultimately show "s' = s"
      proof (cases rule: serve_submit_cases)
        case (passed out q)
        let ?u = "\<lparr>up_method = hq_method r, up_auth = hq_auth r, up_size = hq_size r, up_form = hq_form r\<rparr>"
        have "\<nexists>addr. RequireSession (h_mac (d_handler d)) (t_auth (c_weather c)) (up_auth ?u) = Inr addr \<and> up_method ?u = ''POST''"
          using False sub assms(2) by (auto simp: uploading_def)
        from SubmitHandler_needs_session [OF this, of "portal_of s"] have "q = portal_of s" using passed(1) by simp
        with passed show ?thesis by simp
      qed
    qed
    moreover have "rt \<noteq> RouteSubmit \<Longrightarrow> exercise_file p' = exercise_file p \<and> scores_of p' = scores_of p
        \<and> log_of p' = log_of p \<and> archives p' = archives p"
      "rt \<notin> {RouteSubmit, RouteChallenge, RouteVerify, RouteAdminVerify} \<Longrightarrow> nonces_of s' = nonces_of s"
      unfolding assms(1) [symmetric] assms(3,4)
      by (cases rt; use admin assms(2) [symmetric] in \<open>simp add: admin_data_route_def serve_def Let_def split: prod.split\<close>)+
    ultimately show ?thesis using assms(3,4) by (cases "rt = RouteSubmit") auto
  qed
qed

text \<open>C25: an operator's upload token does not open the organisers' routes, whoever the operator is: as long as the two
  signers' authentication codes differ, every request that presents such a token there is answered 401 and
  changes nothing.\<close>

theorem upload_token_refused:
  assumes "serve d c r s = ((200, Token token), s1)" "newMux (hq_method r) (hq_path r) = RouteVerify"
    and "\<And>p. length p = AddressSize + expiryLen \<Longrightarrow> h_mac (d_handler d) p \<noteq> d_admin_mac d p"
    and "organisers_request q" "hq_auth q = ''Bearer '' @ token"
  shows "serve d c' q s' = ((401, ErrorText ''unauthorized''), s')"
proof -
  obtain st out n where v: "VerifyHandler (d_from_bech32 d) (d_verifier d) (h_mac (d_handler d)) (d_ttl d) (c_now c)
      (hq_method r) (hq_json r) (nonces_of s) = ((st, out), n)" by (metis prod.exhaust)
  then have "out = Some token"
    using assms(1,2) by (cases out) (auto simp: serve_def Let_def admin_data_route_def reply_of_def)
  with v obtain addr where "token = SessionSigner_Issue (h_mac (d_handler d)) (d_ttl d) (c_now c) addr"
    by (auto elim: VerifyHandler_issues)
  then have "SessionSigner_Verify (d_admin_mac d) now token = Inl ErrInvalidSession" for now
    using session_foreign [OF assms(3)] by simp
  then have "RequireSession (d_admin_mac d) (c_now c') (hq_auth q) = Inl ErrInvalidSession"
    using trim_prefix_append [of "''Bearer ''" token] by (simp add: RequireSession_def assms(5))
  then show ?thesis
    using organisers_request_route [OF assms(4)] by (simp add: serve_gated authorised_def denial_def)
qed

text \<open>The separation of the two kinds of session rests on the two configured secrets being different, which the start-up
  does not check: when both environment variables hold the same secret, the portal starts, and the token an
  allow-listed operator gets for uploading opens the organisers' routes as well.\<close>

theorem shared_secret_crosses:
  assumes "portal_main from_bech32 addr_str f env = Inr b" "env_session_secret env \<noteq> []"
    and "env_admin_secret env = env_session_secret env"
    and "length addr = AddressSize" "\<And>key p. length (hmac key p) = macLen"
    and "addr_string (d_handler libs) addr \<in> set (b_allow b)"
    and "in_int64 (unix_time (time_add t (b_ttl b)))" "unix_time (c_now c) \<le> unix_time (time_add t (b_ttl b))"
    and "hq_auth q = ''Bearer '' @ SessionSigner_Issue (h_mac (submitHandlerFor hmac clamd (d_handler libs) b)) (b_ttl b) t addr"
  shows "authorised (deps_of hmac clamd libs b) c q"
proof -
  have same: "b_admin_secret b = b_secret b"
    using assms(1-3) by (auto simp: portal_main_def loadOrGenerateSecret_def split: if_splits sum.splits option.splits)
  let ?tok = "SessionSigner_Issue (hmac (b_secret b)) (b_ttl b) t addr"
  have "SessionSigner_Verify (hmac (b_secret b)) (c_now c) ?tok = Inr addr"
    using session_accepts [OF assms(4) _ assms(7), of "hmac (b_secret b)" "c_now c"] assms(5,8) by simp
  then have "RequireSession (hmac (b_secret b)) (c_now c) (hq_auth q) = Inr addr"
    using has_prefix_append [of "''Bearer ''" ?tok] trim_prefix_append [of "''Bearer ''" ?tok]
    by (simp add: RequireSession_def assms(9) submitHandlerFor_def)
  with assms(6) show ?thesis by (simp add: authorised_def deps_of_def submitHandlerFor_def same)
qed

section \<open>What a route answers\<close>









section \<open>From the upload to the dashboard\<close>

text \<open>C15: a submission answered 200 is on the organisers' dashboard: when the append to the log went through, the next
  authorised \<open>GET /admin/submissions\<close> lists the entries that were there before and then this one, under the
  operator who uploaded it and the file name it was uploaded as, with its score if there is one. The log is intact before the upload
  and the codec handles the new entry; log and scores can be read when the list is asked for.\<close>

theorem accepted_submission_listed:
  assumes "serve d c r s = ((200, Submission resp), s1)" "newMux (hq_method r) (hq_path r) = RouteSubmit"
    and "LogWired (d_handler d)" "log_faults (c_weather c) = \<lparr>open_err = False, written = None\<rparr>"
    and "represents (h_enc (d_handler d)) (d_dec d) (log_of (portal_of s)) es"
    and "newMux (hq_method q) (hq_path q) = RouteSubmissions" "hq_method q = ''GET''" "authorised d c' q"
    and "\<not> c_log_bad c'" "Store_ByID (c_scores_bad c') (scores_of (portal_of s1)) = Inr m"
  shows "\<exists>e addr data. RequireSession (h_mac (d_handler d)) (t_auth (c_weather c)) (hq_auth r) = Inr addr
     \<and> OperatorAddress e = addr_string (d_handler d) addr \<and> hq_form r = Some (Some (Filename e, data))
     \<and> SubmittedAt e = t_recorded (c_weather c)
     \<and> log_of (portal_of s1) = snd (FileLog_Record (h_enc (d_handler d)) (log_faults (c_weather c)) e (log_of (portal_of s)))
     \<and> (lawful (h_enc (d_handler d)) (d_dec d) e \<longrightarrow>
          serve d c' q s1 = ((200, Rows (map (admin_row m) (es @ [e]))), s1))"
proof -
  let ?h = "d_handler d" and ?u = "\<lparr>up_method = hq_method r, up_auth = hq_auth r, up_size = hq_size r, up_form = hq_form r\<rparr>"
  have "SubmitHandler_ServeHTTP ?h (c_weather c) ?u (portal_of s) = ((200, resp), portal_of s1)"
    using assms(1,2) by (cases rule: serve_submit_cases) auto
  then obtain addr fname data e where e: "RequireSession (h_mac ?h) (t_auth (c_weather c)) (hq_auth r) = Inr addr"
    "hq_form r = Some (Some (fname, data))" "Filename e = fname" "OperatorAddress e = addr_string ?h addr"
    "SubmittedAt e = t_recorded (c_weather c)"
    "log_of (portal_of s1) = snd (FileLog_Record (h_enc ?h) (log_faults (c_weather c)) e (log_of (portal_of s)))"
    using assms(3) by (auto elim: SubmitHandler_logs)
  have "serve d c' q s1 = ((200, Rows (map (admin_row m) (es @ [e]))), s1)" if l: "lawful (h_enc ?h) (d_dec d) e"
  proof -
    have "fst (FileLog_Record (h_enc ?h) (log_faults (c_weather c)) e (log_of (portal_of s))) = None"
      using l by (auto simp: FileLog_Record_def assms(4) lawful_def Let_def split: option.splits)
    then have "represents (h_enc ?h) (d_dec d) (log_of (portal_of s1)) (es @ [e])"
      using e(6) Record_represents [OF assms(5) l, of "log_faults (c_weather c)"] by (metis prod.collapse)
    then have "FileLog_Entries (d_dec d) False (log_of (portal_of s1)) = Inr (es @ [e])"
      by (simp add: FileLog_Entries_def represents_entries)
    then show ?thesis
      using assms(6-10)
      by (simp add: serve_gated admin_data_route_def admin_handler_def AdminSubmissionsHandler_def reply_of_def)
  qed
  with e show ?thesis by metis
qed

section \<open>Concrete instances\<close>

theorem deployment_invariant_witness:
  "\<exists>t. tracker_of (portal_of (snd (serve sample_deps sample_climate (http ''POST'' [''submit''] [] None) (fresh_server Map.empty)))) = Some t
     \<and> inflight t = Map.empty"
  using deployment_invariant [OF deployed.request [OF deployed.boot [of sample_deps Map.empty], of sample_climate
      "http ''POST'' [''submit''] [] None"]] by blast

theorem serve_admin_gate_witness:
  "serve sample_deps sample_climate (http ''DELETE'' [''admin'', ''submissions'', ''a''] [] None) (fresh_server Map.empty) =
     ((401, ErrorText ''unauthorized''), fresh_server Map.empty)"
proof -
  let ?r = "http ''DELETE'' [''admin'', ''submissions'', ''a''] [] None"
  have "RequireSession (sample_mac (CHR ''a'')) (Time 0 0) [] = Inl ErrInvalidSession"
    by (simp add: RequireSession_def has_prefix_def)
  with serve_admin_gate [of sample_deps sample_climate ?r "fresh_server Map.empty"]
  show ?thesis by (simp add: organisers_request_def authorised_def)
qed

lemma sample_serves_upload:
  assumes "SubmitHandler_ServeHTTP sample_handler sample_weather sample_request sample_portal = ((st, resp), p')"
  shows "serve sample_deps sample_climate (http ''POST'' [''submit''] (''Bearer '' @ sample_token) None)
       \<lparr>nonces_of = NewNonceStore, portal_of = sample_portal\<rparr>
     = ((st, Submission resp), \<lparr>nonces_of = NewNonceStore, portal_of = p'\<rparr>)"
  using assms by (simp add: serve_def Let_def sample_routes sample_request_def LimitSubmissions_def submit_reply_def)

text \<open>The upload of the sample submission changes the log, so it was made under a session.\<close>

theorem serve_writes_witness:
  "\<exists>s1. snd (serve sample_deps sample_climate (http ''POST'' [''submit''] (''Bearer '' @ sample_token) None)
            \<lparr>nonces_of = NewNonceStore, portal_of = sample_portal\<rparr>) = s1
     \<and> log_of (portal_of s1) \<noteq> log_of sample_portal
     \<and> uploading sample_deps sample_climate (http ''POST'' [''submit''] (''Bearer '' @ sample_token) None)"
proof (rule sample_submits)
  fix p'
  assume s: "SubmitHandler_ServeHTTP sample_handler sample_weather sample_request sample_portal = ((200, sample_response), p')"
    and lg: "log_of p' = snd (FileLog_Record (one_enc sample_logged) \<lparr>open_err = False, written = None\<rparr> sample_logged None)"
  let ?r = "http ''POST'' [''submit''] (''Bearer '' @ sample_token) None"
  have changed: "log_of p' \<noteq> log_of sample_portal" by (simp add: lg FileLog_Record_def one_enc_def sample_portal_def)
  have s1: "snd (serve sample_deps sample_climate ?r \<lparr>nonces_of = NewNonceStore, portal_of = sample_portal\<rparr>)
      = \<lparr>nonces_of = NewNonceStore, portal_of = p'\<rparr>"
    by (simp only: sample_serves_upload [OF s] snd_conv)
  have "uploading sample_deps sample_climate ?r"
    using serve_writes [OF s1 refl refl refl] changed by (simp add: sample_routes)
  with changed s1 show ?thesis by (metis server.select_convs(2))
qed

definition waiting_server :: "upload_dir server" where
  "waiting_server =
     (fresh_server Map.empty)\<lparr>nonces_of := [''6e'' \<mapsto> \<lparr>operatorAddr = sample_address, expiresAt = Time 0 0\<rparr>]\<rparr>"

lemma sample_verified:
  obtains s1 where "serve sample_deps sample_climate (http ''POST'' [''auth'', ''verify''] [] (Some (verify_doc ''g1'' ''6e'' []))) waiting_server
     = ((200, Token sample_token), s1)"
proof -
  have "VerifyChallenge sample_verifier (Time 0 0) sample_address ''6e'' [] (nonces_of waiting_server) = (None, (nonces_of waiting_server)(''6e'' := None))"
    unfolding VerifyChallenge_None by (simp add: waiting_server_def after_def sample_verifier_def SignBytes_def)
  moreover have "decode_std [] = Some []" by code_simp
  ultimately show thesis
    using that
    by (simp add: serve_def Let_def sample_routes admin_data_route_def VerifyHandler_def auth_docs_decode reply_of_def sample_token_def)
qed

theorem upload_token_refused_witness:
  "serve sample_deps sample_climate (http ''GET'' [''admin'', ''submissions''] (''Bearer '' @ sample_token) None) waiting_server =
     ((401, ErrorText ''unauthorized''), waiting_server)"
proof (rule sample_verified)
  fix s1
  assume s: "serve sample_deps sample_climate (http ''POST'' [''auth'', ''verify''] [] (Some (verify_doc ''g1'' ''6e'' []))) waiting_server
     = ((200, Token sample_token), s1)"
  show ?thesis
    by (rule upload_token_refused [OF s])
       (simp_all add: sample_routes organisers_request_def, simp add: sample_mac_def macLen_def)
qed

theorem shared_secret_crosses_witness:
  "authorised (deps_of (\<lambda>_. sample_mac (CHR ''k'')) (\<lambda>_ _. finds_x) sample_deps sample_boot) sample_climate
     (http ''GET'' [''admin'', ''submissions''] (''Bearer '' @ sample_token) None)"
proof (rule shared_secret_crosses [OF sample_boots, of sample_address "\<lambda>_. sample_mac (CHR ''k'')" sample_deps "Time 0 0"])
  show "in_int64 (unix_time (time_add (Time 0 0) (b_ttl sample_boot)))"
    "unix_time (c_now sample_climate) \<le> unix_time (time_add (Time 0 0) (b_ttl sample_boot))" by code_simp+
qed (simp_all add: length_sample_address length_sample_mac sample_env_def sample_boot_def submitHandlerFor_def sample_token_def)

definition admin_token :: string where
  "admin_token = SessionSigner_Issue (sample_mac (CHR ''a'')) hour (Time 0 0) sample_address"

lemma sample_admin: "authorised sample_deps sample_climate (http ''GET'' [''admin'', ''submissions''] (''Bearer '' @ admin_token) None)"
proof -
  have t: "in_int64 (unix_time (time_add (Time 0 0) hour))" "unix_time (Time 0 0) \<le> unix_time (time_add (Time 0 0) hour)"
    by code_simp+
  have "SessionSigner_Verify (sample_mac (CHR ''a'')) (Time 0 0) admin_token = Inr sample_address"
    unfolding admin_token_def using t session_accepts [OF length_sample_address length_sample_mac t(1)] by simp
  then show ?thesis
    using has_prefix_append [of "''Bearer ''" admin_token] trim_prefix_append [of "''Bearer ''" admin_token]
    by (simp add: authorised_def RequireSession_def)
qed

theorem accepted_submission_listed_witness:
  "\<exists>s1 m. serve sample_deps sample_climate (http ''POST'' [''submit''] (''Bearer '' @ sample_token) None)
       \<lparr>nonces_of = NewNonceStore, portal_of = sample_portal\<rparr> = ((200, Submission sample_response), s1)
     \<and> serve sample_deps sample_climate (http ''GET'' [''admin'', ''submissions''] (''Bearer '' @ admin_token) None) s1 =
          ((200, Rows [admin_row m sample_logged]), s1)"
proof (rule sample_submits)
  fix p'
  assume s: "SubmitHandler_ServeHTTP sample_handler sample_weather sample_request sample_portal = ((200, sample_response), p')"
    and sc: "scores_of p' = snd (Store_Set False (\<lambda>_. False) sample_scored None)"
    and lg: "log_of p' = snd (FileLog_Record (one_enc sample_logged) \<lparr>open_err = False, written = None\<rparr> sample_logged None)"
  let ?s = "\<lparr>nonces_of = NewNonceStore, portal_of = sample_portal\<rparr>" and ?s1 = "\<lparr>nonces_of = NewNonceStore, portal_of = p'\<rparr>"
  let ?q = "http ''GET'' [''admin'', ''submissions''] (''Bearer '' @ admin_token) None"
  have sub: "serve sample_deps sample_climate (http ''POST'' [''submit''] (''Bearer '' @ sample_token) None) ?s =
      ((200, Submission sample_response), ?s1)"
    by (rule sample_serves_upload [OF s])
  obtain m where m: "Store_ByID False (scores_of p') = Inr m"
    by (cases "scores_encodable [(SubmissionID sample_scored, sample_scored)]")
       (auto simp: sc Store_ByID_def Store_Set_def Store_all_def load_file_def Store_save_def save_file_cases fails_early_def)
  have prems: "newMux (hq_method (http ''POST'' [''submit''] (''Bearer '' @ sample_token) None))
        (hq_path (http ''POST'' [''submit''] (''Bearer '' @ sample_token) None)) = RouteSubmit"
      "LogWired (d_handler sample_deps)" "log_faults (c_weather sample_climate) = \<lparr>open_err = False, written = None\<rparr>"
      "represents (h_enc (d_handler sample_deps)) (d_dec sample_deps) (log_of (portal_of ?s)) []"
      "newMux (hq_method ?q) (hq_path ?q) = RouteSubmissions" "hq_method ?q = ''GET''" "\<not> c_log_bad sample_climate"
      "Store_ByID (c_scores_bad sample_climate) (scores_of (portal_of ?s1)) = Inr m"
    using m by (simp_all add: sample_routes sample_portal_def nothing_represented)
  from accepted_submission_listed [OF sub prems(1-6) sample_admin prems(7,8)]
  obtain e where
    "log_of (portal_of ?s1) = snd (FileLog_Record (h_enc (d_handler sample_deps)) (log_faults (c_weather sample_climate)) e (log_of (portal_of ?s)))"
    "lawful (h_enc (d_handler sample_deps)) (d_dec sample_deps) e \<longrightarrow>
       serve sample_deps sample_climate ?q ?s1 = ((200, Rows (map (admin_row m) ([] @ [e]))), ?s1)" by blast
  then have e: "log_of p' = snd (FileLog_Record (one_enc sample_logged) \<lparr>open_err = False, written = None\<rparr> e (log_of sample_portal))"
    "lawful (one_enc sample_logged) (one_dec sample_logged) e \<Longrightarrow>
       serve sample_deps sample_climate ?q ?s1 = ((200, Rows [admin_row m e]), ?s1)" by simp_all
  have "e = sample_logged"
  proof (rule ccontr)
    assume "e \<noteq> sample_logged"
    then have "log_of p' = Some []" by (simp add: e(1) FileLog_Record_def one_enc_def sample_portal_def)
    moreover have "log_of p' = Some (''{1}'' @ [nl])" by (simp add: lg FileLog_Record_def one_enc_def)
    ultimately show False by simp
  qed
  with e(2) one_lawful sub show ?thesis by blast
qed

end
